(* ===== verification/Prelude.thy ===== *)
theory Prelude
  imports
    Main
    "HOL-Library.Word"
    "HOL-Library.AList"
    "HOL-Library.Char_ord"
    "HOL-Library.List_Lexorder"
    "HOL-Library.Product_Lexorder"
    "HOL-Library.Option_ord"
    "HOL-Library.Multiset"
    "HOL-Library.Code_Target_Numeral"
begin

text \<open>
  Shared vocabulary of the development.

  \<^item> Types: \<open>time\<close> stands for \<^verbatim>\<open>chrono::DateTime<Utc>\<close>. The instants form a countable linear
    order, so an order-preserving code by \<^typ>\<open>int\<close> loses nothing; only the order is used
    here. Every function of the \<^verbatim>\<open>chrono\<close> crate is an argument of the definitions that call
    it (record \<open>chrono\<close>). \<open>bytes\<close> is \<^verbatim>\<open>Vec<u8>\<close>; a \<^verbatim>\<open>String\<close> is the list of its UTF-8 bytes,
    whose lexicographic order is the order of Rust's \<^verbatim>\<open>str\<close> and of SQLite's binary collation.
  \<^item> Machine integers: \<^verbatim>\<open>u32\<close>, \<^verbatim>\<open>u64\<close> and \<^verbatim>\<open>usize\<close> are natural numbers; where the source uses a
    checked or a saturating operation the bound is written out (\<open>u64_max\<close>, \<open>checked_add\<close>).
  \<^item> Hash maps: association lists with the operations of \<open>HOL-Library.AList\<close>.
  \<^item> \<open>blank\<close> is Rust's \<^verbatim>\<open>s.trim().is_empty()\<close>.
\<close>

section \<open>Types and machine integers\<close>

type_synonym time = int
type_synonym bytes = "8 word list"

definition u32_max :: nat where
  "u32_max = 4294967295"

definition u64_max :: nat where
  "u64_max = 18446744073709551615"

definition i64_max :: nat where
  "i64_max = 9223372036854775807"

definition checked_add :: "nat \<Rightarrow> nat \<Rightarrow> nat option" where
  "checked_add a b = (if a + b \<le> u64_max then Some (a + b) else None)"

definition as_i64 :: "nat \<Rightarrow> int" where
  "as_i64 n = (if n \<le> i64_max then int n else int n - 18446744073709551616)"

definition saturating_add_u32 :: "nat \<Rightarrow> nat \<Rightarrow> nat" where
  "saturating_add_u32 a b = min (a + b) u32_max"

text \<open>
  The functions of \<^verbatim>\<open>chrono\<close> the source calls. \<open>checked_add_secs t s\<close> is
  \<^verbatim>\<open>TimeDelta::try_seconds(s).and_then(|d| t.checked_add_signed(d))\<close>.
\<close>

record chrono =
  checked_add_secs :: "time \<Rightarrow> int \<Rightarrow> time option"
  timestamp_subsec_nanos :: "time \<Rightarrow> nat"
  timestamp_millis :: "time \<Rightarrow> int"
  from_timestamp_millis :: "int \<Rightarrow> time option"

text \<open>
  What the code relies on of that crate, as documented: a sum that is representable lies
  after the instant for a positive number of seconds and before it for a negative one.
\<close>

definition chrono_forward :: "chrono \<Rightarrow> bool" where
  "chrono_forward ch \<longleftrightarrow>
     (\<forall>t s u. checked_add_secs ch t s = Some u \<longrightarrow> (t < u \<longleftrightarrow> 0 < s) \<and> (u < t \<longleftrightarrow> s < 0))"

text \<open>A clock that satisfies this, on which properties are instantiated: one unit is one second.\<close>

definition plain_clock :: chrono where
  "plain_clock =
     \<lparr>checked_add_secs = (\<lambda>t s. Some (t + s)), timestamp_subsec_nanos = (\<lambda>t. 0),
      timestamp_millis = (\<lambda>t. t * 1000), from_timestamp_millis = (\<lambda>m. Some (m div 1000))\<rparr>"

lemma plain_clock_forward: "chrono_forward plain_clock"
  by (auto simp: plain_clock_def chrono_forward_def)

section \<open>Blank strings\<close>

text \<open>Three-byte UTF-8 encodings of Unicode \<^verbatim>\<open>White_Space\<close> characters.\<close>

definition ws3 :: "nat \<Rightarrow> nat \<Rightarrow> nat \<Rightarrow> bool" where
  "ws3 a b c \<longleftrightarrow>
     a = 225 \<and> b = 154 \<and> c = 128 \<or>
     a = 226 \<and> b = 128 \<and> (128 \<le> c \<and> c \<le> 138 \<or> c = 168 \<or> c = 169 \<or> c = 175) \<or>
     a = 226 \<and> b = 129 \<and> c = 159 \<or>
     a = 227 \<and> b = 128 \<and> c = 128"

fun blank_bytes :: "nat list \<Rightarrow> bool" where
  "blank_bytes [] = True"
| "blank_bytes (a # xs) =
     (if 9 \<le> a \<and> a \<le> 13 \<or> a = 32 then blank_bytes xs
      else case xs of
        [] \<Rightarrow> False
      | b # ys \<Rightarrow>
          if a = 194 \<and> (b = 133 \<or> b = 160) then blank_bytes ys
          else case ys of
            [] \<Rightarrow> False
          | c # zs \<Rightarrow> ws3 a b c \<and> blank_bytes zs)"

definition blank :: "string \<Rightarrow> bool" where
  "blank s = blank_bytes (map of_char s)"

lemma blank_Nil [simp]: "blank []"
  by (simp add: blank_def)

section \<open>Collections of rewrite rules\<close>

named_theorems op_defs \<open>unfolding equations of the operations of a component\<close>
named_theorems inv_defs \<open>unfolding equations of the invariants of a component\<close>

section \<open>Lists and association lists\<close>

lemma map_of_update [simp]:
  "map_of (AList.update k v al) = (map_of al)(k \<mapsto> v)"
  by (rule update_conv')

lemma map_of_delete [simp]:
  "map_of (AList.delete k al) = (map_of al)(k := None)"
  by (rule delete_conv')

lemma distinct_keys_update [simp]:
  "distinct (map fst al) \<Longrightarrow> distinct (map fst (AList.update k v al))"
  by (rule distinct_update)

lemma distinct_keys_delete [simp]:
  "distinct (map fst al) \<Longrightarrow> distinct (map fst (AList.delete k al))"
  by (rule distinct_delete)

lemma map_of_in_values:
  "distinct (map fst al) \<Longrightarrow> v \<in> set (map snd al) \<longleftrightarrow> (\<exists>k. map_of al k = Some v)"
  by (force simp: image_iff map_of_eq_Some_iff)

lemma set_take_sort_key: "set (take n (sort_key f xs)) \<subseteq> set xs"
  by (metis set_sort set_take_subset)

lemma distinct_take_sort_key: "distinct xs \<Longrightarrow> distinct (take n (sort_key f xs))"
  by simp

lemma length_filter_map_update:
  assumes "distinct (map k xs)" and "x \<in> set xs"
  shows "length (filter P (map (\<lambda>y. if k y = k x then x' else y) xs)) + of_bool (P x)
       = length (filter P xs) + of_bool (P x')"
  using assms
proof (induction xs)
  case (Cons y ys)
  show ?case
  proof (cases "k y = k x")
    case True
    with Cons.prems have eq: "y = x" and nin: "k x \<notin> k ` set ys" by auto
    from nin have "map (\<lambda>y. if k y = k x then x' else y) ys = ys"
      by (induction ys) auto
    with eq show ?thesis by auto
  next
    case False
    with Cons show ?thesis by auto
  qed
qed simp

end
