(* ===== verification/Core_Vocab.thy ===== *)
theory Core_Vocab
  imports Prelude
begin

text \<open>
  Crate \<^verbatim>\<open>symbiotic-core\<close>: the identifiers (newtypes over \<^verbatim>\<open>String\<close>, here synonyms), the binding identity with its validity check,
  and the closed diagnostic vocabulary of \<^verbatim>\<open>diagnostics.rs\<close>. The macro \<^verbatim>\<open>closed_codes!\<close>
  expands, for each enumeration, to the functions \<^verbatim>\<open>as_str\<close>, \<^verbatim>\<open>code\<close> and \<^verbatim>\<open>parse\<close>; they are
  written out here once per enumeration. The lemmas show that the stored code of a
  diagnostic reads back as that diagnostic, and that nothing else does.
\<close>

section \<open>Identifiers\<close>

type_synonym QueueId = string
type_synonym QueueItemId = string
type_synonym Operation = string
type_synonym Operator = string
type_synonym ModelName = string
type_synonym TenantId = string
type_synonym ProviderPrincipalId = string
type_synonym ConfigurationRevision = string
type_synonym AccountId = string

record ModelIdentity =
  operation :: Operation
  operator :: Operator
  model :: ModelName

definition ModelIdentity_new :: "string \<Rightarrow> string \<Rightarrow> string \<Rightarrow> ModelIdentity" where
  "ModelIdentity_new op oper m =
     \<lparr>operation = op, operator = oper, model = m\<rparr>"

definition model_queue_id :: "ModelIdentity \<Rightarrow> QueueId" where
  "model_queue_id m =
     operation m @ '':'' @ operator m @ '':'' @ model m"

record BindingIdentity =
  tenant :: TenantId
  provider :: ProviderPrincipalId
  revision :: ConfigurationRevision
  account :: AccountId

definition BindingIdentity_new :: "string \<Rightarrow> string \<Rightarrow> string \<Rightarrow> string \<Rightarrow> BindingIdentity" where
  "BindingIdentity_new t p r a =
     \<lparr>tenant = t, provider = p, revision = r, account = a\<rparr>"

definition is_valid :: "BindingIdentity \<Rightarrow> bool" where
  "is_valid b \<longleftrightarrow>
     list_all (\<lambda>s. \<not> blank s) [tenant b, provider b, revision b, account b]"

section \<open>Diagnostics\<close>

datatype (plugins only: code) DiagnosticCode =
    AClassifyRequestNeedsAtLeastOneQuestion
  | AdapterBoundsDifferFromConfiguredBinding
  | AdapterCapabilitiesDifferFromConfiguredModel
  | BindingDiffersFromConfiguredIdentityModel
  | BindingOverridesConfiguredAccountPolicy
  | BindingRequiresAnExplicitExecutionPolicyOrConfiguredRegistry
  | ClassificationQuestionsCannotBeEncoded
  | ConfiguredCredentialModeIsUnsupportedOrEmpty
  | CredentialBearingProviderResponseRefused
  | CredentialResultBoundaryIsUnavailable
  | EffectiveTransportDiffersFromConfiguredBinding
  | FiniteNonzeroRequestResponseByteLimitsAreRequired
  | GeminiBatchResponseMissingEmbeddings
  | GeminiEmbeddingContainsNonFiniteComponents
  | GeminiRequestDimensionsDifferFromConfiguredBinding
  | OpenaiCompatibleResponseHadNoChoices
  | TerminalQueueItemIsMissingItsErrorClass
  | UnsupportedChatSettingsReasoningEffortRequiresThinkingAndMustBeNonempty
  | AccountSharingKeyIsEmpty
  | InvocationCompleted
  | AttemptBudgetExhausted
  | AuthenticationRejected
  | BindingIdentityIsRequired
  | CacheFailure
  | CachePathRefused
  | ChatOutputLimitRequired
  | EmbeddingDimensionsMustBeNonzero
  | EmbeddingDimensionsRequired
  | FiniteOutputTokensAreRequired
  | FiniteTimeoutIsRequired
  | GeminiEmbeddingDimensionMismatch
  | GeminiResponseMissingEmbedding
  | GeminiTaskOptionIsUnsupported
  | HttpBudgetExhausted
  | HttpFailure
  | HttpRateLimited
  | HttpTimeout
  | HttpUnavailable
  | InvalidAdapterResponse
  | InvalidConfiguration
  | InvalidCredentialEncoding
  | InvalidHttpClientConfiguration
  | InvalidProviderResponse
  | InvalidResponse
  | LeaseExpired
  | MemoryQueueLockPoisoned
  | ModelAdmissionLockPoisoned
  | ModelRegistryIsNotConfigured
  | OutputTokenLimitExceeded
  | OutputTokenLimitMustBeNonzero
  | ProviderFailure
  | ProviderRedirectRefused
  | ProviderRequestLimitExceeded
  | ProviderResponseIsNotValidUtf8
  | ProviderResponseLimitExceeded
  | ProviderResponseReadFailed
  | QueueResultTooLarge
  | QueueFailure
  | QueueItemKindMustNotBeEmpty
  | RateBucketDisappeared
  | RateBucketLockPoisoned
  | RateGateLockPoisoned
  | RuntimePolicyLockPoisoned
  | SqliteQueueLockPoisoned
  | StaleQueueItem
  | StorageFailure
  | SpendReceiptRefTooLong
  | SpendLedgerUnavailable
  | SpendReconciliationRequired
  | SpendBudgetExhausted
  | SystemOneNeedsABearerApiKey
  | UnsupportedQueueSchema
  | WorkerIdMustNotBeEmpty

definition all_diags :: "DiagnosticCode list" where
  "all_diags =
     [AClassifyRequestNeedsAtLeastOneQuestion,
      AdapterBoundsDifferFromConfiguredBinding,
      AdapterCapabilitiesDifferFromConfiguredModel,
      BindingDiffersFromConfiguredIdentityModel,
      BindingOverridesConfiguredAccountPolicy,
      BindingRequiresAnExplicitExecutionPolicyOrConfiguredRegistry,
      ClassificationQuestionsCannotBeEncoded,
      ConfiguredCredentialModeIsUnsupportedOrEmpty,
      CredentialBearingProviderResponseRefused,
      CredentialResultBoundaryIsUnavailable,
      EffectiveTransportDiffersFromConfiguredBinding,
      FiniteNonzeroRequestResponseByteLimitsAreRequired,
      GeminiBatchResponseMissingEmbeddings,
      GeminiEmbeddingContainsNonFiniteComponents,
      GeminiRequestDimensionsDifferFromConfiguredBinding,
      OpenaiCompatibleResponseHadNoChoices,
      TerminalQueueItemIsMissingItsErrorClass,
      UnsupportedChatSettingsReasoningEffortRequiresThinkingAndMustBeNonempty,
      AccountSharingKeyIsEmpty,
      InvocationCompleted,
      AttemptBudgetExhausted,
      AuthenticationRejected,
      BindingIdentityIsRequired,
      CacheFailure,
      CachePathRefused,
      ChatOutputLimitRequired,
      EmbeddingDimensionsMustBeNonzero,
      EmbeddingDimensionsRequired,
      FiniteOutputTokensAreRequired,
      FiniteTimeoutIsRequired,
      GeminiEmbeddingDimensionMismatch,
      GeminiResponseMissingEmbedding,
      GeminiTaskOptionIsUnsupported,
      HttpBudgetExhausted,
      HttpFailure,
      HttpRateLimited,
      HttpTimeout,
      HttpUnavailable,
      InvalidAdapterResponse,
      InvalidConfiguration,
      InvalidCredentialEncoding,
      InvalidHttpClientConfiguration,
      InvalidProviderResponse,
      InvalidResponse,
      LeaseExpired,
      MemoryQueueLockPoisoned,
      ModelAdmissionLockPoisoned,
      ModelRegistryIsNotConfigured,
      OutputTokenLimitExceeded,
      OutputTokenLimitMustBeNonzero,
      ProviderFailure,
      ProviderRedirectRefused,
      ProviderRequestLimitExceeded,
      ProviderResponseIsNotValidUtf8,
      ProviderResponseLimitExceeded,
      ProviderResponseReadFailed,
      QueueResultTooLarge,
      QueueFailure,
      QueueItemKindMustNotBeEmpty,
      RateBucketDisappeared,
      RateBucketLockPoisoned,
      RateGateLockPoisoned,
      RuntimePolicyLockPoisoned,
      SqliteQueueLockPoisoned,
      StaleQueueItem,
      StorageFailure,
      SpendReceiptRefTooLong,
      SpendLedgerUnavailable,
      SpendReconciliationRequired,
      SpendBudgetExhausted,
      SystemOneNeedsABearerApiKey,
      UnsupportedQueueSchema,
      WorkerIdMustNotBeEmpty]"

primrec diag_code :: "DiagnosticCode \<Rightarrow> string" where
  "diag_code AClassifyRequestNeedsAtLeastOneQuestion = ''a_classify_request_needs_at_least_one_question''"
| "diag_code AdapterBoundsDifferFromConfiguredBinding = ''adapter_bounds_differ_from_configured_binding''"
| "diag_code AdapterCapabilitiesDifferFromConfiguredModel = ''adapter_capabilities_differ_from_configured_model''"
| "diag_code BindingDiffersFromConfiguredIdentityModel = ''binding_differs_from_configured_identity_model''"
| "diag_code BindingOverridesConfiguredAccountPolicy = ''binding_overrides_configured_account_policy''"
| "diag_code BindingRequiresAnExplicitExecutionPolicyOrConfiguredRegistry = ''binding_requires_an_explicit_execution_policy_or_configured_registry''"
| "diag_code ClassificationQuestionsCannotBeEncoded = ''classification_questions_cannot_be_encoded''"
| "diag_code ConfiguredCredentialModeIsUnsupportedOrEmpty = ''configured_credential_mode_is_unsupported_or_empty''"
| "diag_code CredentialBearingProviderResponseRefused = ''credential_bearing_provider_response_refused''"
| "diag_code CredentialResultBoundaryIsUnavailable = ''credential_result_boundary_is_unavailable''"
| "diag_code EffectiveTransportDiffersFromConfiguredBinding = ''effective_transport_differs_from_configured_binding''"
| "diag_code FiniteNonzeroRequestResponseByteLimitsAreRequired = ''finite_nonzero_request_response_byte_limits_are_required''"
| "diag_code GeminiBatchResponseMissingEmbeddings = ''gemini_batch_response_missing_embeddings''"
| "diag_code GeminiEmbeddingContainsNonFiniteComponents = ''gemini_embedding_contains_non_finite_components''"
| "diag_code GeminiRequestDimensionsDifferFromConfiguredBinding = ''gemini_request_dimensions_differ_from_configured_binding''"
| "diag_code OpenaiCompatibleResponseHadNoChoices = ''openai_compatible_response_had_no_choices''"
| "diag_code TerminalQueueItemIsMissingItsErrorClass = ''terminal_queue_item_is_missing_its_error_class''"
| "diag_code UnsupportedChatSettingsReasoningEffortRequiresThinkingAndMustBeNonempty = ''unsupported_chat_settings_reasoning_effort_requires_thinking_and_must_be_nonempty''"
| "diag_code AccountSharingKeyIsEmpty = ''account_sharing_key_is_empty''"
| "diag_code InvocationCompleted = ''invocation_completed''"
| "diag_code AttemptBudgetExhausted = ''attempt_budget_exhausted''"
| "diag_code AuthenticationRejected = ''authentication_rejected''"
| "diag_code BindingIdentityIsRequired = ''binding_identity_is_required''"
| "diag_code CacheFailure = ''cache_failure''"
| "diag_code CachePathRefused = ''cache_path_refused''"
| "diag_code ChatOutputLimitRequired = ''chat_output_limit_required''"
| "diag_code EmbeddingDimensionsMustBeNonzero = ''embedding_dimensions_must_be_nonzero''"
| "diag_code EmbeddingDimensionsRequired = ''embedding_dimensions_required''"
| "diag_code FiniteOutputTokensAreRequired = ''finite_output_tokens_are_required''"
| "diag_code FiniteTimeoutIsRequired = ''finite_timeout_is_required''"
| "diag_code GeminiEmbeddingDimensionMismatch = ''gemini_embedding_dimension_mismatch''"
| "diag_code GeminiResponseMissingEmbedding = ''gemini_response_missing_embedding''"
| "diag_code GeminiTaskOptionIsUnsupported = ''gemini_task_option_is_unsupported''"
| "diag_code HttpBudgetExhausted = ''http_budget_exhausted''"
| "diag_code HttpFailure = ''http_failure''"
| "diag_code HttpRateLimited = ''http_rate_limited''"
| "diag_code HttpTimeout = ''http_timeout''"
| "diag_code HttpUnavailable = ''http_unavailable''"
| "diag_code InvalidAdapterResponse = ''invalid_adapter_response''"
| "diag_code InvalidConfiguration = ''invalid_configuration''"
| "diag_code InvalidCredentialEncoding = ''invalid_credential_encoding''"
| "diag_code InvalidHttpClientConfiguration = ''invalid_http_client_configuration''"
| "diag_code InvalidProviderResponse = ''invalid_provider_response''"
| "diag_code InvalidResponse = ''invalid_response''"
| "diag_code LeaseExpired = ''lease_expired''"
| "diag_code MemoryQueueLockPoisoned = ''memory_queue_lock_poisoned''"
| "diag_code ModelAdmissionLockPoisoned = ''model_admission_lock_poisoned''"
| "diag_code ModelRegistryIsNotConfigured = ''model_registry_is_not_configured''"
| "diag_code OutputTokenLimitExceeded = ''output_token_limit_exceeded''"
| "diag_code OutputTokenLimitMustBeNonzero = ''output_token_limit_must_be_nonzero''"
| "diag_code ProviderFailure = ''provider_failure''"
| "diag_code ProviderRedirectRefused = ''provider_redirect_refused''"
| "diag_code ProviderRequestLimitExceeded = ''provider_request_limit_exceeded''"
| "diag_code ProviderResponseIsNotValidUtf8 = ''provider_response_is_not_valid_utf8''"
| "diag_code ProviderResponseLimitExceeded = ''provider_response_limit_exceeded''"
| "diag_code ProviderResponseReadFailed = ''provider_response_read_failed''"
| "diag_code QueueResultTooLarge = ''queue_result_too_large''"
| "diag_code QueueFailure = ''queue_failure''"
| "diag_code QueueItemKindMustNotBeEmpty = ''queue_item_kind_must_not_be_empty''"
| "diag_code RateBucketDisappeared = ''rate_bucket_disappeared''"
| "diag_code RateBucketLockPoisoned = ''rate_bucket_lock_poisoned''"
| "diag_code RateGateLockPoisoned = ''rate_gate_lock_poisoned''"
| "diag_code RuntimePolicyLockPoisoned = ''runtime_policy_lock_poisoned''"
| "diag_code SqliteQueueLockPoisoned = ''sqlite_queue_lock_poisoned''"
| "diag_code StaleQueueItem = ''stale_queue_item''"
| "diag_code StorageFailure = ''storage_failure''"
| "diag_code SpendReceiptRefTooLong = ''spend_receipt_ref_too_long''"
| "diag_code SpendLedgerUnavailable = ''spend_ledger_unavailable''"
| "diag_code SpendReconciliationRequired = ''spend_reconciliation_required''"
| "diag_code SpendBudgetExhausted = ''spend_budget_exhausted''"
| "diag_code SystemOneNeedsABearerApiKey = ''system_one_needs_a_bearer_api_key''"
| "diag_code UnsupportedQueueSchema = ''unsupported_queue_schema''"
| "diag_code WorkerIdMustNotBeEmpty = ''worker_id_must_not_be_empty''"

primrec diag_str :: "DiagnosticCode \<Rightarrow> string" where
  "diag_str AClassifyRequestNeedsAtLeastOneQuestion = ''a classify request needs at least one question''"
| "diag_str AdapterBoundsDifferFromConfiguredBinding = ''adapter bounds differ from configured binding''"
| "diag_str AdapterCapabilitiesDifferFromConfiguredModel = ''adapter capabilities differ from configured model''"
| "diag_str BindingDiffersFromConfiguredIdentityModel = ''binding differs from configured identity/model''"
| "diag_str BindingOverridesConfiguredAccountPolicy = ''binding overrides configured account policy''"
| "diag_str BindingRequiresAnExplicitExecutionPolicyOrConfiguredRegistry = ''binding requires an explicit execution policy or configured registry''"
| "diag_str ClassificationQuestionsCannotBeEncoded = ''classification questions cannot be encoded''"
| "diag_str ConfiguredCredentialModeIsUnsupportedOrEmpty = ''configured credential mode is unsupported or empty''"
| "diag_str CredentialBearingProviderResponseRefused = ''credential-bearing provider response refused''"
| "diag_str CredentialResultBoundaryIsUnavailable = ''credential result boundary is unavailable''"
| "diag_str EffectiveTransportDiffersFromConfiguredBinding = ''effective transport differs from configured binding''"
| "diag_str FiniteNonzeroRequestResponseByteLimitsAreRequired = ''finite nonzero request/response byte limits are required''"
| "diag_str GeminiBatchResponseMissingEmbeddings = ''Gemini batch response missing embeddings''"
| "diag_str GeminiEmbeddingContainsNonFiniteComponents = ''Gemini embedding contains non-finite components''"
| "diag_str GeminiRequestDimensionsDifferFromConfiguredBinding = ''Gemini request dimensions differ from configured binding''"
| "diag_str OpenaiCompatibleResponseHadNoChoices = ''OpenAI-compatible response had no choices''"
| "diag_str TerminalQueueItemIsMissingItsErrorClass = ''terminal queue item is missing its error class''"
| "diag_str UnsupportedChatSettingsReasoningEffortRequiresThinkingAndMustBeNonempty = ''unsupported chat settings: reasoning effort requires thinking and must be nonempty''"
| "diag_str AccountSharingKeyIsEmpty = ''account sharing key is empty''"
| "diag_str InvocationCompleted = ''invocation completed; recovery answer discarded or expired''"
| "diag_str AttemptBudgetExhausted = ''attempt budget exhausted''"
| "diag_str AuthenticationRejected = ''authentication rejected''"
| "diag_str BindingIdentityIsRequired = ''binding identity is required''"
| "diag_str CacheFailure = ''cache failure''"
| "diag_str CachePathRefused = ''cache path refused''"
| "diag_str ChatOutputLimitRequired = ''chat output limit required''"
| "diag_str EmbeddingDimensionsMustBeNonzero = ''embedding dimensions must be nonzero''"
| "diag_str EmbeddingDimensionsRequired = ''embedding dimensions required''"
| "diag_str FiniteOutputTokensAreRequired = ''finite output tokens are required''"
| "diag_str FiniteTimeoutIsRequired = ''finite timeout is required''"
| "diag_str GeminiEmbeddingDimensionMismatch = ''Gemini embedding dimension mismatch''"
| "diag_str GeminiResponseMissingEmbedding = ''Gemini response missing embedding''"
| "diag_str GeminiTaskOptionIsUnsupported = ''Gemini task option is unsupported''"
| "diag_str HttpBudgetExhausted = ''HTTP budget exhausted''"
| "diag_str HttpFailure = ''HTTP failure''"
| "diag_str HttpRateLimited = ''HTTP rate limited''"
| "diag_str HttpTimeout = ''HTTP timeout''"
| "diag_str HttpUnavailable = ''HTTP unavailable''"
| "diag_str InvalidAdapterResponse = ''invalid adapter response''"
| "diag_str InvalidConfiguration = ''invalid configuration''"
| "diag_str InvalidCredentialEncoding = ''invalid credential encoding''"
| "diag_str InvalidHttpClientConfiguration = ''invalid HTTP client configuration''"
| "diag_str InvalidProviderResponse = ''invalid provider response''"
| "diag_str InvalidResponse = ''invalid response''"
| "diag_str LeaseExpired = ''lease expired''"
| "diag_str MemoryQueueLockPoisoned = ''memory queue lock poisoned''"
| "diag_str ModelAdmissionLockPoisoned = ''model admission lock poisoned''"
| "diag_str ModelRegistryIsNotConfigured = ''model registry is not configured''"
| "diag_str OutputTokenLimitExceeded = ''output token limit exceeded''"
| "diag_str OutputTokenLimitMustBeNonzero = ''output token limit must be nonzero''"
| "diag_str ProviderFailure = ''provider failure''"
| "diag_str ProviderRedirectRefused = ''provider redirect refused''"
| "diag_str ProviderRequestLimitExceeded = ''provider request limit exceeded''"
| "diag_str ProviderResponseIsNotValidUtf8 = ''provider response is not valid UTF-8''"
| "diag_str ProviderResponseLimitExceeded = ''provider response limit exceeded''"
| "diag_str ProviderResponseReadFailed = ''provider response read failed''"
| "diag_str QueueResultTooLarge = ''job result exceeds retained result limit''"
| "diag_str QueueFailure = ''queue failure''"
| "diag_str QueueItemKindMustNotBeEmpty = ''queue item kind must not be empty''"
| "diag_str RateBucketDisappeared = ''rate bucket disappeared''"
| "diag_str RateBucketLockPoisoned = ''rate bucket lock poisoned''"
| "diag_str RateGateLockPoisoned = ''rate gate lock poisoned''"
| "diag_str RuntimePolicyLockPoisoned = ''runtime policy lock poisoned''"
| "diag_str SqliteQueueLockPoisoned = ''sqlite queue lock poisoned''"
| "diag_str StaleQueueItem = ''stale queue item''"
| "diag_str StorageFailure = ''storage failure''"
| "diag_str SpendReceiptRefTooLong = ''spend receipt reference exceeds maximum byte length''"
| "diag_str SpendLedgerUnavailable = ''spend ledger unavailable''"
| "diag_str SpendReconciliationRequired = ''spend reconciliation required''"
| "diag_str SpendBudgetExhausted = ''account request budget exhausted''"
| "diag_str SystemOneNeedsABearerApiKey = ''System One needs a bearer API key''"
| "diag_str UnsupportedQueueSchema = ''unsupported queue schema; rebuild the queue database''"
| "diag_str WorkerIdMustNotBeEmpty = ''worker_id must not be empty''"

definition diag_parse :: "string \<Rightarrow> DiagnosticCode option" where
  "diag_parse s = find (\<lambda>c. diag_code c = s) all_diags"

datatype (plugins only: code) FailureClass =
    FC_Unavailable
  | FC_Auth
  | FC_RateLimited
  | FC_BudgetExhausted
  | FC_Timeout
  | FC_InvalidRequest
  | FC_Provider
  | FC_Queue
  | FC_Cache
  | FC_UnsupportedChat
  | FC_UnsupportedEmbedding
  | FC_UnsupportedRerank
  | FC_UnsupportedClassify
  | FC_UnsupportedVision
  | FC_UnsupportedImageGeneration
  | FC_UnsupportedVideoGeneration
  | FC_UnsupportedAgentTask

definition all_classes :: "FailureClass list" where
  "all_classes =
     [FC_Unavailable,
      FC_Auth,
      FC_RateLimited,
      FC_BudgetExhausted,
      FC_Timeout,
      FC_InvalidRequest,
      FC_Provider,
      FC_Queue,
      FC_Cache,
      FC_UnsupportedChat,
      FC_UnsupportedEmbedding,
      FC_UnsupportedRerank,
      FC_UnsupportedClassify,
      FC_UnsupportedVision,
      FC_UnsupportedImageGeneration,
      FC_UnsupportedVideoGeneration,
      FC_UnsupportedAgentTask]"

primrec class_code :: "FailureClass \<Rightarrow> string" where
  "class_code FC_Unavailable = ''unavailable''"
| "class_code FC_Auth = ''auth''"
| "class_code FC_RateLimited = ''rate_limited''"
| "class_code FC_BudgetExhausted = ''budget_exhausted''"
| "class_code FC_Timeout = ''timeout''"
| "class_code FC_InvalidRequest = ''invalid_request''"
| "class_code FC_Provider = ''provider''"
| "class_code FC_Queue = ''queue''"
| "class_code FC_Cache = ''cache''"
| "class_code FC_UnsupportedChat = ''unsupported_chat''"
| "class_code FC_UnsupportedEmbedding = ''unsupported_embedding''"
| "class_code FC_UnsupportedRerank = ''unsupported_rerank''"
| "class_code FC_UnsupportedClassify = ''unsupported_classify''"
| "class_code FC_UnsupportedVision = ''unsupported_vision''"
| "class_code FC_UnsupportedImageGeneration = ''unsupported_image_generation''"
| "class_code FC_UnsupportedVideoGeneration = ''unsupported_video_generation''"
| "class_code FC_UnsupportedAgentTask = ''unsupported_agent_task''"

primrec class_str :: "FailureClass \<Rightarrow> string" where
  "class_str FC_Unavailable = ''unavailable''"
| "class_str FC_Auth = ''auth''"
| "class_str FC_RateLimited = ''rate_limited''"
| "class_str FC_BudgetExhausted = ''budget_exhausted''"
| "class_str FC_Timeout = ''timeout''"
| "class_str FC_InvalidRequest = ''invalid_request''"
| "class_str FC_Provider = ''provider''"
| "class_str FC_Queue = ''queue''"
| "class_str FC_Cache = ''cache''"
| "class_str FC_UnsupportedChat = ''unsupported_chat''"
| "class_str FC_UnsupportedEmbedding = ''unsupported_embedding''"
| "class_str FC_UnsupportedRerank = ''unsupported_rerank''"
| "class_str FC_UnsupportedClassify = ''unsupported_classify''"
| "class_str FC_UnsupportedVision = ''unsupported_vision''"
| "class_str FC_UnsupportedImageGeneration = ''unsupported_image_generation''"
| "class_str FC_UnsupportedVideoGeneration = ''unsupported_video_generation''"
| "class_str FC_UnsupportedAgentTask = ''unsupported_agent_task''"

definition class_parse :: "string \<Rightarrow> FailureClass option" where
  "class_parse s = find (\<lambda>c. class_code c = s) all_classes"

section \<open>Queue identities\<close>

lemma append_colon_inj:
  assumes "CHR '':'' \<notin> set a" and "CHR '':'' \<notin> set b"
    and "a @ '':'' @ xs = b @ '':'' @ ys"
  shows "a = b \<and> xs = ys"
  using assms
proof (induction a arbitrary: b)
  case Nil
  then show ?case by (cases b) auto
next
  case (Cons c a)
  then show ?case by (cases b) auto
qed

section \<open>Stored codes read back\<close>

lemma find_distinct_image:
  assumes "distinct (map f xs)" and "x \<in> set xs"
  shows "find (\<lambda>y. f y = f x) xs = Some x"
  using assms by (induction xs) (auto simp: image_iff)

lemma all_diags_complete: "c \<in> set all_diags"
  by (cases c) (simp_all add: all_diags_def)

lemma all_classes_complete: "c \<in> set all_classes"
  by (cases c) (simp_all add: all_classes_def)

lemma diag_codes_distinct: "distinct (map diag_code all_diags)"
  by code_simp

lemma class_codes_distinct: "distinct (map class_code all_classes)"
  by code_simp

lemma diag_parse_code [simp]: "diag_parse (diag_code c) = Some c"
  unfolding diag_parse_def
  by (rule find_distinct_image [OF diag_codes_distinct all_diags_complete])

lemma class_parse_code [simp]: "class_parse (class_code c) = Some c"
  unfolding class_parse_def
  by (rule find_distinct_image [OF class_codes_distinct all_classes_complete])

lemma class_str_code: "class_str c = class_code c"
  by (cases c) simp_all

lemma diag_parse_Some: "diag_parse s = Some c \<Longrightarrow> diag_code c = s"
  by (auto simp: diag_parse_def find_Some_iff)

lemma class_parse_Some: "class_parse s = Some c \<Longrightarrow> class_code c = s"
  by (auto simp: class_parse_def find_Some_iff)

end
