(* ===== verification/Job_Types.thy ===== *)
theory Job_Types
  imports Core_Vocab
begin

text \<open>
  Crate \<^verbatim>\<open>symbiotic-queue\<close>, file \<^verbatim>\<open>jobs.rs\<close>: the data of the job store.

  Field and constructor names are those of the source, with a prefix where two types of the
  source use the same one (\<open>sp_\<close> the specification, \<open>R_\<close> resolutions, \<open>D_\<close> dispositions,
  \<open>Resp_\<close> responses). A \<^verbatim>\<open>JobId\<close> is a scope and an identity; the identity field of a record is
  \<open>job_id\<close>, the result copy is \<open>job_output\<close>. JSON encodings are not computed: their lengths are the functions of the record
  \<open>codec\<close>, an argument of the definitions that measure them, like the hash and the drawing of
  identities.
\<close>

record JobScope =
  tenant :: string
  incarnation :: string
  queue :: string

record JobId =
  scope_of :: JobScope
  ident :: string

record JobConfig =
  version :: nat
  max_batch :: nat
  max_page :: nat
  max_page_bytes :: nat
  max_result_bytes :: nat
  max_live_jobs :: nat
  max_pending_bytes :: nat
  delivery_lease_seconds :: nat
  claim_lease_seconds :: nat
  retention_seconds :: nat
  maintenance_batch :: nat
  maintenance_bytes_per_pass :: nat

definition JobConfig_default :: JobConfig where
  "JobConfig_default =
     \<lparr>version = 1, max_batch = 64, max_page = 64, max_page_bytes = 1024 * 1024,
      max_result_bytes = 16 * 1024 * 1024, max_live_jobs = 1024, max_pending_bytes = 16 * 1024 * 1024,
      delivery_lease_seconds = 30, claim_lease_seconds = 30, retention_seconds = 7 * 24 * 60 * 60,
      maintenance_batch = 64, maintenance_bytes_per_pass = 16 * 1024 * 1024\<rparr>"

datatype Execution = Handler | Model

record JobSpec =
  sp_key :: string
  sp_group :: "string option"
  sp_owners :: "string list"
  sp_kind :: string
  sp_execution :: Execution
  sp_payload :: bytes
  sp_admission :: "bytes option"
  sp_max_attempts :: nat
  sp_recovery_until :: "time option"

datatype JobState =
  Pending | AwaitingAdmission | Running | Uncertain | Succeeded | Failed | Cancelled | Refused | Purged
  | Accepted | Discarded

definition unfinished :: "JobState \<Rightarrow> bool" where
  "unfinished s \<longleftrightarrow> s = Pending \<or> s = AwaitingAdmission \<or> s = Running \<or> s = Uncertain"

definition acked :: "JobState \<Rightarrow> bool" where
  "acked s \<longleftrightarrow> s = Accepted \<or> s = Discarded"

definition delivery_state :: "JobState \<Rightarrow> bool" where
  "delivery_state s \<longleftrightarrow> s = Succeeded \<or> s = Failed \<or> s = Cancelled \<or> s = Refused \<or> s = Purged"

datatype ResultOrigin = O_Paid | O_Handler

record JobRecord =
  job_id :: JobId
  key :: string
  digest :: string
  job_group :: "string option"
  owners :: "string list"
  kind :: string
  execution :: Execution
  state :: JobState
  final_state :: "JobState option"
  payload :: "bytes option"
  admission :: "bytes option"
  max_attempts :: nat
  generation :: nat
  lease_until :: "time option"
  cancel_requested :: bool
  purged :: bool
  job_output :: "bytes option"
  output_bytes :: nat
  origin :: "ResultOrigin option"
  receipt :: "string option"
  recovery_until :: "time option"
  result_expired :: bool
  created_at :: time
  finished_at :: "time option"
  delivery_generation :: nat
  delivery_until :: "time option"
  diagnostic :: "DiagnosticCode option"

definition attempt_of :: "JobRecord \<Rightarrow> nat" where
  "attempt_of r = generation r"

datatype Enqueued = Inserted JobId | Joined JobId | AlreadyDone JobRecord

datatype Disposition = D_Accepted | D_Discarded

record DeliveryToken =
  tk_job :: JobId
  tk_generation :: nat

record Delivery =
  completion :: JobRecord
  token :: DeliveryToken

datatype AckResult = Acked Disposition | AlreadyAcked Disposition

record JobDiagnostic =
  jd_id :: JobId
  jd_state :: JobState
  jd_code :: "DiagnosticCode option"

record DiagnosticPage =
  dp_items :: "JobDiagnostic list"
  dp_after :: "string option"

datatype Selector = Ids "JobId list" | Group string

record PendingUsage =
  pu_items :: nat
  pu_bytes :: nat

datatype JobResolution =
  R_Uncertain string
| R_KnownZeroCharge string
| R_PaidResult string "time option"
| R_Failed string DiagnosticCode

datatype JobRequest =
  AwaitAdmission JobId
| Admit JobId bytes
| AdmissionNotices "string option" nat
| Enqueue "JobSpec list"
| Claim "string list" nat
| Candidates "string list" nat nat
| ClaimJob JobId
| ClaimPaid JobId string
| RefusePending JobId DiagnosticCode
| RecoveryCandidates "string list" "string option" nat nat
| Heartbeat JobId nat
| Complete JobId nat JobState ResultOrigin "bytes option" "string option" "DiagnosticCode option"
| Resolve JobId nat JobResolution
| Completions nat nat
| Ack "(DeliveryToken \<times> Disposition) list"
| Cancel Selector
| PurgeOwner string
| Diagnostics string "string option" nat
| Maintain
| Status JobId
| Get JobId
| GetPendingUsage

datatype JobResponse =
  Resp_Enqueued "Enqueued list"
| Resp_Job "JobRecord option"
| Resp_Candidates "JobRecord list"
| Resp_Deliveries "Delivery list"
| Resp_Acks "AckResult list"
| Resp_Changed nat
| Resp_Diagnostics DiagnosticPage
| Resp_Usage PendingUsage
| Resp_Heartbeat bool
| Resp_Done
| Resp_ResultRefused nat

datatype JobError =
  Scope
| NotFound
| KeyConflict
| QueueFull
| CompletionTooLarge JobId nat
| ResultTooLarge JobId nat
| CandidateTooLarge JobId nat
| InvalidRequest
| AuthorityExpired
| StaleClaim
| NotFinal
| Unavailable
| ExecutionError DiagnosticCode
| Storage

section \<open>Encodings\<close>

text \<open>
  Code outside the repository the store measures or calls: the lengths of the \<^verbatim>\<open>serde_json\<close> texts of
  a record, a delivery, a byte vector, the tuple of input metadata and an acknowledgement batch,
  the SHA-256 digest in hexadecimal, the length of the JSON array SQLite builds from a row, and
  the latest instant of \<^verbatim>\<open>chrono\<close>.
\<close>

record codec =
  json_record :: "JobRecord \<Rightarrow> nat"
  json_delivery :: "Delivery \<Rightarrow> nat"
  json_bytes :: "bytes \<Rightarrow> nat"
  json_input :: "JobScope \<times> string \<times> string option \<times> string list \<times> string \<times> Execution \<times> nat \<Rightarrow> nat"
  json_acks :: "(DeliveryToken \<times> Disposition) list \<Rightarrow> nat"
  sha256_hex :: "bytes \<Rightarrow> string"
  sql_json_input :: "JobScope \<times> string \<times> string option \<times> string list \<times> string \<times> Execution \<times> nat \<Rightarrow> nat"
  max_utc :: time

text \<open>The counting writer: a length that overflows is refused.\<close>

definition encoded_bytes :: "nat \<Rightarrow> JobError + nat" where
  "encoded_bytes n = (if n \<le> u64_max then Inr n else Inl Storage)"

definition input_fields ::
  "JobRecord \<Rightarrow> JobScope \<times> string \<times> string option \<times> string list \<times> string \<times> Execution \<times> nat" where
  "input_fields r = (scope_of (job_id r), key r, job_group r, owners r, kind r, execution r, max_attempts r)"

definition len :: "bytes option \<Rightarrow> nat" where
  "len b = (case b of None \<Rightarrow> 0 | Some xs \<Rightarrow> length xs)"

definition checked_sum :: "JobError \<Rightarrow> nat \<Rightarrow> nat \<Rightarrow> JobError + nat" where
  "checked_sum e a b = (case checked_add a b of None \<Rightarrow> Inl e | Some n \<Rightarrow> Inr n)"

definition and_then :: "'e + 'a \<Rightarrow> ('a \<Rightarrow> 'e + 'b) \<Rightarrow> 'e + 'b" where
  "and_then m f = (case m of Inl e \<Rightarrow> Inl e | Inr a \<Rightarrow> f a)"

definition ensure :: "bool \<Rightarrow> 'e \<Rightarrow> 'e + unit" where
  "ensure b e = (if b then Inr () else Inl e)"

definition job_input_bytes :: "codec \<Rightarrow> JobRecord \<Rightarrow> JobError + nat" where
  "job_input_bytes cd r =
     (if \<not> unfinished (state r) then Inr 0
      else and_then (encoded_bytes (json_input cd (input_fields r))) (\<lambda>metadata.
           and_then (checked_sum Storage metadata (len (payload r))) (\<lambda>bytes.
           checked_sum Storage bytes (len (admission r)))))"

section \<open>Facts\<close>

lemma and_then_simps [simp]: "and_then (Inl e) f = Inl e" "and_then (Inr a) f = f a"
  by (simp_all add: and_then_def)

lemma and_then_Inr: "and_then m f = Inr b \<longleftrightarrow> (\<exists>a. m = Inr a \<and> f a = Inr b)"
  by (cases m) auto

lemma ensure_Inr [simp]: "ensure b e = Inr u \<longleftrightarrow> b"
  by (simp add: ensure_def)

lemma checked_sum_Inr: "checked_sum e a b = Inr n \<longleftrightarrow> n = a + b \<and> a + b \<le> u64_max"
  by (auto simp: checked_sum_def checked_add_def)

lemma encoded_bytes_Inr: "encoded_bytes n = Inr m \<longleftrightarrow> m = n \<and> n \<le> u64_max"
  by (auto simp: encoded_bytes_def)

lemma unfinished_simps [simp]:
  "unfinished Pending" "unfinished AwaitingAdmission" "unfinished Running" "unfinished Uncertain"
  "\<not> unfinished Succeeded" "\<not> unfinished Failed" "\<not> unfinished Cancelled" "\<not> unfinished Refused"
  "\<not> unfinished Purged" "\<not> unfinished Accepted" "\<not> unfinished Discarded"
  by (simp_all add: unfinished_def)

lemma acked_simps [simp]:
  "acked Accepted" "acked Discarded"
  "\<not> acked Pending" "\<not> acked AwaitingAdmission" "\<not> acked Running" "\<not> acked Uncertain"
  "\<not> acked Succeeded" "\<not> acked Failed" "\<not> acked Cancelled" "\<not> acked Refused" "\<not> acked Purged"
  by (simp_all add: acked_def)

lemma delivery_state_simps [simp]:
  "delivery_state Succeeded" "delivery_state Failed" "delivery_state Cancelled" "delivery_state Refused"
  "delivery_state Purged"
  "\<not> delivery_state Pending" "\<not> delivery_state AwaitingAdmission" "\<not> delivery_state Running"
  "\<not> delivery_state Uncertain" "\<not> delivery_state Accepted" "\<not> delivery_state Discarded"
  by (simp_all add: delivery_state_def)

lemma three_phases: "delivery_state s \<longleftrightarrow> \<not> unfinished s \<and> \<not> acked s"
  by (cases s) simp_all

lemma unfinished_not_acked: "unfinished s \<Longrightarrow> \<not> acked s"
  by (cases s) simp_all

end
