(* ===== verification/Spend_Types.thy ===== *)
theory Spend_Types
  imports Job_Types
begin

text \<open>
  Crate \<^verbatim>\<open>symbiotic-model\<close>: the error type of model operations (\<^verbatim>\<open>lib.rs\<close>) and the vocabulary of
  execution accounting (\<^verbatim>\<open>spend.rs\<close>), with the usage record of crate \<^verbatim>\<open>symbiotic-trace\<close>.

  A JSON value is a tree; the entries of an object are kept in key order, so that equality of
  trees is equality of values. A receipt reference is its text.
\<close>

section \<open>Errors of model operations\<close>

datatype ModelCapability =
  Chat | Embedding | Rerank | Classify | Vision | ImageGeneration | VideoGeneration | AgentTask

datatype ModelError =
  M_HttpNotSent ModelError
| M_Http ModelError nat "nat option"
| M_Unavailable DiagnosticCode
| M_Auth DiagnosticCode
| M_RateLimited DiagnosticCode
| M_BudgetExhausted DiagnosticCode
| M_Timeout DiagnosticCode
| M_Unsupported ModelCapability
| M_InvalidRequest DiagnosticCode
| M_Provider DiagnosticCode
| M_Queue DiagnosticCode
| M_Cache DiagnosticCode
| M_Diagnostics ModelError "DiagnosticCode list"

datatype FailureCharge = Charge_Unknown | Charge_KnownZero

fun model_error_code :: "ModelError \<Rightarrow> DiagnosticCode" where
  "model_error_code (M_HttpNotSent p) = model_error_code p"
| "model_error_code (M_Unavailable c) = c"
| "model_error_code (M_Auth c) = c"
| "model_error_code (M_RateLimited c) = c"
| "model_error_code (M_BudgetExhausted c) = c"
| "model_error_code (M_Timeout c) = c"
| "model_error_code (M_InvalidRequest c) = c"
| "model_error_code (M_Provider c) = c"
| "model_error_code (M_Queue c) = c"
| "model_error_code (M_Cache c) = c"
| "model_error_code (M_Unsupported _) = InvalidConfiguration"
| "model_error_code (M_Diagnostics p _) = model_error_code p"
| "model_error_code (M_Http p _ _) = model_error_code p"

fun primary :: "ModelError \<Rightarrow> ModelError" where
  "primary (M_HttpNotSent p) = primary p"
| "primary (M_Http p _ _) = primary p"
| "primary (M_Diagnostics p _) = primary p"
| "primary e = e"

fun http_details :: "ModelError \<Rightarrow> (nat \<times> nat option) option" where
  "http_details (M_Http _ status retry) = Some (status, retry)"
| "http_details (M_Diagnostics p _) = http_details p"
| "http_details _ = None"

fun diagnostics_of :: "ModelError \<Rightarrow> DiagnosticCode list" where
  "diagnostics_of (M_Diagnostics _ ds) = ds"
| "diagnostics_of _ = []"

fun failure_charge :: "ModelError \<Rightarrow> FailureCharge" where
  "failure_charge (M_HttpNotSent _) = Charge_KnownZero"
| "failure_charge (M_Diagnostics p _) = failure_charge p"
| "failure_charge _ = Charge_Unknown"

definition with_diagnostics :: "ModelError \<Rightarrow> DiagnosticCode list \<Rightarrow> ModelError" where
  "with_diagnostics e ds =
     (if ds = [] then e
      else case e of M_Diagnostics p old \<Rightarrow> M_Diagnostics p (old @ ds) | _ \<Rightarrow> M_Diagnostics e ds)"

section \<open>Accounting vocabulary\<close>

datatype json_value =
  JNull | JBool bool | JNum string | JStr string | JArr "json_value list" | JObj "(string \<times> json_value) list"

record UsageTrace =
  cache_hit_tokens :: "nat option"
  cache_miss_tokens :: "nat option"
  response_id :: "string option"
  served_model :: "string option"
  created :: "int option"
  input_tokens :: "nat option"
  output_tokens :: "nat option"
  reasoning_tokens :: "nat option"
  media_units :: "nat option"
  cost_micro_usd :: "nat option"
  reported_cost_usd :: "string option"

definition has_measured_usage :: "UsageTrace \<Rightarrow> bool" where
  "has_measured_usage u \<longleftrightarrow>
     cache_hit_tokens u \<noteq> None \<or> cache_miss_tokens u \<noteq> None \<or> input_tokens u \<noteq> None \<or> output_tokens u \<noteq> None \<or>
     reasoning_tokens u \<noteq> None \<or> media_units u \<noteq> None \<or> cost_micro_usd u \<noteq> None \<or> reported_cost_usd u \<noteq> None"

definition SpendReceiptRef_MAX_BYTES :: nat where
  "SpendReceiptRef_MAX_BYTES = 256"

definition SpendReceiptRef_new :: "string \<Rightarrow> ModelError + string" where
  "SpendReceiptRef_new v =
     (if SpendReceiptRef_MAX_BYTES < length v then Inl (M_InvalidRequest SpendReceiptRefTooLong) else Inr v)"

text \<open>Decimal digits of an unsigned integer, as \<^verbatim>\<open>format!\<close> prints it.\<close>

fun decimal :: "nat \<Rightarrow> string" where
  "decimal n = (if n < 10 then [] else decimal (n div 10)) @ [char_of (48 + n mod 10)]"

declare decimal.simps [simp del]

definition runtime_reference :: "string \<Rightarrow> nat \<Rightarrow> ModelError + string" where
  "runtime_reference item_id attempt = SpendReceiptRef_new (''runtime:'' @ item_id @ '':'' @ decimal attempt)"

datatype SpendState = S_Unknown | S_Released | S_Settled

record SpendReservation =
  rv_reference :: string
  rv_account :: string
  rv_invocation :: string
  rv_binding :: string
  rv_request_limit :: "nat option"

record AcceptedSpendHandoff =
  ho_reservation :: SpendReservation
  ho_input_identity :: string

record SpendReceipt =
  rc_reservation :: SpendReservation
  rc_state :: SpendState
  rc_pre_dispatch_released :: bool
  rc_usage :: "UsageTrace option"
  rc_output :: "json_value option"
  rc_attempt_limit :: "nat option"
  rc_attempts_used :: nat
  rc_recovery :: "json_value option"

definition spend_storage :: ModelError where
  "spend_storage = M_Queue SpendLedgerUnavailable"

definition reconciliation :: ModelError where
  "reconciliation = M_Queue SpendReconciliationRequired"

section \<open>Facts\<close>

lemma primary_idem [simp]: "primary (primary e) = primary e"
  by (induction e) simp_all

lemma with_diagnostics_keeps:
  "primary (with_diagnostics e ds) = primary e \<and> model_error_code (with_diagnostics e ds) = model_error_code e \<and>
   http_details (with_diagnostics e ds) = http_details e \<and> failure_charge (with_diagnostics e ds) = failure_charge e \<and>
   diagnostics_of (with_diagnostics e ds) = diagnostics_of e @ ds"
  by (cases e) (simp_all add: with_diagnostics_def)

lemma decimal_digits: "c \<in> set (decimal n) \<Longrightarrow> of_char c \<in> {48..57 :: nat}"
proof (induction n rule: decimal.induct)
  case (1 n)
  have "of_char (char_of (48 + n mod 10) :: char) = 48 + n mod 10" by (simp add: of_char_of)
  with 1 show ?case by (subst (asm) decimal.simps) (auto split: if_splits)
qed

lemma decimal_inj: "decimal m = decimal n \<longleftrightarrow> m = n"
proof
  show "decimal m = decimal n \<Longrightarrow> m = n"
  proof (induction m arbitrary: n rule: decimal.induct)
    case (1 m)
    have e: "(if m < 10 then [] else decimal (m div 10)) = (if n < 10 then [] else decimal (n div 10))"
      and l: "char_of (48 + m mod 10) = (char_of (48 + n mod 10) :: char)"
      using 1(2) by (simp_all add: decimal.simps [of m] decimal.simps [of n])
    from l have "of_char (char_of (48 + m mod 10) :: char) = (of_char (char_of (48 + n mod 10) :: char) :: nat)" by simp
    then have md: "m mod 10 = n mod 10" by (simp add: of_char_of)
    have ne: "decimal k \<noteq> []" for k by (subst decimal.simps) simp
    have "m div 10 = n div 10"
    proof (cases "m < 10")
      case True
      then have "n < 10" using e ne [of "n div 10"] by (auto split: if_splits)
      with True show ?thesis by simp
    next
      case False
      then have "\<not> n < 10" using e ne [of "m div 10"] by auto
      with False e 1(1) show ?thesis by simp
    qed
    with md show "m = n" by (metis mult_div_mod_eq)
  qed
qed simp

text \<open>
  A runtime reference determines the item and the attempt: the digits after the last colon are
  the attempt.
\<close>

lemma last_colon_split:
  assumes "a @ '':'' @ x = b @ '':'' @ y" and "CHR '':'' \<notin> set x" and "CHR '':'' \<notin> set y"
  shows "a = b \<and> x = y"
proof -
  have "rev x @ '':'' @ rev a = rev y @ '':'' @ rev b"
    using arg_cong [OF assms(1), of rev] by simp
  moreover have "takeWhile (\<lambda>c. c \<noteq> CHR '':'') (rev z @ '':'' @ w) = rev z" if "CHR '':'' \<notin> set z" for z w
    using that by (subst takeWhile_append2) auto
  ultimately have "rev x = rev y" using assms(2,3) by metis
  with assms(1) show ?thesis by simp
qed

end
