(* ===== verification/Portability.thy ===== *)
theory Portability
  imports Spend_Types
begin

text \<open>
  Crate \<^verbatim>\<open>symbiotic-portability\<close>: the wire values (\<^verbatim>\<open>model.rs\<close>) and their validation
  (\<^verbatim>\<open>validate.rs\<close>).

  Every \<^verbatim>\<open>Result<(), Error>\<close> is \<open>PortError + unit\<close> with the source's order of checks. Parameters
  stand for code outside the repository: \<open>parse_time\<close> is \<^verbatim>\<open>chrono\<close>'s RFC 3339 parser, \<open>typed\<close> the derived
  decoder of a wire value, \<open>hash_hex\<close> the hexadecimal SHA-256 of the concatenated updates, \<open>read\<close>
  a byte source and \<open>symlink\<close>/\<open>opened\<close> the file system. The JSON reader is the record
  \<open>json_reader\<close>: what a streaming pass sees of the root object, and the tree of a whole text, duplicate
  fields included.
\<close>

section \<open>Limits and errors\<close>

record Limits =
  max_input_bytes :: nat
  max_records :: nat
  max_artifacts :: nat
  max_artifact_bytes :: nat
  max_table_cells :: nat

definition Limits_default :: Limits where
  "Limits_default = \<lparr>max_input_bytes = 8 * 1024 * 1024, max_records = 10000, max_artifacts = 10000,
     max_artifact_bytes = 64 * 1024 * 1024, max_table_cells = 100000\<rparr>"

datatype PortError =
  UnsupportedVersion | InvalidValue | DuplicateIdentity | ScopeMismatch | ArtifactMismatch | ArtifactUnavailable | LimitExceeded

section \<open>Wire values\<close>

datatype Sensitivity = Public | Shareable | Private | Restricted

fun sensitivity_rank :: "Sensitivity \<Rightarrow> nat" where
  "sensitivity_rank Public = 0" | "sensitivity_rank Shareable = 1"
| "sensitivity_rank Private = 2" | "sensitivity_rank Restricted = 3"

instantiation Sensitivity :: linorder
begin

definition less_eq_Sensitivity :: "Sensitivity \<Rightarrow> Sensitivity \<Rightarrow> bool" where
  "less_eq_Sensitivity a b \<longleftrightarrow> sensitivity_rank a \<le> sensitivity_rank b"

definition less_Sensitivity :: "Sensitivity \<Rightarrow> Sensitivity \<Rightarrow> bool" where
  "less_Sensitivity a b \<longleftrightarrow> sensitivity_rank a < sensitivity_rank b"

instance
proof
  fix a b :: Sensitivity
  show "a \<le> b \<Longrightarrow> b \<le> a \<Longrightarrow> a = b" by (cases a; cases b) (simp_all add: less_eq_Sensitivity_def)
qed (auto simp: less_eq_Sensitivity_def less_Sensitivity_def)

end

record Scope =
  s_space :: string
  s_audience :: "string list"
  s_sensitivity :: Sensitivity

record RecordKey =
  k_application :: string
  k_space :: string
  k_record_type :: string
  k_record_id :: string

record EvidenceRef =
  e_application :: string
  e_space :: string
  e_record_type :: string
  e_record_id :: string
  e_revision :: "string option"

record Provenance =
  pv_producer :: string
  pv_producer_record_id :: "string option"
  pv_captured_at :: "string option"
  pv_locator :: "string option"
  pv_derived_from :: "EvidenceRef list"
  pv_supersedes :: "EvidenceRef option"

datatype Authority = ApplicationRecord | SourceRecord | DerivedClaim

datatype ArtifactRole = CapturedOriginal | ApplicationSerialization | Attachment | Derivative

record Binding =
  b_binding_id :: string
  b_artifact_id :: string
  b_role :: ArtifactRole
  b_scope :: Scope
  b_asserted_media_type :: string
  b_display_filename :: "string option"
  b_provenance :: Provenance

datatype ArtifactTarget =
  BundleFile string | External string "string option" | UnavailableTarget string

datatype Preservation = IncludedVerified | ExternalVerified | ReferenceOnly | PreservationUnavailable

record Artifact =
  a_artifact_id :: string
  a_sha256 :: "string option"
  a_byte_length :: "nat option"
  a_target :: ArtifactTarget
  a_preservation :: Preservation

record PortableRecord =
  r_application :: string
  r_space :: string
  r_record_type :: string
  r_record_id :: string
  r_record_schema_version :: nat
  r_authority :: Authority
  r_revision :: "string option"
  r_scope :: Scope
  r_payload :: "(string \<times> json_value) list"
  r_provenance :: Provenance
  r_artifact_bindings :: "Binding list"

definition record_key :: "PortableRecord \<Rightarrow> RecordKey" where
  "record_key r = \<lparr>k_application = r_application r, k_space = r_space r, k_record_type = r_record_type r, k_record_id = r_record_id r\<rparr>"

datatype Format = F_Json | F_Markdown | F_Csv | F_Docx | F_Xlsx | F_Pdf | F_Original
datatype ExportMode = ExportTyped | ExportPresentation | ExportExactBytes | ExportNone
datatype ImportMode = ImportTyped | ImportMapped | ImportExtract | ImportPreserveOnly | ImportNone
datatype EditMode = EditPreview | EditApply | EditNone

record Capability =
  c_format :: Format
  c_profile :: string
  c_export :: ExportMode
  c_import :: ImportMode
  c_edit :: EditMode
  c_editable_fields :: "string list"
  c_losses :: "string list"

record Producer =
  p_application :: string
  p_version :: string

datatype EnumerationKind = Selection | LiveTraversal | Snapshot

record Enumeration =
  en_kind :: EnumerationKind
  en_complete :: bool
  en_selection :: string
  en_snapshot_revision :: "string option"
  en_excluded_record_types :: "string list"

record Bundle =
  bu_contract :: string
  bu_profile :: string
  bu_bundle_id :: string
  bu_producer :: Producer
  bu_exported_at :: string
  bu_scope :: Scope
  bu_enumeration :: Enumeration
  bu_capabilities :: "Capability list"
  bu_records :: "PortableRecord list"
  bu_artifacts :: "Artifact list"

datatype Change =
  Create string string string string unit "(string \<times> json_value) list"
| Update string string string string string "(string \<times> json_value) list" "string list"
| Delete string string string string string string

fun change_key :: "Change \<Rightarrow> RecordKey" where
  "change_key (Create app spc ty i _ _) = \<lparr>k_application = app, k_space = spc, k_record_type = ty, k_record_id = i\<rparr>"
| "change_key (Update app spc ty i _ _ _) = \<lparr>k_application = app, k_space = spc, k_record_type = ty, k_record_id = i\<rparr>"
| "change_key (Delete app spc ty i _ _) = \<lparr>k_application = app, k_space = spc, k_record_type = ty, k_record_id = i\<rparr>"

record ChangePlan =
  cp_contract :: string
  cp_profile :: string
  cp_operation_id :: string
  cp_bundle_id :: string
  cp_scope :: Scope
  cp_changes :: "Change list"

section \<open>Checks on the text\<close>

text \<open>A check whose failure is the given error.\<close>

definition require :: "PortError \<Rightarrow> bool \<Rightarrow> PortError + unit" where
  "require e b = (if b then Inr () else Inl e)"

text \<open>No object of the tree has a field twice.\<close>

fun unique_json :: "json_value \<Rightarrow> bool" where
  "unique_json (JObj kvs) \<longleftrightarrow> distinct (map fst kvs) \<and> (\<forall>v \<in> set (map snd kvs). unique_json v)"
| "unique_json (JArr vs) \<longleftrightarrow> (\<forall>v \<in> set vs. unique_json v)"
| "unique_json _ \<longleftrightarrow> True"

text \<open>
  The streaming pass over the root object. The JSON reader delivers its fields in order, and of each
  value whether it is an array, how many elements can be read from it, and whether its text is sound up
  to its end; the last flag of a view says that the object itself ends properly.
\<close>

datatype root_value = RV_Seq nat bool | RV_Other bool

fun collection_limit :: "nat \<Rightarrow> root_value \<Rightarrow> PortError + unit" where
  "collection_limit n (RV_Seq m sound) = (if n < m then Inl LimitExceeded else require InvalidValue sound)"
| "collection_limit n (RV_Other _) = Inl InvalidValue"

fun ignored_any :: "root_value \<Rightarrow> PortError + unit" where
  "ignored_any (RV_Seq m sound) = require InvalidValue sound"
| "ignored_any (RV_Other sound) = require InvalidValue sound"

fun root_limits :: "Limits \<Rightarrow> (string \<times> root_value) list \<Rightarrow> bool \<Rightarrow> PortError + unit" where
  "root_limits l [] ends = require InvalidValue ends"
| "root_limits l ((k, v) # kvs) ends =
     and_then (if k = ''records'' \<or> k = ''changes'' then collection_limit (max_records l) v
               else if k = ''artifacts'' then collection_limit (max_artifacts l) v
               else ignored_any v) (\<lambda>_.
     root_limits l kvs ends)"

record json_reader =
  read_root :: "bytes \<Rightarrow> ((string \<times> root_value) list \<times> bool) option"
  read_tree :: "bytes \<Rightarrow> json_value option"

definition decode :: "json_reader \<Rightarrow> (json_value \<Rightarrow> 'a option) \<Rightarrow> bytes \<Rightarrow> Limits \<Rightarrow> PortError + 'a" where
  "decode jr typed bs l =
     (if max_input_bytes l < length bs then Inl LimitExceeded
      else case read_root jr bs of
        None \<Rightarrow> Inl InvalidValue
      | Some (root, ends) \<Rightarrow>
          and_then (root_limits l root ends) (\<lambda>_.
          case read_tree jr bs of
            None \<Rightarrow> Inl InvalidValue
          | Some j \<Rightarrow>
              if \<not> unique_json j then Inl InvalidValue
              else case typed j of None \<Rightarrow> Inl InvalidValue | Some x \<Rightarrow> Inr x))"

section \<open>Checks on values\<close>

definition nonempty :: "string \<Rightarrow> PortError + unit" where
  "nonempty v = (if blank v \<or> CHR 0x00 \<in> set v then Inl InvalidValue else Inr ())"

text \<open>A \<^verbatim>\<open>for\<close> loop whose body only checks.\<close>

fun for_all :: "('a \<Rightarrow> PortError + unit) \<Rightarrow> 'a list \<Rightarrow> PortError + unit" where
  "for_all f [] = Inr ()"
| "for_all f (x # xs) = and_then (f x) (\<lambda>_. for_all f xs)"

fun unique_from :: "string set \<Rightarrow> string list \<Rightarrow> PortError + unit" where
  "unique_from found [] = Inr ()"
| "unique_from found (v # vs) =
     and_then (nonempty v) (\<lambda>_. if v \<in> found then Inl DuplicateIdentity else unique_from (insert v found) vs)"

definition unique :: "string list \<Rightarrow> PortError + unit" where
  "unique vs = unique_from {} vs"

definition scope_ok :: "Scope \<Rightarrow> PortError + unit" where
  "scope_ok s = and_then (nonempty (s_space s)) (\<lambda>_. unique (s_audience s))"

definition validate_scope :: "Scope \<Rightarrow> Scope \<Rightarrow> PortError + unit" where
  "validate_scope child parent =
     and_then (scope_ok child) (\<lambda>_. and_then (scope_ok parent) (\<lambda>_.
     if s_space child \<noteq> s_space parent \<or> s_sensitivity child < s_sensitivity parent \<or>
        list_ex (\<lambda>v. v \<notin> set (s_audience parent)) (s_audience child)
     then Inl ScopeMismatch else Inr ()))"

definition validate_destination :: "Bundle \<Rightarrow> string \<Rightarrow> Scope \<Rightarrow> PortError + unit" where
  "validate_destination b application allowed =
     and_then (nonempty application) (\<lambda>_. and_then (validate_scope (bu_scope b) allowed) (\<lambda>_.
     if list_ex (\<lambda>r. r_application r \<noteq> application) (bu_records b) then Inl ScopeMismatch else Inr ()))"

definition validate_plan_destination :: "ChangePlan \<Rightarrow> string \<Rightarrow> Scope \<Rightarrow> PortError + unit" where
  "validate_plan_destination p application allowed =
     and_then (nonempty application) (\<lambda>_. and_then (validate_scope (cp_scope p) allowed) (\<lambda>_.
     if list_ex (\<lambda>c. k_application (change_key c) \<noteq> application) (cp_changes p) then Inl ScopeMismatch else Inr ()))"

definition key_ok :: "RecordKey \<Rightarrow> PortError + unit" where
  "key_ok k = for_all nonempty [k_application k, k_space k, k_record_type k, k_record_id k]"

definition timestamp :: "(string \<Rightarrow> bool) \<Rightarrow> string \<Rightarrow> PortError + unit" where
  "timestamp parse_time v = (if parse_time v then Inr () else Inl InvalidValue)"

definition some_ok :: "('a \<Rightarrow> PortError + unit) \<Rightarrow> 'a option \<Rightarrow> PortError + unit" where
  "some_ok f v = (case v of None \<Rightarrow> Inr () | Some x \<Rightarrow> f x)"

definition evidence_key :: "EvidenceRef \<Rightarrow> RecordKey" where
  "evidence_key e =
     \<lparr>k_application = e_application e, k_space = e_space e, k_record_type = e_record_type e, k_record_id = e_record_id e\<rparr>"

definition provenance :: "(string \<Rightarrow> bool) \<Rightarrow> Provenance \<Rightarrow> PortError + unit" where
  "provenance pt p =
     and_then (nonempty (pv_producer p)) (\<lambda>_.
     and_then (some_ok (timestamp pt) (pv_captured_at p)) (\<lambda>_.
     and_then (for_all (\<lambda>e. and_then (key_ok (evidence_key e)) (\<lambda>_. some_ok nonempty (e_revision e)))
       (pv_derived_from p @ (case pv_supersedes p of None \<Rightarrow> [] | Some e \<Rightarrow> [e]))) (\<lambda>_.
     if (case pv_supersedes p of None \<Rightarrow> False | Some e \<Rightarrow> e_revision e = None) then Inl InvalidValue else Inr ())))"

section \<open>Artifacts\<close>

text \<open>\<^verbatim>\<open>2^53 - 1\<close>, the largest integer a JSON number holds exactly.\<close>

definition max_safe_integer :: nat where
  "max_safe_integer = 9007199254740991"

definition is_ascii_digit :: "char \<Rightarrow> bool" where
  "is_ascii_digit c \<longleftrightarrow> of_char c \<in> {48..57 :: nat}"

definition is_ascii_alphanumeric :: "char \<Rightarrow> bool" where
  "is_ascii_alphanumeric c \<longleftrightarrow> is_ascii_digit c \<or> of_char c \<in> {65..90 :: nat} \<or> of_char c \<in> {97..122 :: nat}"

text \<open>\<^verbatim>\<open>str::contains\<close> of a text.\<close>

fun contains_str :: "string \<Rightarrow> string \<Rightarrow> bool" where
  "contains_str pat [] \<longleftrightarrow> pat = []"
| "contains_str pat (c # cs) \<longleftrightarrow> take (length pat) (c # cs) = pat \<or> contains_str pat cs"

definition external_id :: "string \<Rightarrow> PortError + unit" where
  "external_id v =
     and_then (nonempty v) (\<lambda>_.
     if contains_str ''://'' v \<or> \<not> list_all (\<lambda>c. is_ascii_alphanumeric c \<or> c \<in> set ''._:/-'') v
     then Inl InvalidValue else Inr ())"

text \<open>\<^verbatim>\<open>str::split\<close> at a character: a text without it is one piece, the empty text one empty piece.\<close>

fun split_on :: "char \<Rightarrow> string \<Rightarrow> string list" where
  "split_on d [] = [[]]"
| "split_on d (c # cs) =
     (if c = d then [] # split_on d cs
      else case split_on d cs of [] \<Rightarrow> [[c]] | p # ps \<Rightarrow> (c # p) # ps)"

definition validate_path :: "string \<Rightarrow> PortError + unit" where
  "validate_path path =
     and_then (nonempty path) (\<lambda>_.
     if take 1 path = ''/'' \<or> CHR 0x5C \<in> set path \<or> CHR '':'' \<in> set path \<or>
        list_ex (\<lambda>v. v = [] \<or> v = ''.'' \<or> v = ''..'') (split_on (CHR ''/'') path)
     then Inl InvalidValue else Inr ())"

definition validate_artifact :: "Artifact \<Rightarrow> Limits \<Rightarrow> PortError + unit" where
  "validate_artifact a l =
     (if (case a_sha256 a of None \<Rightarrow> False | Some s \<Rightarrow> length s \<noteq> 64 \<or>
            \<not> list_all (\<lambda>c. is_ascii_digit c \<or> of_char c \<in> {97..102 :: nat}) s) then Inl InvalidValue
      else if (case a_byte_length a of None \<Rightarrow> False | Some n \<Rightarrow> max_safe_integer < n) then Inl InvalidValue
      else if (case a_byte_length a of None \<Rightarrow> False | Some n \<Rightarrow> max_artifact_bytes l < n) then Inl LimitExceeded
      else
        let exact = (a_sha256 a \<noteq> None \<and> a_byte_length a \<noteq> None) in
        if (a_sha256 a \<noteq> None) \<noteq> (a_byte_length a \<noteq> None) then Inl InvalidValue
        else case (a_target a, a_preservation a) of
          (BundleFile path, IncludedVerified) \<Rightarrow> if exact then validate_path path else Inl InvalidValue
        | (External rid (Some v), ExternalVerified) \<Rightarrow>
            if exact then and_then (external_id rid) (\<lambda>_. external_id v) else Inl InvalidValue
        | (External rid v, ReferenceOnly) \<Rightarrow> and_then (external_id rid) (\<lambda>_. some_ok external_id v)
        | (UnavailableTarget reason, PreservationUnavailable) \<Rightarrow> nonempty reason
        | _ \<Rightarrow> Inl InvalidValue)"

section \<open>Bundles and change plans\<close>

text \<open>The three loops of \<^verbatim>\<open>validate_bundle\<close>, with the sets they fill.\<close>

fun artifacts_loop :: "Limits \<Rightarrow> string set \<Rightarrow> string set \<Rightarrow> Artifact list \<Rightarrow> PortError + string set" where
  "artifacts_loop l arts paths [] = Inr arts"
| "artifacts_loop l arts paths (a # as) =
     and_then (nonempty (a_artifact_id a)) (\<lambda>_.
     if a_artifact_id a \<in> arts then Inl DuplicateIdentity
     else and_then (validate_artifact a l) (\<lambda>_.
       case a_target a of
         BundleFile path \<Rightarrow>
           if path \<in> paths then Inl DuplicateIdentity
           else artifacts_loop l (insert (a_artifact_id a) arts) (insert path paths) as
       | _ \<Rightarrow> artifacts_loop l (insert (a_artifact_id a) arts) paths as))"

fun bindings_loop ::
  "(string \<Rightarrow> bool) \<Rightarrow> string set \<Rightarrow> Scope \<Rightarrow> string set \<Rightarrow> Binding list \<Rightarrow> PortError + string set" where
  "bindings_loop pt arts rscope found [] = Inr found"
| "bindings_loop pt arts rscope found (b # bs) =
     and_then (nonempty (b_binding_id b)) (\<lambda>_. and_then (nonempty (b_asserted_media_type b)) (\<lambda>_.
     if b_binding_id b \<in> found then Inl DuplicateIdentity
     else if b_artifact_id b \<notin> arts then Inl ArtifactUnavailable
     else and_then (validate_scope (b_scope b) rscope) (\<lambda>_. and_then (provenance pt (b_provenance b)) (\<lambda>_.
       bindings_loop pt arts rscope (insert (b_binding_id b) found) bs))))"

fun records_loop ::
  "(string \<Rightarrow> bool) \<Rightarrow> string set \<Rightarrow> Scope \<Rightarrow> RecordKey set \<Rightarrow> string set \<Rightarrow> PortableRecord list \<Rightarrow> PortError + unit" where
  "records_loop pt arts bscope ids found [] = Inr ()"
| "records_loop pt arts bscope ids found (r # rs) =
     and_then (key_ok (record_key r)) (\<lambda>_.
     if record_key r \<in> ids then Inl DuplicateIdentity
     else if r_space r \<noteq> s_space (r_scope r) then Inl ScopeMismatch
     else and_then (validate_scope (r_scope r) bscope) (\<lambda>_.
       if r_record_schema_version r = 0 \<or> max_safe_integer < r_record_schema_version r then Inl InvalidValue
       else and_then (some_ok nonempty (r_revision r)) (\<lambda>_. and_then (provenance pt (r_provenance r)) (\<lambda>_.
         and_then (bindings_loop pt arts (r_scope r) found (r_artifact_bindings r)) (\<lambda>found'.
         records_loop pt arts bscope (insert (record_key r) ids) found' rs)))))"

definition validate_bundle :: "(string \<Rightarrow> bool) \<Rightarrow> Bundle \<Rightarrow> Limits \<Rightarrow> PortError + unit" where
  "validate_bundle pt b l =
     (if bu_contract b \<noteq> ''data-portability/1'' then Inl UnsupportedVersion
      else
        and_then (for_all nonempty [bu_profile b, bu_bundle_id b, p_application (bu_producer b), p_version (bu_producer b),
          en_selection (bu_enumeration b)]) (\<lambda>_.
        and_then (scope_ok (bu_scope b)) (\<lambda>_. and_then (timestamp pt (bu_exported_at b)) (\<lambda>_.
        if max_records l < length (bu_records b) \<or> max_artifacts l < length (bu_artifacts b) then Inl LimitExceeded
        else if (en_kind (bu_enumeration b) = Snapshot) \<noteq> (en_snapshot_revision (bu_enumeration b) \<noteq> None) then Inl InvalidValue
        else
          and_then (some_ok nonempty (en_snapshot_revision (bu_enumeration b))) (\<lambda>_.
          and_then (unique (en_excluded_record_types (bu_enumeration b))) (\<lambda>_.
          and_then (artifacts_loop l {} {} (bu_artifacts b)) (\<lambda>arts.
          and_then (records_loop pt arts (bu_scope b) {} {} (bu_records b)) (\<lambda>_.
          for_all (\<lambda>c. and_then (nonempty (c_profile c)) (\<lambda>_. unique (c_editable_fields c))) (bu_capabilities b)))))))))"

definition decode_bundle ::
  "json_reader \<Rightarrow> (json_value \<Rightarrow> Bundle option) \<Rightarrow> (string \<Rightarrow> bool) \<Rightarrow> bytes \<Rightarrow> Limits \<Rightarrow> PortError + Bundle" where
  "decode_bundle jr typed pt bs l =
     and_then (decode jr typed bs l) (\<lambda>b. and_then (validate_bundle pt b l) (\<lambda>_. Inr b))"

fun change_ok :: "Change \<Rightarrow> PortError + unit" where
  "change_ok (Update app spc ty i base st clear) =
     and_then (nonempty base) (\<lambda>_. and_then (unique clear) (\<lambda>_.
     if list_ex (\<lambda>f. f \<in> set (map fst st)) clear then Inl InvalidValue else Inr ()))"
| "change_ok (Delete app spc ty i base reason) = and_then (nonempty base) (\<lambda>_. nonempty reason)"
| "change_ok (Create app spc ty i u v) = Inr ()"

fun changes_loop :: "string \<Rightarrow> RecordKey set \<Rightarrow> Change list \<Rightarrow> PortError + unit" where
  "changes_loop space seen [] = Inr ()"
| "changes_loop space seen (c # cs) =
     and_then (key_ok (change_key c)) (\<lambda>_.
     if k_space (change_key c) \<noteq> space then Inl ScopeMismatch
     else if change_key c \<in> seen then Inl DuplicateIdentity
     else and_then (change_ok c) (\<lambda>_. changes_loop space (insert (change_key c) seen) cs))"

definition decode_change_plan ::
  "json_reader \<Rightarrow> (json_value \<Rightarrow> ChangePlan option) \<Rightarrow> bytes \<Rightarrow> Limits \<Rightarrow> PortError + ChangePlan" where
  "decode_change_plan jr typed bs l =
     and_then (decode jr typed bs l) (\<lambda>p.
     if cp_contract p \<noteq> ''data-portability/1'' then Inl UnsupportedVersion
     else
       and_then (for_all nonempty [cp_profile p, cp_bundle_id p, cp_operation_id p]) (\<lambda>_.
       and_then (scope_ok (cp_scope p)) (\<lambda>_.
       if max_records l < length (cp_changes p) then Inl LimitExceeded
       else and_then (changes_loop (s_space (cp_scope p)) {} (cp_changes p)) (\<lambda>_. Inr p))))"

section \<open>Bytes of an artifact\<close>

text \<open>
  The read loop. \<open>read s n\<close> fills a buffer of \<open>n\<close> bytes: an error, or the bytes and the source after
  them. The reader is limited to \<open>left\<close> more bytes; an exhausted limit reads as the end, and a source
  that returns more than it was asked for trips the assertion of the standard library (\<open>None\<close>).
\<close>

function read_loop :: "('s \<Rightarrow> nat \<Rightarrow> (bytes \<times> 's) option) \<Rightarrow> nat \<Rightarrow> bytes \<Rightarrow> 's \<Rightarrow> (PortError + bytes) option" where
  "read_loop read left acc s =
     (if left = 0 then Some (Inr acc)
      else case read s (min 16384 left) of
        None \<Rightarrow> Some (Inl ArtifactUnavailable)
      | Some (bs, s') \<Rightarrow>
          if min 16384 left < length bs then None
          else if bs = [] then Some (Inr acc)
          else read_loop read (left - length bs) (acc @ bs) s')"
  by pat_completeness auto
termination
  by (relation "measure (\<lambda>(read, left, acc, s). left)") (auto simp: length_greater_0_conv [symmetric] simp del: length_greater_0_conv)

declare read_loop.simps [simp del]

definition verify_artifact_bytes ::
  "(bytes \<Rightarrow> string) \<Rightarrow> ('s \<Rightarrow> nat \<Rightarrow> (bytes \<times> 's) option) \<Rightarrow> 's \<Rightarrow> Artifact \<Rightarrow> Limits \<Rightarrow> (PortError + unit) option" where
  "verify_artifact_bytes hash_hex read s a l =
     (case validate_artifact a l of
        Inl e \<Rightarrow> Some (Inl e)
      | Inr _ \<Rightarrow>
          (case (a_sha256 a, a_byte_length a) of
             (Some expected, Some declared) \<Rightarrow>
               (case read_loop read (min (declared + 1) u64_max) [] s of
                  None \<Rightarrow> None
                | Some (Inl e) \<Rightarrow> Some (Inl e)
                | Some (Inr bs) \<Rightarrow>
                    Some (if length bs \<noteq> declared \<or> hash_hex bs \<noteq> expected then Inl ArtifactMismatch else Inr ()))
           | _ \<Rightarrow> Some (Inl ArtifactUnavailable)))"

text \<open>
  \<^verbatim>\<open>Path::components\<close> on Unix: a leading slash is the root, empty pieces and inner dots vanish, a
  leading dot and every double dot stay.
\<close>

datatype Component = RootDir | CurDir | ParentDir | Normal string

definition inner_component :: "string \<Rightarrow> Component list" where
  "inner_component v = (if v = [] \<or> v = ''.'' then [] else if v = ''..'' then [ParentDir] else [Normal v])"

definition components :: "string \<Rightarrow> Component list" where
  "components path =
     (case split_on (CHR ''/'') path of
        [] \<Rightarrow> []
      | v # vs \<Rightarrow>
          (if v = [] \<and> vs \<noteq> [] then [RootDir] else if v = ''.'' then [CurDir] else inner_component v) @
          concat (map inner_component vs))"

text \<open>The walk below the root. \<open>symlink p\<close> is the link test of the path \<open>p\<close> (root first).\<close>

fun walk :: "('p \<Rightarrow> bool option) \<Rightarrow> ('p \<Rightarrow> string \<Rightarrow> 'p) \<Rightarrow> 'p \<Rightarrow> Component list \<Rightarrow> PortError + 'p" where
  "walk symlink push cur [] = Inr cur"
| "walk symlink push cur (Normal c # cs) =
     (case symlink (push cur c) of
        Some False \<Rightarrow> walk symlink push (push cur c) cs
      | _ \<Rightarrow> Inl ArtifactUnavailable)"
| "walk symlink push cur (_ # cs) = Inl InvalidValue"

definition verify_bundle_file ::
  "(bytes \<Rightarrow> string) \<Rightarrow> ('s \<Rightarrow> nat \<Rightarrow> (bytes \<times> 's) option) \<Rightarrow> ('p \<Rightarrow> bool option) \<Rightarrow> ('p \<Rightarrow> string \<Rightarrow> 'p)
    \<Rightarrow> ('p \<Rightarrow> (bool option \<times> 's) option) \<Rightarrow> 'p \<Rightarrow> Artifact \<Rightarrow> Limits \<Rightarrow> (PortError + unit) option" where
  "verify_bundle_file hash_hex read symlink push opened root a l =
     (case validate_artifact a l of
        Inl e \<Rightarrow> Some (Inl e)
      | Inr _ \<Rightarrow>
          (case a_target a of
             BundleFile path \<Rightarrow>
               if symlink root \<noteq> Some False then Some (Inl ArtifactUnavailable)
               else (case walk symlink push root (components path) of
                   Inl e \<Rightarrow> Some (Inl e)
                 | Inr cur \<Rightarrow>
                     (case opened cur of
                        Some (Some True, s) \<Rightarrow> verify_artifact_bytes hash_hex read s a l
                      | _ \<Rightarrow> Some (Inl ArtifactUnavailable)))
           | _ \<Rightarrow> Some (Inl ArtifactUnavailable)))"

end
