(* ===== verification/Portable_Table.thy ===== *)
theory Portable_Table
  imports Portability
begin

text \<open>
  Crate \<^verbatim>\<open>symbiotic-portability\<close>, file \<^verbatim>\<open>table.rs\<close>: tables of texts, read from CSV and presented as
  CSV or Markdown. The CSV crate is a parameter: \<open>csv_read\<close> gives the headers and the records of a
  text, each of them possibly an error, and \<open>csv_write\<close> the bytes of a list of records.
\<close>

section \<open>Texts\<close>

text \<open>\<^verbatim>\<open>str::trim_start\<close>: drops the leading white space characters.\<close>

fun trim_start_bytes :: "nat list \<Rightarrow> nat list" where
  "trim_start_bytes [] = []"
| "trim_start_bytes (a # xs) =
     (if 9 \<le> a \<and> a \<le> 13 \<or> a = 32 then trim_start_bytes xs
      else case xs of
        [] \<Rightarrow> a # xs
      | b # ys \<Rightarrow>
          if a = 194 \<and> (b = 133 \<or> b = 160) then trim_start_bytes ys
          else case ys of
            [] \<Rightarrow> a # xs
          | c # zs \<Rightarrow> if ws3 a b c then trim_start_bytes zs else a # xs)"

definition trim_start :: "string \<Rightarrow> nat list" where
  "trim_start s = trim_start_bytes (map of_char s)"

text \<open>\<^verbatim>\<open>str::from_utf8\<close> accepts exactly these byte sequences.\<close>

definition cont_byte :: "nat \<Rightarrow> bool" where
  "cont_byte b \<longleftrightarrow> 128 \<le> b \<and> b \<le> 191"

fun utf8 :: "nat list \<Rightarrow> bool" where
  "utf8 [] = True"
| "utf8 (a # xs) =
     (if a \<le> 127 then utf8 xs
      else case xs of
        [] \<Rightarrow> False
      | b # ys \<Rightarrow>
          if 194 \<le> a \<and> a \<le> 223 then cont_byte b \<and> utf8 ys
          else case ys of
            [] \<Rightarrow> False
          | c # zs \<Rightarrow>
              if a = 224 \<or> 225 \<le> a \<and> a \<le> 239 then
                (if a = 224 then 160 \<le> b \<and> b \<le> 191 else if a = 237 then 128 \<le> b \<and> b \<le> 159 else cont_byte b) \<and>
                cont_byte c \<and> utf8 zs
              else case zs of
                [] \<Rightarrow> False
              | d # ws \<Rightarrow>
                  (a = 240 \<and> 144 \<le> b \<and> b \<le> 191 \<or> 241 \<le> a \<and> a \<le> 243 \<and> cont_byte b \<or> a = 244 \<and> 128 \<le> b \<and> b \<le> 143) \<and>
                  cont_byte c \<and> cont_byte d \<and> utf8 ws)"

section \<open>Tables\<close>

record Table =
  t_columns :: "string list"
  t_rows :: "string list list"

record Presentation =
  pr_bytes :: bytes
  pr_losses :: "string list"

definition saturating_mul :: "nat \<Rightarrow> nat \<Rightarrow> nat" where
  "saturating_mul a b = min (a * b) u64_max"

definition validate_table :: "Table \<Rightarrow> Limits \<Rightarrow> PortError + unit" where
  "validate_table t l =
     (if t_columns t = [] \<or> list_ex blank (t_columns t) then Inl InvalidValue
      else if length (remdups (t_columns t)) \<noteq> length (t_columns t) then Inl DuplicateIdentity
      else if max_table_cells l < saturating_mul (length (t_columns t)) (min (length (t_rows t) + 1) u64_max) then Inl LimitExceeded
      else if list_ex (\<lambda>r. length r \<noteq> length (t_columns t)) (t_rows t) then Inl InvalidValue
      else if max_input_bytes l < sum_list (map length (t_columns t @ concat (t_rows t))) then Inl LimitExceeded
      else Inr ())"

text \<open>The loop over the records of a CSV reader.\<close>

fun csv_rows :: "nat \<Rightarrow> nat \<Rightarrow> string list list \<Rightarrow> string list option list \<Rightarrow> PortError + string list list" where
  "csv_rows width cells rows [] = Inr rows"
| "csv_rows width cells rows (r # rs) =
     (case r of
        None \<Rightarrow> Inl InvalidValue
      | Some row \<Rightarrow>
          let rows' = rows @ [row] in
          if cells < saturating_mul width (length rows' + 1) then Inl LimitExceeded else csv_rows width cells rows' rs)"

definition parse_csv ::
  "(bytes \<Rightarrow> string list option \<times> string list option list) \<Rightarrow> bytes \<Rightarrow> Limits \<Rightarrow> PortError + Table" where
  "parse_csv csv_read bs l =
     (if max_input_bytes l < length bs then Inl LimitExceeded
      else if \<not> utf8 (map unat bs) then Inl InvalidValue
      else case csv_read bs of
        (None, _) \<Rightarrow> Inl InvalidValue
      | (Some columns, records) \<Rightarrow>
          and_then (csv_rows (length columns) (max_table_cells l) [] records) (\<lambda>rows.
          let t = \<lparr>t_columns = columns, t_rows = rows\<rparr> in
          and_then (validate_table t l) (\<lambda>_. Inr t)))"

section \<open>Spreadsheet presentation\<close>

definition spreadsheet_text :: "string \<Rightarrow> string" where
  "spreadsheet_text v =
     (if (case trim_start v of [] \<Rightarrow> False | c # _ \<Rightarrow> c \<in> {61, 43, 45, 64}) \<or>
         (case v of [] \<Rightarrow> False | c # _ \<Rightarrow> c \<in> {CHR 0x09, CHR 0x0D, CHR 0x0A})
      then CHR 0x27 # v else v)"

definition formula_loss :: string where
  "formula_loss = ''Formula-like cells were prefixed with an apostrophe for spreadsheet presentation.''"

definition render_csv :: "(string list list \<Rightarrow> bytes option) \<Rightarrow> Table \<Rightarrow> Limits \<Rightarrow> PortError + Presentation" where
  "render_csv csv_write t l =
     and_then (validate_table t l) (\<lambda>_.
     let rows = t_columns t # t_rows t;
         safe = map (map spreadsheet_text) rows;
         changed = list_ex (list_ex (\<lambda>v. spreadsheet_text v \<noteq> v)) rows in
     case csv_write safe of
       None \<Rightarrow> Inl InvalidValue
     | Some bs \<Rightarrow>
         if max_input_bytes l < length bs then Inl LimitExceeded
         else Inr \<lparr>pr_bytes = bs, pr_losses = (if changed then [formula_loss] else [])\<rparr>)"

section \<open>Markdown presentation\<close>

text \<open>\<^verbatim>\<open>str::replace\<close> of a character by a text.\<close>

definition replace_char :: "char \<Rightarrow> string \<Rightarrow> string \<Rightarrow> string" where
  "replace_char c by v = concat (map (\<lambda>x. if x = c then by else [x]) v)"

definition md_escape :: "string \<Rightarrow> string" where
  "md_escape v =
     fold (\<lambda>(c, by) s. replace_char c by s)
       [(CHR ''&'', ''&amp;''), (CHR ''<'', ''&lt;''), (CHR ''>'', ''&gt;''), (CHR 0x5C, [CHR 0x5C, CHR 0x5C]),
        (CHR ''|'', [CHR 0x5C, CHR ''|'']), (CHR ''*'', [CHR 0x5C, CHR ''*'']), (CHR ''_'', [CHR 0x5C, CHR ''_'']),
        (CHR 0x60, [CHR 0x5C, CHR 0x60]), (CHR ''['', [CHR 0x5C, CHR ''['']), (CHR '']'', [CHR 0x5C, CHR '']'']),
        (CHR 0x0D, []), (CHR 0x0A, ''<br>'')] v"

fun join :: "string \<Rightarrow> string list \<Rightarrow> string" where
  "join sep [] = []"
| "join sep [v] = v"
| "join sep (v # vs) = v @ sep @ join sep vs"

definition md_row :: "string list \<Rightarrow> string" where
  "md_row vs = ''| '' @ join '' | '' (map md_escape vs) @ '' |'' @ [CHR 0x0A]"

definition markdown_loss :: string where
  "markdown_loss = ''Markdown table presentation carries string cells only; newlines and markup are escaped.''"

definition md_text :: "Table \<Rightarrow> string" where
  "md_text t =
     md_row (t_columns t) @ md_row (replicate (length (t_columns t)) ''---'') @ concat (map md_row (t_rows t))"

definition render_markdown :: "Table \<Rightarrow> Limits \<Rightarrow> PortError + Presentation" where
  "render_markdown t l =
     and_then (validate_table t l) (\<lambda>_.
     if max_input_bytes l < length (md_text t) then Inl LimitExceeded
     else Inr \<lparr>pr_bytes = map of_char (md_text t), pr_losses = [markdown_loss]\<rparr>)"

end
