(* ===== verification/Portability_Props.thy ===== *)
theory Portability_Props
  imports Portable_Table
begin

text \<open>
  What the validation of the interchange format guarantees: an accepted bundle has unique identities
  and resolved attachments, and every scope in it lies within the destination; an accepted bundle
  file is exactly the declared bytes at a place below the root that no link redirects; presentations
  are inert.
\<close>

section \<open>Checks\<close>

lemma for_all_iff: "for_all f xs = Inr () \<longleftrightarrow> (\<forall>x \<in> set xs. f x = Inr ())"
  by (induction xs) (auto simp: and_then_Inr)

lemma unique_from_iff:
  "unique_from found vs = Inr () \<longleftrightarrow> distinct vs \<and> set vs \<inter> found = {} \<and> (\<forall>v \<in> set vs. nonempty v = Inr ())"
  by (induction vs arbitrary: found) (auto simp: and_then_Inr)

lemma unique_iff: "unique vs = Inr () \<longleftrightarrow> distinct vs \<and> (\<forall>v \<in> set vs. nonempty v = Inr ())"
  by (simp add: unique_def unique_from_iff)

lemma validate_scope_iff:
  "validate_scope c p = Inr () \<longleftrightarrow> scope_ok c = Inr () \<and> scope_ok p = Inr () \<and> s_space c = s_space p \<and>
     s_sensitivity p \<le> s_sensitivity c \<and> set (s_audience c) \<subseteq> set (s_audience p)"
  by (auto simp: validate_scope_def and_then_Inr list_ex_iff not_less)

lemma validate_scope_trans:
  "validate_scope a b = Inr () \<Longrightarrow> validate_scope b c = Inr () \<Longrightarrow> validate_scope a c = Inr ()"
  by (auto simp: validate_scope_iff)

section \<open>Bundles\<close>

definition bundle_paths :: "Artifact list \<Rightarrow> string list" where
  "bundle_paths as = concat (map (\<lambda>a. case a_target a of BundleFile p \<Rightarrow> [p] | _ \<Rightarrow> []) as)"

lemma artifacts_loop_ok:
  "artifacts_loop l arts paths as = Inr arts' \<Longrightarrow>
     arts' = arts \<union> a_artifact_id ` set as \<and> distinct (map a_artifact_id as) \<and> arts \<inter> a_artifact_id ` set as = {} \<and>
     distinct (bundle_paths as) \<and> paths \<inter> set (bundle_paths as) = {} \<and> (\<forall>a \<in> set as. validate_artifact a l = Inr ())"
proof (induction as arbitrary: arts paths)
  case (Cons a as)
  have v: "validate_artifact a l = Inr ()" and n: "a_artifact_id a \<notin> arts"
    using Cons.prems by (auto simp: and_then_Inr split: if_splits)
  show ?case
  proof (cases "a_target a")
    case (BundleFile path)
    then have p: "path \<notin> paths" and r: "artifacts_loop l (insert (a_artifact_id a) arts) (insert path paths) as = Inr arts'"
      using Cons.prems by (auto simp: and_then_Inr split: if_splits)
    show ?thesis using Cons.IH [OF r] v n p BundleFile by (auto simp: bundle_paths_def)
  next
    case (External x y)
    then have r: "artifacts_loop l (insert (a_artifact_id a) arts) paths as = Inr arts'"
      using Cons.prems by (auto simp: and_then_Inr split: if_splits)
    show ?thesis using Cons.IH [OF r] v n External by (auto simp: bundle_paths_def)
  next
    case (UnavailableTarget x)
    then have r: "artifacts_loop l (insert (a_artifact_id a) arts) paths as = Inr arts'"
      using Cons.prems by (auto simp: and_then_Inr split: if_splits)
    show ?thesis using Cons.IH [OF r] v n UnavailableTarget by (auto simp: bundle_paths_def)
  qed
qed (simp add: bundle_paths_def)

lemma bindings_loop_ok:
  "bindings_loop pt arts sc found bs = Inr found' \<Longrightarrow>
     found' = found \<union> b_binding_id ` set bs \<and> distinct (map b_binding_id bs) \<and> found \<inter> b_binding_id ` set bs = {} \<and>
     (\<forall>b \<in> set bs. b_artifact_id b \<in> arts \<and> validate_scope (b_scope b) sc = Inr ())"
proof (induction bs arbitrary: found)
  case (Cons b bs)
  then have r: "bindings_loop pt arts sc (insert (b_binding_id b) found) bs = Inr found'"
    and n: "b_binding_id b \<notin> found" "b_artifact_id b \<in> arts" "validate_scope (b_scope b) sc = Inr ()"
    by (auto simp: and_then_Inr split: if_splits)
  show ?case using Cons.IH [OF r] n by auto
qed simp

definition binding_ids :: "PortableRecord list \<Rightarrow> string list" where
  "binding_ids rs = concat (map (\<lambda>r. map b_binding_id (r_artifact_bindings r)) rs)"

lemma records_loop_ok:
  "records_loop pt arts sc ids found rs = Inr () \<Longrightarrow>
     distinct (map record_key rs) \<and> ids \<inter> record_key ` set rs = {} \<and> distinct (binding_ids rs) \<and>
     found \<inter> set (binding_ids rs) = {} \<and>
     (\<forall>r \<in> set rs. r_space r = s_space (r_scope r) \<and> validate_scope (r_scope r) sc = Inr () \<and>
        (\<forall>b \<in> set (r_artifact_bindings r). b_artifact_id b \<in> arts \<and> validate_scope (b_scope b) (r_scope r) = Inr ()))"
proof (induction rs arbitrary: ids found)
  case (Cons r rs)
  then obtain found' where b: "bindings_loop pt arts (r_scope r) found (r_artifact_bindings r) = Inr found'"
    and rest: "records_loop pt arts sc (insert (record_key r) ids) found' rs = Inr ()"
    and n: "record_key r \<notin> ids" "r_space r = s_space (r_scope r)" "validate_scope (r_scope r) sc = Inr ()"
    by (auto simp: and_then_Inr split: if_splits)
  note B = bindings_loop_ok [OF b] and R = Cons.IH [OF rest]
  have ids: "binding_ids (r # rs) = map b_binding_id (r_artifact_bindings r) @ binding_ids rs" by (simp add: binding_ids_def)
  have "distinct (binding_ids (r # rs)) \<and> found \<inter> set (binding_ids (r # rs)) = {}"
    unfolding ids distinct_append set_append set_map using B R by blast
  moreover have "distinct (map record_key (r # rs)) \<and> ids \<inter> record_key ` set (r # rs) = {}" using R n(1) by auto
  ultimately show ?case using B R n(2,3) by simp
qed (simp add: binding_ids_def)

lemma validate_bundle_ok:
  assumes "validate_bundle pt b l = Inr ()"
  obtains arts where "artifacts_loop l {} {} (bu_artifacts b) = Inr arts"
    and "records_loop pt arts (bu_scope b) {} {} (bu_records b) = Inr ()"
  using assms by (auto simp: validate_bundle_def and_then_Inr split: if_splits)

lemma validate_scope_within:
  "validate_scope c p = Inr () \<Longrightarrow> s_space c = s_space p \<and> set (s_audience c) \<subseteq> set (s_audience p) \<and>
     s_sensitivity p \<le> s_sensitivity c"
  by (auto simp: validate_scope_iff)

text \<open>
  C20. A bundle that passes validation and is bound to a destination has unique record identities,
  artifact identities, file paths and attachment identities; every attachment names an artifact of the
  bundle; every record belongs to the destination's application; and the scope of every record and
  every attachment is contained in the scope the destination allows: the same space, an audience that
  is part of the allowed one, and at least the allowed sensitivity.
\<close>

theorem bundle_within_destination:
  assumes "validate_bundle pt b l = Inr ()" and "validate_destination b application allowed = Inr ()"
  shows "distinct (map record_key (bu_records b)) \<and> distinct (map a_artifact_id (bu_artifacts b)) \<and>
    distinct (concat (map (\<lambda>a. case a_target a of BundleFile p \<Rightarrow> [p] | _ \<Rightarrow> []) (bu_artifacts b))) \<and>
    distinct (concat (map (\<lambda>r. map b_binding_id (r_artifact_bindings r)) (bu_records b))) \<and>
    (\<forall>r \<in> set (bu_records b). r_application r = application \<and> r_space r = s_space allowed \<and>
       validate_scope (r_scope r) allowed = Inr () \<and> s_space (r_scope r) = s_space allowed \<and>
       set (s_audience (r_scope r)) \<subseteq> set (s_audience allowed) \<and> s_sensitivity allowed \<le> s_sensitivity (r_scope r) \<and>
       (\<forall>d \<in> set (r_artifact_bindings r). b_artifact_id d \<in> a_artifact_id ` set (bu_artifacts b) \<and>
          validate_scope (b_scope d) allowed = Inr () \<and> s_space (b_scope d) = s_space allowed \<and>
          set (s_audience (b_scope d)) \<subseteq> set (s_audience allowed) \<and> s_sensitivity allowed \<le> s_sensitivity (b_scope d)))"
proof -
  from validate_bundle_ok [OF assms(1)] obtain arts where a: "artifacts_loop l {} {} (bu_artifacts b) = Inr arts"
    and r: "records_loop pt arts (bu_scope b) {} {} (bu_records b) = Inr ()" .
  have d: "validate_scope (bu_scope b) allowed = Inr ()" and app: "\<forall>r \<in> set (bu_records b). r_application r = application"
    using assms(2) by (auto simp: validate_destination_def and_then_Inr list_ex_iff split: if_splits)
  note A = artifacts_loop_ok [OF a] and R = records_loop_ok [OF r]
  have arts: "arts = a_artifact_id ` set (bu_artifacts b)" using A by simp
  have Rm: "r_space r = s_space (r_scope r)" "validate_scope (r_scope r) (bu_scope b) = Inr ()"
      "\<And>e. e \<in> set (r_artifact_bindings r) \<Longrightarrow> b_artifact_id e \<in> arts \<and> validate_scope (b_scope e) (r_scope r) = Inr ()"
    if "r \<in> set (bu_records b)" for r
    using R that by blast+
  have rec: "validate_scope (r_scope r) allowed = Inr ()" if "r \<in> set (bu_records b)" for r
    by (rule validate_scope_trans [OF Rm(2) [OF that] d])
  have att: "validate_scope (b_scope e) allowed = Inr ()" if "r \<in> set (bu_records b)" "e \<in> set (r_artifact_bindings r)" for r e
    by (rule validate_scope_trans [OF conjunct2 [OF Rm(3) [OF that]] rec [OF that(1)]])
  show ?thesis
  proof (intro conjI ballI)
    show "distinct (map record_key (bu_records b))" "distinct (map a_artifact_id (bu_artifacts b))"
      "distinct (concat (map (\<lambda>a. case a_target a of BundleFile p \<Rightarrow> [p] | _ \<Rightarrow> []) (bu_artifacts b)))"
      "distinct (concat (map (\<lambda>r. map b_binding_id (r_artifact_bindings r)) (bu_records b)))"
      using A R unfolding bundle_paths_def binding_ids_def by blast+
  next
    fix r
    assume m: "r \<in> set (bu_records b)"
    note in_r = validate_scope_within [OF rec [OF m]]
    show "r_application r = application" using app m by blast
    show "validate_scope (r_scope r) allowed = Inr ()" by (rule rec [OF m])
    show "r_space r = s_space allowed" "s_space (r_scope r) = s_space allowed"
      "set (s_audience (r_scope r)) \<subseteq> set (s_audience allowed)" "s_sensitivity allowed \<le> s_sensitivity (r_scope r)"
      using in_r Rm(1) [OF m] by simp_all
    fix e
    assume e: "e \<in> set (r_artifact_bindings r)"
    note in_e = validate_scope_within [OF att [OF m e]]
    show "b_artifact_id e \<in> a_artifact_id ` set (bu_artifacts b)" using Rm(3) [OF m e] arts by simp
    show "validate_scope (b_scope e) allowed = Inr ()" by (rule att [OF m e])
    show "s_space (b_scope e) = s_space allowed" "set (s_audience (b_scope e)) \<subseteq> set (s_audience allowed)"
      "s_sensitivity allowed \<le> s_sensitivity (b_scope e)"
      using in_e by simp_all
  qed
qed

definition demo_scope_of :: "string list \<Rightarrow> Sensitivity \<Rightarrow> Scope" where
  "demo_scope_of aud sens = \<lparr>s_space = ''home'', s_audience = aud, s_sensitivity = sens\<rparr>"

definition demo_provenance :: Provenance where
  "demo_provenance = \<lparr>pv_producer = ''app'', pv_producer_record_id = None, pv_captured_at = None, pv_locator = None,
     pv_derived_from = [], pv_supersedes = None\<rparr>"

definition demo_artifact :: Artifact where
  "demo_artifact = \<lparr>a_artifact_id = ''a1'', a_sha256 = Some (replicate 64 (CHR ''0'')), a_byte_length = Some 3,
     a_target = BundleFile ''files/photo'', a_preservation = IncludedVerified\<rparr>"

definition demo_bundle :: Bundle where
  "demo_bundle = \<lparr>bu_contract = ''data-portability/1'', bu_profile = ''p'', bu_bundle_id = ''b'',
     bu_producer = \<lparr>p_application = ''app'', p_version = ''1''\<rparr>, bu_exported_at = ''2024-01-01T00:00:00Z'',
     bu_scope = demo_scope_of [''me'', ''you''] Public,
     bu_enumeration = \<lparr>en_kind = Selection, en_complete = True, en_selection = ''all'', en_snapshot_revision = None,
       en_excluded_record_types = []\<rparr>,
     bu_capabilities = [],
     bu_records = [\<lparr>r_application = ''app'', r_space = ''home'', r_record_type = ''note'', r_record_id = ''1'',
       r_record_schema_version = 1, r_authority = ApplicationRecord, r_revision = None,
       r_scope = demo_scope_of [''me''] Private, r_payload = [], r_provenance = demo_provenance,
       r_artifact_bindings = [\<lparr>b_binding_id = ''x'', b_artifact_id = ''a1'', b_role = Attachment,
         b_scope = demo_scope_of [''me''] Restricted, b_asserted_media_type = ''image/png'', b_display_filename = None,
         b_provenance = demo_provenance\<rparr>]\<rparr>],
     bu_artifacts = [demo_artifact]\<rparr>"

theorem bundle_within_destination_witness:
  "validate_scope (r_scope (hd (bu_records demo_bundle))) (demo_scope_of [''me'', ''you''] Public) = Inr ()"
proof -
  have "validate_bundle (\<lambda>_. True) demo_bundle Limits_default = Inr ()" by code_simp
  moreover have "validate_destination demo_bundle ''app'' (demo_scope_of [''me'', ''you''] Public) = Inr ()" by code_simp
  moreover have "hd (bu_records demo_bundle) \<in> set (bu_records demo_bundle)" by (simp add: demo_bundle_def)
  ultimately show ?thesis
    using bundle_within_destination [of "\<lambda>_. True" demo_bundle Limits_default "''app''" "demo_scope_of [''me'', ''you''] Public"]
    by blast
qed

text \<open>An accepted change plan has one change per record, all in its space, and no update clears what it sets.\<close>

lemma changes_loop_ok:
  "changes_loop space seen cs = Inr () \<Longrightarrow>
     distinct (map change_key cs) \<and> seen \<inter> change_key ` set cs = {} \<and>
     (\<forall>c \<in> set cs. k_space (change_key c) = space \<and> change_ok c = Inr ())"
proof (induction cs arbitrary: seen)
  case (Cons c cs)
  then have r: "changes_loop space (insert (change_key c) seen) cs = Inr ()"
    and n: "change_key c \<notin> seen" "k_space (change_key c) = space" "change_ok c = Inr ()"
    by (auto simp: and_then_Inr split: if_splits)
  show ?case using Cons.IH [OF r] n by auto
qed simp

theorem change_plan_within_destination:
  assumes "decode_change_plan jr typed bs l = Inr p" and "validate_plan_destination p application allowed = Inr ()"
  shows "length bs \<le> max_input_bytes l \<and> length (cp_changes p) \<le> max_records l \<and> distinct (map change_key (cp_changes p)) \<and>
    (\<forall>c \<in> set (cp_changes p). k_application (change_key c) = application \<and> k_space (change_key c) = s_space allowed \<and>
       (\<forall>app spc ty i base st clear. c = Update app spc ty i base st clear \<longrightarrow> set clear \<inter> fst ` set st = {}))"
proof -
  have d: "decode jr typed bs l = Inr p" and c: "changes_loop (s_space (cp_scope p)) {} (cp_changes p) = Inr ()"
    and n: "length (cp_changes p) \<le> max_records l"
    using assms(1) by (auto simp: decode_change_plan_def and_then_Inr split: if_splits)
  have bytes: "length bs \<le> max_input_bytes l" using d by (auto simp: decode_def split: if_splits)
  have s: "s_space (cp_scope p) = s_space allowed" and app: "\<forall>c \<in> set (cp_changes p). k_application (change_key c) = application"
    using assms(2) by (auto simp: validate_plan_destination_def and_then_Inr list_ex_iff validate_scope_iff split: if_splits)
  have "set clear \<inter> fst ` set st = {}" if "change_ok (Update a sp ty i base st clear) = Inr ()" for a sp ty i base st clear
    using that by (auto simp: and_then_Inr list_ex_iff split: if_splits)
  then have "\<forall>x \<in> set (cp_changes p). \<forall>app spc ty i base st clear. x = Update app spc ty i base st clear \<longrightarrow> set clear \<inter> fst ` set st = {}"
    using changes_loop_ok [OF c] by metis
  with changes_loop_ok [OF c] s app n bytes show ?thesis by auto
qed

section \<open>Artifact files\<close>

text \<open>
  A byte source with content \<open>s\<close> delivers it in pieces of any positive size up to the one asked for,
  and nothing exactly at its end.
\<close>

definition delivers :: "(bytes \<Rightarrow> nat \<Rightarrow> (bytes \<times> bytes) option) \<Rightarrow> bool" where
  "delivers read \<longleftrightarrow> (\<forall>s n. 0 < n \<longrightarrow> (\<exists>k \<le> n. read s n = Some (take k s, drop k s) \<and> (s \<noteq> [] \<longrightarrow> 0 < k)))"

lemma read_loop_delivers:
  assumes "delivers read"
  shows "read_loop read left acc s = Some (Inr (acc @ take left s))"
proof (induction left arbitrary: acc s rule: less_induct)
  case (less left)
  show ?case
  proof (cases "left = 0")
    case False
    then have "0 < min 16384 left" by simp
    then obtain k where k: "k \<le> min 16384 left" and r: "read s (min 16384 left) = Some (take k s, drop k s)"
      and pos: "s \<noteq> [] \<longrightarrow> 0 < k" using assms unfolding delivers_def by blast
    show ?thesis
    proof (cases "s = []")
      case True
      with r False show ?thesis by (subst read_loop.simps) simp
    next
      case s: False
      with pos have k0: "0 < k" by simp
      let ?n = "length (take k s)"
      have n: "0 < ?n" "?n \<le> min 16384 left" using k k0 s by auto
      then have ne: "take k s \<noteq> []" by auto
      have "read_loop read left acc s = read_loop read (left - ?n) (acc @ take k s) (drop k s)"
        using r n ne False by (subst read_loop.simps) (simp add: not_less [symmetric] del: length_take)
      also have "\<dots> = Some (Inr ((acc @ take k s) @ take (left - ?n) (drop k s)))"
        by (rule less.IH) (use n in linarith)
      finally have "read_loop read left acc s = Some (Inr (acc @ take k s @ take (left - ?n) (drop k s)))" by simp
      moreover have "take k s @ take (left - ?n) (drop k s) = take left s"
      proof (cases "k \<le> length s")
        case True
        then show ?thesis using k take_add [of k "left - k" s] by simp
      qed (use k in simp)
      ultimately show ?thesis by simp
    qed
  qed (simp add: read_loop.simps)
qed

lemma split_on_nonempty: "split_on d s \<noteq> []"
  by (induction s) (auto split: list.splits)

lemma inner_normal:
  "\<forall>v \<in> set vs. v \<noteq> [] \<and> v \<noteq> ''.'' \<and> v \<noteq> ''..'' \<Longrightarrow> concat (map inner_component vs) = map Normal vs"
  by (induction vs) (auto simp: inner_component_def)

lemma components_normal:
  assumes "validate_path path = Inr ()"
  shows "components path = map Normal (split_on (CHR ''/'') path)"
    and "\<forall>v \<in> set (split_on (CHR ''/'') path). v \<noteq> [] \<and> v \<noteq> ''.'' \<and> v \<noteq> ''..''"
proof -
  show *: "\<forall>v \<in> set (split_on (CHR ''/'') path). v \<noteq> [] \<and> v \<noteq> ''.'' \<and> v \<noteq> ''..''"
    using assms by (auto simp: validate_path_def and_then_Inr list_ex_iff split: if_splits)
  obtain v vs where v: "split_on (CHR ''/'') path = v # vs" using split_on_nonempty by (meson neq_Nil_conv)
  with * have "inner_component v = [Normal v]" "concat (map inner_component vs) = map Normal vs"
    by (auto simp: inner_component_def inner_normal)
  with v * show "components path = map Normal (split_on (CHR ''/'') path)" by (simp add: components_def)
qed

lemma walk_normal:
  "walk symlink push cur (map Normal vs) = Inr p \<longleftrightarrow>
     p = foldl push cur vs \<and> (\<forall>k \<in> {1..length vs}. symlink (foldl push cur (take k vs)) = Some False)"
proof (induction vs arbitrary: cur)
  case (Cons v vs)
  have "(\<forall>k \<in> {1..length (v # vs)}. symlink (foldl push cur (take k (v # vs))) = Some False) \<longleftrightarrow>
      symlink (push cur v) = Some False \<and> (\<forall>k \<in> {1..length vs}. symlink (foldl push (push cur v) (take k vs)) = Some False)"
    (is "?L = (?A \<and> ?B)")
  proof
    assume L: ?L
    have ?A using bspec [OF L, of 1] by simp
    moreover have ?B using bspec [OF L, of "Suc k" for k] by simp
    ultimately show "?A \<and> ?B" by simp
  next
    assume R: "?A \<and> ?B"
    show ?L
    proof
      fix k assume k: "k \<in> {1..length (v # vs)}"
      then obtain j where j: "k = Suc j" by (cases k) auto
      show "symlink (foldl push cur (take k (v # vs))) = Some False"
        using R k by (cases "j = 0") (auto simp: j)
    qed
  qed
  moreover have "walk symlink push cur (map Normal (v # vs)) = Inr p \<longleftrightarrow>
      symlink (push cur v) = Some False \<and> walk symlink push (push cur v) (map Normal vs) = Inr p"
    by (auto split: option.split bool.split)
  ultimately show ?case using Cons [of "push cur v"] by auto
qed auto

lemma artifact_exact_path:
  assumes "validate_artifact a l = Inr ()" and "a_target a = BundleFile path"
  shows "validate_path path = Inr () \<and> (\<exists>h n. a_sha256 a = Some h \<and> a_byte_length a = Some n \<and> n \<le> max_safe_integer)"
  using assms unfolding validate_artifact_def
  by (cases "a_sha256 a"; cases "a_byte_length a"; cases "a_preservation a") (auto simp: Let_def split: if_splits)

text \<open>
  C21. A bundle file is accepted exactly when the declaration is valid, neither the root nor any
  directory or file on the way is a symbolic link, the path has only ordinary names below the root,
  and the regular file found there has exactly the declared length and hash, however the reads split
  its bytes.
\<close>

theorem bundle_file_verified_exactly:
  assumes "delivers read"
  shows "verify_bundle_file hash_hex read symlink push opened root a l = Some (Inr ()) \<longleftrightarrow>
    validate_artifact a l = Inr () \<and> symlink root = Some False \<and>
    (\<exists>path content. a_target a = BundleFile path \<and>
       (let names = split_on (CHR ''/'') path in
         (\<forall>v \<in> set names. v \<noteq> [] \<and> v \<noteq> ''.'' \<and> v \<noteq> ''..'') \<and>
         (\<forall>k \<in> {1..length names}. symlink (foldl push root (take k names)) = Some False) \<and>
         opened (foldl push root names) = Some (Some True, content) \<and>
         a_byte_length a = Some (length content) \<and> a_sha256 a = Some (hash_hex content)))"
proof (cases "validate_artifact a l = Inr () \<and> symlink root = Some False \<and> (\<exists>path. a_target a = BundleFile path)")
  case False
  then show ?thesis by (auto simp: verify_bundle_file_def split: sum.splits ArtifactTarget.splits)
next
  case True
  then obtain path where a: "validate_artifact a l = Inr ()" "symlink root = Some False" "a_target a = BundleFile path" by blast
  let ?names = "split_on (CHR ''/'') path"
  from artifact_exact_path [OF a(1,3)] obtain h n where hn: "a_sha256 a = Some h" "a_byte_length a = Some n"
    and n: "n \<le> max_safe_integer" and vp: "validate_path path = Inr ()" by blast
  note comp = components_normal [OF vp]
  have bytes: "verify_artifact_bytes hash_hex read s a l =
      Some (if length s = n \<and> hash_hex s = h then Inr () else Inl ArtifactMismatch)" for s
  proof -
    have "min (n + 1) u64_max = n + 1" using n by (simp add: max_safe_integer_def u64_max_def)
    then have "verify_artifact_bytes hash_hex read s a l =
        Some (if length (take (n + 1) s) \<noteq> n \<or> hash_hex (take (n + 1) s) \<noteq> h then Inl ArtifactMismatch else Inr ())"
      using a(1) hn read_loop_delivers [OF assms] by (simp add: verify_artifact_bytes_def)
    then show ?thesis by (cases "length s \<le> n + 1") auto
  qed
  have "verify_bundle_file hash_hex read symlink push opened root a l = Some (Inr ()) \<longleftrightarrow>
      (\<exists>s. (\<forall>k \<in> {1..length ?names}. symlink (foldl push root (take k ?names)) = Some False) \<and>
         opened (foldl push root ?names) = Some (Some True, s) \<and> length s = n \<and> hash_hex s = h)"
  proof (cases "walk symlink push root (components path)")
    case (Inl e)
    then have "\<not> (\<forall>k \<in> {1..length ?names}. symlink (foldl push root (take k ?names)) = Some False)"
      unfolding comp(1) using walk_normal [of symlink push root ?names "foldl push root ?names"] by auto
    with Inl a show ?thesis by (simp add: verify_bundle_file_def)
  next
    case (Inr p)
    then have w: "p = foldl push root ?names" "\<forall>k \<in> {1..length ?names}. symlink (foldl push root (take k ?names)) = Some False"
      unfolding comp(1) walk_normal by blast+
    then show ?thesis using Inr a bytes
      by (auto simp: verify_bundle_file_def split: option.splits bool.splits if_splits)
  qed
  then show ?thesis using a hn comp(2) unfolding Let_def by auto
qed

theorem bundle_file_verified_exactly_witness:
  "verify_bundle_file (\<lambda>bs. replicate 64 (CHR ''0'')) (\<lambda>s n. Some (take n s, drop n s)) (\<lambda>p. Some False)
     (\<lambda>p c. p @ [c]) (\<lambda>p. if p = [''files'', ''photo''] then Some (Some True, [1, 2, 3]) else None) [] demo_artifact Limits_default
   = Some (Inr ())"
proof -
  have "delivers (\<lambda>s n. Some (take n s, drop n s))" by (auto simp: delivers_def)
  from bundle_file_verified_exactly [OF this] show ?thesis
  proof (rule iffD2)
    have "validate_artifact demo_artifact Limits_default = Inr ()" by code_simp
    moreover have "split_on (CHR ''/'') ''files/photo'' = [''files'', ''photo'']" by code_simp
    ultimately show "validate_artifact demo_artifact Limits_default = Inr () \<and> Some False = Some False \<and>
      (\<exists>path content. a_target demo_artifact = BundleFile path \<and>
       (let names = split_on (CHR ''/'') path in
         (\<forall>v \<in> set names. v \<noteq> [] \<and> v \<noteq> ''.'' \<and> v \<noteq> ''..'') \<and>
         (\<forall>k \<in> {1..length names}. Some False = Some False) \<and>
         (if foldl (\<lambda>p c. p @ [c]) [] names = [''files'', ''photo''] then Some (Some True, [1, 2, 3]) else None)
           = Some (Some True, content) \<and>
         a_byte_length demo_artifact = Some (length content) \<and> a_sha256 demo_artifact = Some (replicate 64 (CHR ''0''))))"
      by (simp add: demo_artifact_def Let_def)
  qed
qed

section \<open>Presentations\<close>

text \<open>What a spreadsheet may take for a formula.\<close>

definition formula_like :: "string \<Rightarrow> bool" where
  "formula_like v \<longleftrightarrow> (\<exists>c cs. trim_start v = c # cs \<and> c \<in> {61, 43, 45, 64}) \<or>
     (\<exists>c cs. v = c # cs \<and> c \<in> {CHR 0x09, CHR 0x0D, CHR 0x0A})"

lemma spreadsheet_text_cases: "spreadsheet_text v = (if formula_like v then CHR 0x27 # v else v)"
  by (auto simp: spreadsheet_text_def formula_like_def split: list.splits)

lemma quoted_not_formula: "\<not> formula_like (CHR 0x27 # v)"
  by (auto simp: formula_like_def trim_start_def ws3_def split: list.splits if_splits)

text \<open>
  C37. A CSV presentation hands the writer one row per table row, in order, with no cell a
  spreadsheet takes for a formula; a cell is either the table's own text or that text behind one
  apostrophe, and a loss is reported exactly when some cell changed.
\<close>

theorem csv_presentation_is_inert:
  assumes "render_csv csv_write t l = Inr p"
  shows "\<exists>cells. csv_write cells = Some (pr_bytes p) \<and> length (pr_bytes p) \<le> max_input_bytes l \<and>
    (\<forall>row \<in> set cells. \<forall>v \<in> set row. \<not> formula_like v) \<and>
    list_all2 (list_all2 (\<lambda>v w. w = v \<or> w = CHR 0x27 # v)) (t_columns t # t_rows t) cells \<and>
    (pr_losses p = [] \<longleftrightarrow> cells = t_columns t # t_rows t)"
proof -
  let ?rows = "t_columns t # t_rows t"
  let ?cells = "map (map spreadsheet_text) ?rows"
  have w: "csv_write ?cells = Some (pr_bytes p)" "length (pr_bytes p) \<le> max_input_bytes l"
    "pr_losses p = (if list_ex (list_ex (\<lambda>v. spreadsheet_text v \<noteq> v)) ?rows then [formula_loss] else [])"
    using assms by (auto simp: render_csv_def and_then_Inr Let_def split: option.splits if_splits)
  have inert: "\<not> formula_like (spreadsheet_text v)" for v using quoted_not_formula by (simp add: spreadsheet_text_cases)
  have one: "spreadsheet_text v = v \<or> spreadsheet_text v = CHR 0x27 # v" for v by (simp add: spreadsheet_text_cases)
  have m: "map f xs = xs \<longleftrightarrow> (\<forall>x \<in> set xs. f x = x)" for f :: "'a \<Rightarrow> 'a" and xs by (induction xs) auto
  have "?cells = ?rows \<longleftrightarrow> (\<forall>row \<in> set ?rows. \<forall>v \<in> set row. spreadsheet_text v = v)" by (simp only: m)
  then have "pr_losses p = [] \<longleftrightarrow> ?cells = ?rows" unfolding w(3) by (simp add: list_ex_iff)
  moreover have "list_all2 (list_all2 (\<lambda>v w. w = v \<or> w = CHR 0x27 # v)) ?rows ?cells"
    using one by (simp only: list_all2_map2) (simp add: list.rel_refl list_all2_refl)
  moreover have "\<forall>row \<in> set ?cells. \<forall>v \<in> set row. \<not> formula_like v" using inert by auto
  ultimately show ?thesis using w(1,2) by (intro exI [of _ ?cells] conjI)
qed

definition demo_table :: Table where
  "demo_table = \<lparr>t_columns = [''name''], t_rows = [[''=1+1'']]\<rparr>"

theorem csv_presentation_is_inert_witness:
  "\<exists>p. render_csv (\<lambda>cells. Some (map of_char (concat (concat cells)))) demo_table Limits_default = Inr p \<and>
     pr_losses p \<noteq> []"
proof -
  let ?w = "\<lambda>cells. Some (map of_char (concat (concat cells)))"
  let ?p = "\<lparr>pr_bytes = map of_char (''name'' @ [CHR 0x27] @ ''=1+1''), pr_losses = [formula_loss]\<rparr>"
  have r: "render_csv ?w demo_table Limits_default = Inr ?p" by code_simp
  from csv_presentation_is_inert [OF r] obtain cells where "?w cells = Some (pr_bytes ?p)"
    "pr_losses ?p = [] \<longleftrightarrow> cells = t_columns demo_table # t_rows demo_table" by blast
  with r show ?thesis by auto
qed

text \<open>The twelve replacements in one pass.\<close>

definition md_char :: "char \<Rightarrow> string" where
  "md_char c =
     (if c = CHR ''&'' then ''&amp;'' else if c = CHR ''<'' then ''&lt;'' else if c = CHR ''>'' then ''&gt;''
      else if c \<in> {CHR 0x5C, CHR ''|'', CHR ''*'', CHR ''_'', CHR 0x60, CHR ''['', CHR '']''} then [CHR 0x5C, c]
      else if c = CHR 0x0D then [] else if c = CHR 0x0A then ''<br>'' else [c])"

lemma md_escape_char: "md_escape [c] = md_char c"
  unfolding md_escape_def md_char_def by (simp add: replace_char_def)

lemma replace_char_append: "replace_char c by (v @ w) = replace_char c by v @ replace_char c by w"
  by (simp add: replace_char_def)

lemma md_escape_append: "md_escape (v @ w) = md_escape v @ md_escape w"
  unfolding md_escape_def by (simp add: replace_char_append)

lemma md_escape_single_pass: "md_escape v = concat (map md_char v)"
proof (induction v)
  case Nil
  show ?case by (simp add: md_escape_def replace_char_def)
next
  case (Cons c v)
  have "md_escape (c # v) = md_escape [c] @ md_escape v" using md_escape_append [of "[c]" v] by simp
  with Cons show ?case by (simp add: md_escape_char)
qed

lemma md_char_lines: "CHR 0x0A \<notin> set (md_char c) \<and> CHR 0x0D \<notin> set (md_char c)"
  by (simp add: md_char_def)

lemma md_row_lines: "length (filter (\<lambda>c. c = CHR 0x0A) (md_row vs)) = 1"
proof -
  have "CHR 0x0A \<notin> set (join '' | '' (map md_escape vs))"
    by (induction vs rule: induct_list012) (auto simp: md_escape_single_pass md_char_lines)
  then have "filter (\<lambda>c. c = CHR 0x0A) (join '' | '' (map md_escape vs)) = []" by (auto simp: filter_empty_conv)
  then show ?thesis by (simp add: md_row_def)
qed

text \<open>
  C38. The twelve successive replacements of the Markdown presentation are one pass over the cell,
  so no replacement disturbs another: every markup character is escaped once, no line break of a cell
  survives, and the text of a table has exactly one line for the header, one for the rule and one per
  row.
\<close>

theorem markdown_escape_is_one_pass:
  "md_escape v = concat (map md_char v) \<and> CHR 0x0A \<notin> set (md_escape v) \<and> CHR 0x0D \<notin> set (md_escape v) \<and>
   length (filter (\<lambda>c. c = CHR 0x0A) (md_text t)) = length (t_rows t) + 2"
proof -
  have "length (filter (\<lambda>c. c = CHR 0x0A) (concat (map md_row rows))) = length rows" for rows
    by (induction rows) (simp_all add: md_row_lines)
  then show ?thesis using md_char_lines by (auto simp: md_escape_single_pass md_text_def md_row_lines)
qed

end
