(* ===== verification/Job_Store.thy ===== *)
theory Job_Store
  imports Job_Types
begin

text \<open>
  Crate \<^verbatim>\<open>symbiotic-queue-sqlite\<close>, file \<^verbatim>\<open>jobs.rs\<close>: the job store.

  The state \<open>jobs_db\<close> is the content of the tables \<^verbatim>\<open>jobs\<close> (the records as \<^verbatim>\<open>read_record\<close> reads
  them, in insertion order) and \<^verbatim>\<open>job_owners\<close>. Every operation maps the state to an error or to
  a result and the new state; an error has no state, because the savepoint is rolled back
  (\<open>jobs_in_transaction\<close>). A scope is stored as its JSON text, which identifies it. Instants are
  stored as Unix milliseconds: comparisons inside SQL are on milliseconds, comparisons in Rust
  on the instants. \<open>env\<close> collects what is not part of the store: the functions of \<^verbatim>\<open>chrono\<close>, the
  encodings, the identities drawn for new jobs and the recovery copies the spend ledger holds
  for a receipt. Faults of the database are not modelled.
\<close>

section \<open>State and environment\<close>

record env =
  chr :: chrono
  cod :: codec
  new_id :: "nat \<Rightarrow> string"
  recovery_len :: "string \<Rightarrow> nat"

record jobs_db =
  jobs :: "JobRecord list"
  job_owners :: "(JobScope \<times> string \<times> string) list"

definition empty_db :: jobs_db where
  "empty_db = \<lparr>jobs = [], job_owners = []\<rparr>"

text \<open>An instant the store can keep: whole milliseconds in range, no leap second.\<close>

definition millisecond_time :: "env \<Rightarrow> time \<Rightarrow> JobError + time" where
  "millisecond_time e t =
     (if timestamp_subsec_nanos (chr e) t \<ge> 1000000000 then Inl InvalidRequest
      else case from_timestamp_millis (chr e) (timestamp_millis (chr e) t) of
        None \<Rightarrow> Inl InvalidRequest
      | Some t' \<Rightarrow> Inr t')"

definition optional_time :: "env \<Rightarrow> time option \<Rightarrow> JobError + time option" where
  "optional_time e t =
     (case t of None \<Rightarrow> Inr None | Some t \<Rightarrow> and_then (millisecond_time e t) (\<lambda>t'. Inr (Some t')))"

text \<open>An instant written by \<^verbatim>\<open>stamp\<close> and read back.\<close>

definition restored :: "env \<Rightarrow> time \<Rightarrow> time option" where
  "restored e t = from_timestamp_millis (chr e) (timestamp_millis (chr e) t)"

definition deadline :: "env \<Rightarrow> time \<Rightarrow> nat \<Rightarrow> JobError + time" where
  "deadline e now seconds =
     (if seconds \<le> i64_max then
        (case checked_add_secs (chr e) now (int seconds) of None \<Rightarrow> Inl InvalidRequest | Some t \<Rightarrow> Inr t)
      else Inl InvalidRequest)"

definition scoped :: "JobScope \<Rightarrow> JobId \<Rightarrow> JobError + unit" where
  "scoped sc j = ensure (scope_of j = sc) Scope"

section \<open>Rows\<close>

definition row_get :: "jobs_db \<Rightarrow> JobId \<Rightarrow> JobRecord option" where
  "row_get db j = find (\<lambda>r. job_id r = j) (jobs db)"

definition by_key :: "jobs_db \<Rightarrow> JobScope \<Rightarrow> string \<Rightarrow> JobRecord option" where
  "by_key db sc k = find (\<lambda>r. scope_of (job_id r) = sc \<and> key r = k) (jobs db)"

definition row_metadata :: "jobs_db \<Rightarrow> JobId \<Rightarrow> JobError + JobRecord" where
  "row_metadata db j =
     (case row_get db j of
        None \<Rightarrow> Inl NotFound
      | Some r \<Rightarrow> Inr (r\<lparr>payload := None, admission := None, job_output := None\<rparr>))"

definition update_row :: "JobId \<Rightarrow> (JobRecord \<Rightarrow> JobRecord) \<Rightarrow> jobs_db \<Rightarrow> jobs_db" where
  "update_row j f db = db\<lparr>jobs := map (\<lambda>r. if job_id r = j then f r else r) (jobs db)\<rparr>"

text \<open>
  The insert-or-update of \<^verbatim>\<open>save\<close>: another row with the same key in the scope violates the
  unique constraint.
\<close>

definition upsert :: "JobRecord \<Rightarrow> jobs_db \<Rightarrow> JobError + jobs_db" where
  "upsert r db =
     (if list_ex (\<lambda>x. job_id x \<noteq> job_id r \<and> scope_of (job_id x) = scope_of (job_id r) \<and> key x = key r) (jobs db)
      then Inl Storage
      else if list_ex (\<lambda>x. job_id x = job_id r) (jobs db) then Inr (update_row (job_id r) (\<lambda>_. r) db)
      else Inr (db\<lparr>jobs := jobs db @ [r]\<rparr>))"

text \<open>What reading a confirmed row gives back (the Unix epoch is the neutral creation time).\<close>

definition tombstone :: "time \<Rightarrow> JobRecord \<Rightarrow> JobRecord" where
  "tombstone epoch r =
     \<lparr>job_id = job_id r, key = key r, digest = digest r, job_group = None, owners = [],
      kind = (if execution r = Model then kind r else []), execution = execution r,
      state = state r, final_state = final_state r, payload = None, admission = None,
      max_attempts = 0, generation = 0, lease_until = None, cancel_requested = False, purged = False,
      job_output = None, output_bytes = 0, origin = None, receipt = receipt r, recovery_until = None,
      result_expired = False, created_at = epoch, finished_at = None,
      delivery_generation = delivery_generation r, delivery_until = None, diagnostic = None\<rparr>"

definition UNIX_EPOCH :: "env \<Rightarrow> time" where
  "UNIX_EPOCH e = (case from_timestamp_millis (chr e) 0 of Some t \<Rightarrow> t | None \<Rightarrow> 0)"

definition stored_output_bytes :: "env \<Rightarrow> JobRecord \<Rightarrow> JobError + nat" where
  "stored_output_bytes e r =
     (case job_output r of
        None \<Rightarrow> Inr 0
      | Some out \<Rightarrow> if 0 < output_bytes r then Inr (output_bytes r) else encoded_bytes (json_bytes (cod e) out))"

definition drop_owners :: "JobId \<Rightarrow> jobs_db \<Rightarrow> jobs_db" where
  "drop_owners j db = db\<lparr>job_owners := filter (\<lambda>(sc, ow, i). \<not> (sc = scope_of j \<and> i = ident j)) (job_owners db)\<rparr>"

definition add_owners :: "JobId \<Rightarrow> string list \<Rightarrow> jobs_db \<Rightarrow> jobs_db" where
  "add_owners j os db =
     db\<lparr>job_owners := fold (\<lambda>ow rows. if (scope_of j, ow, ident j) \<in> set rows then rows
                               else rows @ [(scope_of j, ow, ident j)]) os (job_owners db)\<rparr>"

definition save :: "env \<Rightarrow> JobRecord \<Rightarrow> jobs_db \<Rightarrow> JobError + jobs_db" where
  "save e r db =
     (if acked (state r) then
        and_then (ensure (delivery_generation r \<le> i64_max) Storage) (\<lambda>_.
        and_then (upsert (tombstone (UNIX_EPOCH e) r) db) (\<lambda>db1.
        Inr (drop_owners (job_id r) db1)))
      else
        and_then (millisecond_time e (created_at r)) (\<lambda>created.
        and_then (optional_time e (lease_until r)) (\<lambda>lease.
        and_then (optional_time e (recovery_until r)) (\<lambda>recovery.
        and_then (optional_time e (finished_at r)) (\<lambda>finished.
        and_then (optional_time e (delivery_until r)) (\<lambda>delivery.
        and_then (ensure (generation r \<le> i64_max \<and> delivery_generation r \<le> i64_max) Storage) (\<lambda>_.
        and_then (stored_output_bytes e r) (\<lambda>n.
        and_then (ensure (n \<le> i64_max) Storage) (\<lambda>_.
        let old = row_get db (job_id r);
            r' = r\<lparr>created_at := created, lease_until := lease, recovery_until := recovery,
                   finished_at := finished, delivery_until := delivery, output_bytes := n\<rparr>
        in and_then (upsert r' db) (\<lambda>db1.
           Inr (if (case old of None \<Rightarrow> True | Some x \<Rightarrow> owners x \<noteq> owners r)
                then add_owners (job_id r) (owners r) (drop_owners (job_id r) db1) else db1)))))))))))"

definition row_expire :: "JobId \<Rightarrow> jobs_db \<Rightarrow> jobs_db" where
  "row_expire j = update_row j
     (\<lambda>r. r\<lparr>result_expired := True, payload := None, admission := None, job_output := None, output_bytes := 0\<rparr>)"

definition row_deliver :: "env \<Rightarrow> JobRecord \<Rightarrow> bool \<Rightarrow> jobs_db \<Rightarrow> JobError + jobs_db" where
  "row_deliver e r expired db =
     (let db1 = (if expired then row_expire (job_id r) db else db) in
      and_then (ensure (delivery_generation r \<le> i64_max) Storage) (\<lambda>_.
      Inr (update_row (job_id r)
        (\<lambda>x. x\<lparr>delivery_generation := delivery_generation r, delivery_until := Option.bind (delivery_until r) (restored e)\<rparr>) db1)))"

definition recovery_bytes :: "env \<Rightarrow> JobId \<Rightarrow> jobs_db \<Rightarrow> JobError + nat" where
  "recovery_bytes e j db =
     (case row_get db j of
        None \<Rightarrow> Inl Storage
      | Some r \<Rightarrow> Inr (len (payload r) + len (admission r) + len (job_output r) +
                        (case receipt r of None \<Rightarrow> 0 | Some x \<Rightarrow> recovery_len e x)))"

definition sql_input_bytes :: "env \<Rightarrow> JobRecord \<Rightarrow> nat" where
  "sql_input_bytes e r = sql_json_input (cod e) (input_fields r) + len (payload r) + len (admission r)"

definition usage :: "env \<Rightarrow> JobScope \<Rightarrow> jobs_db \<Rightarrow> PendingUsage" where
  "usage e sc db =
     (let rs = filter (\<lambda>r. scope_of (job_id r) = sc \<and> unfinished (state r)) (jobs db) in
      \<lparr>pu_items = length rs, pu_bytes = sum_list (map (sql_input_bytes e) rs)\<rparr>)"

definition live_count :: "JobScope \<Rightarrow> jobs_db \<Rightarrow> nat" where
  "live_count sc db =
     length (filter (\<lambda>r. scope_of (job_id r) = sc \<and> unfinished (state r)) (jobs db)) +
     length (filter (\<lambda>r. scope_of (job_id r) = sc \<and> delivery_state (state r)) (jobs db))"

section \<open>Queries\<close>

datatype JobQuery =
  Q_Admission "string option"
| Q_Execution string
| Q_Group string
| Q_Owner string
| Q_Pending "string list"
| Q_Recovery "string list" "string option"
| Q_Final
| Q_Expired
| Q_Diagnostics string "string option"

definition after_id :: "string option \<Rightarrow> JobRecord \<Rightarrow> bool" where
  "after_id after r = ((case after of None \<Rightarrow> [] | Some a \<Rightarrow> a) < ident (job_id r))"

definition millis :: "env \<Rightarrow> time option \<Rightarrow> int option" where
  "millis e t = map_option (timestamp_millis (chr e)) t"

definition sql_due :: "env \<Rightarrow> time option \<Rightarrow> time \<Rightarrow> bool" where
  "sql_due e t now = (case t of None \<Rightarrow> False | Some t \<Rightarrow> timestamp_millis (chr e) t \<le> timestamp_millis (chr e) now)"

fun query_filter :: "env \<Rightarrow> JobQuery \<Rightarrow> time \<Rightarrow> jobs_db \<Rightarrow> JobRecord \<Rightarrow> bool" where
  "query_filter e (Q_Admission after) now db r = (state r = AwaitingAdmission \<and> after_id after r)"
| "query_filter e (Q_Execution k) now db r =
     (unfinished (state r) \<and> state r \<noteq> AwaitingAdmission \<and> kind r = k)"
| "query_filter e (Q_Group g) now db r = (job_group r = Some g \<and> unfinished (state r))"
| "query_filter e (Q_Owner ow) now db r = ((scope_of (job_id r), ow, ident (job_id r)) \<in> set (job_owners db))"
| "query_filter e (Q_Pending kinds) now db r =
     ((state r = Pending \<or> state r = Running \<and> execution r = Handler \<and> sql_due e (lease_until r) now) \<and>
      kind r \<in> set kinds)"
| "query_filter e (Q_Recovery kinds after) now db r =
     (execution r = Model \<and>
      (state r = Uncertain \<or> state r = Running \<and> sql_due e (lease_until r) now) \<and>
      kind r \<in> set kinds \<and> after_id after r)"
| "query_filter e Q_Final now db r =
     (delivery_state (state r) \<and> (delivery_until r = None \<or> sql_due e (delivery_until r) now))"
| "query_filter e Q_Expired now db r =
     (delivery_state (state r) \<and> \<not> result_expired r \<and> sql_due e (recovery_until r) now)"
| "query_filter e (Q_Diagnostics g after) now db r =
     (job_group r = Some g \<and> (state r = Failed \<or> state r = Uncertain \<or> state r = AwaitingAdmission) \<and>
      after_id after r)"

fun query_order :: "env \<Rightarrow> JobQuery \<Rightarrow> JobRecord \<Rightarrow> int option \<times> string" where
  "query_order e (Q_Execution k) r = (millis e (Some (created_at r)), ident (job_id r))"
| "query_order e (Q_Pending kinds) r = (millis e (Some (created_at r)), ident (job_id r))"
| "query_order e Q_Final r = (millis e (finished_at r), ident (job_id r))"
| "query_order e Q_Expired r = (millis e (recovery_until r), ident (job_id r))"
| "query_order e _ r = (None, ident (job_id r))"

definition select_rows :: "env \<Rightarrow> JobScope \<Rightarrow> JobQuery \<Rightarrow> time \<Rightarrow> nat \<Rightarrow> jobs_db \<Rightarrow> JobError + JobRecord list" where
  "select_rows e sc q now limit db =
     and_then (ensure (limit \<le> i64_max) InvalidRequest) (\<lambda>_.
     Inr (take limit (sort_key (query_order e q)
       (filter (\<lambda>r. scope_of (job_id r) = sc \<and> query_filter e q now db r) (jobs db)))))"

definition jobs_need_execution :: "env \<Rightarrow> JobScope \<Rightarrow> string \<Rightarrow> time \<Rightarrow> jobs_db \<Rightarrow> JobError + bool" where
  "jobs_need_execution e sc k now db =
     and_then (select_rows e sc (Q_Execution k) now 1 db) (\<lambda>rs. Inr (rs \<noteq> []))"

section \<open>Life cycle rules\<close>

definition claimable :: "JobRecord \<Rightarrow> time \<Rightarrow> bool" where
  "claimable r now \<longleftrightarrow>
     state r = Pending \<or>
     state r = Running \<and> execution r = Handler \<and>
       (case lease_until r of None \<Rightarrow> False | Some until \<Rightarrow> until \<le> now)"

definition stopped_state :: "JobRecord \<Rightarrow> JobState" where
  "stopped_state r = (if purged r then Purged else Cancelled)"

definition get :: "JobScope \<Rightarrow> JobId \<Rightarrow> jobs_db \<Rightarrow> JobError + JobRecord" where
  "get sc j db =
     and_then (scoped sc j) (\<lambda>_. case row_get db j of None \<Rightarrow> Inl NotFound | Some r \<Rightarrow> Inr r)"

definition live :: "JobRecord \<Rightarrow> nat \<Rightarrow> time \<Rightarrow> JobError + unit" where
  "live r gen now =
     ensure (state r = Running \<and> generation r = gen \<and>
             (case lease_until r of None \<Rightarrow> False | Some until \<Rightarrow> now < until)) StaleClaim"

definition delete_copies :: "JobRecord \<Rightarrow> JobRecord" where
  "delete_copies r = r\<lparr>payload := None, admission := None, job_output := None, output_bytes := 0\<rparr>"

definition finish :: "env \<Rightarrow> JobConfig \<Rightarrow> JobState \<Rightarrow> time \<Rightarrow> JobRecord \<Rightarrow> JobError + JobRecord" where
  "finish e cfg st now r =
     (let r1 = r\<lparr>state := st, finished_at := Some now, lease_until := None\<rparr> in
      and_then (case recovery_until r1 of
                  Some t \<Rightarrow> Inr t
                | None \<Rightarrow> deadline e now (retention_seconds cfg)) (\<lambda>until.
      let r2 = r1\<lparr>recovery_until := Some until\<rparr> in
      Inr (if until \<le> now then delete_copies (r2\<lparr>result_expired := True\<rparr>) else r2)))"

section \<open>Page bounds\<close>

definition page :: "JobConfig \<Rightarrow> nat \<Rightarrow> JobError + unit" where
  "page cfg limit = ensure (\<not> (limit = 0 \<or> max_page cfg < limit)) InvalidRequest"

text \<open>\<open>Inr None\<close> defers the row to the next page.\<close>

definition admit_page_bytes ::
  "nat \<Rightarrow> nat \<Rightarrow> nat \<Rightarrow> bool \<Rightarrow> (nat \<Rightarrow> JobError) \<Rightarrow> JobError + nat option" where
  "admit_page_bytes sz used max_bytes comma oversized =
     and_then (checked_sum InvalidRequest sz 2) (\<lambda>individual.
     if max_bytes < individual then Inl (oversized individual)
     else and_then (checked_sum InvalidRequest used sz) (\<lambda>b.
          and_then (checked_sum InvalidRequest b (of_bool comma)) (\<lambda>required.
          Inr (if required \<le> max_bytes then Some required else None))))"

definition candidate_page_bytes :: "env \<Rightarrow> JobRecord \<Rightarrow> nat \<Rightarrow> nat \<Rightarrow> bool \<Rightarrow> JobError + nat option" where
  "candidate_page_bytes e r used max_bytes comma =
     and_then (encoded_bytes (json_record (cod e) r)) (\<lambda>sz.
     admit_page_bytes sz used max_bytes comma (CandidateTooLarge (job_id r)))"

definition delivery_bytes :: "env \<Rightarrow> Delivery \<Rightarrow> nat option \<Rightarrow> JobError + nat" where
  "delivery_bytes e d out_bytes =
     and_then (case out_bytes of Some b \<Rightarrow> checked_sum Storage b 10 | None \<Rightarrow> Inr 0) (\<lambda>out.
     and_then (encoded_bytes (json_delivery (cod e) d)) (\<lambda>n. checked_sum Storage n out))"

definition undeliverable :: "env \<Rightarrow> JobConfig \<Rightarrow> JobRecord \<Rightarrow> JobError + nat option" where
  "undeliverable e cfg r =
     (if job_output r = None then Inr None
      else
        let snapshot = \<lparr>completion = r\<lparr>payload := None, admission := None, job_output := None,
                                        delivery_generation := u64_max, delivery_until := Some (max_utc (cod e))\<rparr>,
                        token = \<lparr>tk_job = job_id r, tk_generation = u64_max\<rparr>\<rparr>
        in and_then (stored_output_bytes e r) (\<lambda>n.
           and_then (delivery_bytes e snapshot (Some n)) (\<lambda>sz.
           and_then (checked_sum Storage sz 2) (\<lambda>pg.
           Inr (if max_page_bytes cfg < pg then Some pg else None)))))"

section \<open>Insertion and claim\<close>

definition insert_job :: "env \<Rightarrow> JobConfig \<Rightarrow> JobRecord \<Rightarrow> jobs_db \<Rightarrow> JobError + jobs_db" where
  "insert_job e cfg r db =
     and_then (if execution r = Model then candidate_page_bytes e r 2 (max_page_bytes cfg) False else Inr None) (\<lambda>_.
     if max_live_jobs cfg \<le> live_count (scope_of (job_id r)) db then Inl QueueFull
     else and_then (job_input_bytes (cod e) r) (\<lambda>own.
          and_then (checked_sum Storage (pu_bytes (usage e (scope_of (job_id r)) db)) own) (\<lambda>total.
          if max_pending_bytes cfg < total then Inl QueueFull else save e r db)))"

definition claim_job ::
  "env \<Rightarrow> JobConfig \<Rightarrow> time \<Rightarrow> JobRecord \<Rightarrow> jobs_db \<Rightarrow> JobError + (JobRecord option \<times> jobs_db)" where
  "claim_job e cfg now r db =
     (if \<not> claimable r now then Inr (None, db)
      else if cancel_requested r then
        and_then (finish e cfg (stopped_state r) now r) (\<lambda>r1.
        and_then (save e (delete_copies r1) db) (\<lambda>db1. Inr (None, db1)))
      else if max_attempts r \<le> generation r then
        and_then (finish e cfg Refused now r) (\<lambda>r1.
        and_then (save e r1 db) (\<lambda>db1. Inr (None, db1)))
      else
        and_then (checked_sum InvalidRequest (generation r) 1) (\<lambda>gen.
        and_then (deadline e now (claim_lease_seconds cfg)) (\<lambda>until.
        let r1 = r\<lparr>state := Running, generation := gen, lease_until := Some until\<rparr> in
        and_then (save e r1 db) (\<lambda>db1. Inr (Some r1, db1)))))"

section \<open>Requests\<close>

type_synonym job_result = "JobError + (JobResponse \<times> jobs_db)"

definition do_await_admission :: "env \<Rightarrow> JobScope \<Rightarrow> JobId \<Rightarrow> jobs_db \<Rightarrow> job_result" where
  "do_await_admission e sc j db =
     and_then (get sc j db) (\<lambda>r.
     if state r \<noteq> Pending \<or> execution r \<noteq> Model then Inl InvalidRequest
     else and_then (save e (r\<lparr>state := AwaitingAdmission\<rparr>) db) (\<lambda>db1. Inr (Resp_Done, db1)))"

definition do_admit :: "env \<Rightarrow> JobConfig \<Rightarrow> JobScope \<Rightarrow> JobId \<Rightarrow> bytes \<Rightarrow> jobs_db \<Rightarrow> job_result" where
  "do_admit e cfg sc j adm db =
     and_then (get sc j db) (\<lambda>r.
     if \<not> (state r = Pending \<or> state r = AwaitingAdmission) \<or> execution r \<noteq> Model \<or> adm = [] then Inl InvalidRequest
     else if admission r = Some adm then Inr (Resp_Done, db)
     else
       let r1 = r\<lparr>admission := Some adm, state := Pending\<rparr> in
       and_then (candidate_page_bytes e r1 2 (max_page_bytes cfg) False) (\<lambda>_.
       and_then (save e r1 db) (\<lambda>db1.
       if max_pending_bytes cfg < pu_bytes (usage e sc db1) then Inl QueueFull else Inr (Resp_Done, db1))))"

definition job_diagnostic :: "JobRecord \<Rightarrow> JobDiagnostic" where
  "job_diagnostic r = \<lparr>jd_id = job_id r, jd_state = state r, jd_code = diagnostic r\<rparr>"

definition diagnostic_page :: "JobRecord list \<Rightarrow> DiagnosticPage" where
  "diagnostic_page rs =
     \<lparr>dp_items = map job_diagnostic rs,
      dp_after = (if rs = [] then None else Some (ident (job_id (last rs))))\<rparr>"

definition do_admission_notices ::
  "env \<Rightarrow> JobConfig \<Rightarrow> JobScope \<Rightarrow> time \<Rightarrow> string option \<Rightarrow> nat \<Rightarrow> jobs_db \<Rightarrow> job_result" where
  "do_admission_notices e cfg sc now after limit db =
     and_then (page cfg limit) (\<lambda>_.
     and_then (select_rows e sc (Q_Admission after) now limit db) (\<lambda>rs.
     Inr (Resp_Diagnostics (diagnostic_page rs), db)))"

definition new_job :: "env \<Rightarrow> JobScope \<Rightarrow> string \<Rightarrow> time \<Rightarrow> time option \<Rightarrow> JobSpec \<Rightarrow> JobRecord" where
  "new_job e sc i now until sp =
     \<lparr>job_id = \<lparr>scope_of = sc, ident = i\<rparr>, key = sp_key sp, digest = sha256_hex (cod e) (sp_payload sp),
      job_group = sp_group sp, owners = sp_owners sp, kind = sp_kind sp, execution = sp_execution sp,
      state = Pending, final_state = None, payload = Some (sp_payload sp), admission = sp_admission sp,
      max_attempts = sp_max_attempts sp, generation = 0, lease_until = None, cancel_requested = False,
      purged = False, job_output = None, output_bytes = 0, origin = None, receipt = None,
      recovery_until = until, result_expired = False, created_at = now, finished_at = None,
      delivery_generation = 0, delivery_until = None, diagnostic = None\<rparr>"

text \<open>\<open>n\<close> counts the identities drawn so far.\<close>

fun enqueue_loop ::
  "env \<Rightarrow> JobConfig \<Rightarrow> JobScope \<Rightarrow> time \<Rightarrow> nat \<Rightarrow> JobSpec list \<Rightarrow> jobs_db \<Rightarrow> JobError + (Enqueued list \<times> jobs_db)" where
  "enqueue_loop e cfg sc now n [] db = Inr ([], db)"
| "enqueue_loop e cfg sc now n (sp # sps) db =
     (if sp_key sp = [] \<or> sp_kind sp = [] \<or> sp_max_attempts sp = 0 then Inl InvalidRequest
      else and_then (optional_time e (sp_recovery_until sp)) (\<lambda>until.
        case by_key db sc (sp_key sp) of
          Some r \<Rightarrow>
            if digest r \<noteq> sha256_hex (cod e) (sp_payload sp) then Inl KeyConflict
            else and_then (enqueue_loop e cfg sc now n sps db) (\<lambda>(outs, db1).
                 Inr ((if acked (state r) then AlreadyDone r else Joined (job_id r)) # outs, db1))
        | None \<Rightarrow>
            let r = new_job e sc (new_id e n) now until sp in
            and_then (insert_job e cfg r db) (\<lambda>db1.
            and_then (enqueue_loop e cfg sc now (Suc n) sps db1) (\<lambda>(outs, db2).
            Inr (Inserted (job_id r) # outs, db2)))))"

definition do_enqueue :: "env \<Rightarrow> JobConfig \<Rightarrow> JobScope \<Rightarrow> time \<Rightarrow> JobSpec list \<Rightarrow> jobs_db \<Rightarrow> job_result" where
  "do_enqueue e cfg sc now sps db =
     and_then (ensure (length sps \<le> max_batch cfg) InvalidRequest) (\<lambda>_.
     and_then (enqueue_loop e cfg sc now 0 sps db) (\<lambda>(outs, db1). Inr (Resp_Enqueued outs, db1)))"

fun claim_loop ::
  "env \<Rightarrow> JobConfig \<Rightarrow> time \<Rightarrow> JobRecord list \<Rightarrow> jobs_db \<Rightarrow> JobError + (JobRecord option \<times> jobs_db)" where
  "claim_loop e cfg now [] db = Inr (None, db)"
| "claim_loop e cfg now (r # rs) db =
     and_then (claim_job e cfg now r db) (\<lambda>(got, db1).
     case got of Some r1 \<Rightarrow> Inr (Some r1, db1) | None \<Rightarrow> claim_loop e cfg now rs db1)"

definition do_claim ::
  "env \<Rightarrow> JobConfig \<Rightarrow> JobScope \<Rightarrow> time \<Rightarrow> string list \<Rightarrow> nat \<Rightarrow> jobs_db \<Rightarrow> job_result" where
  "do_claim e cfg sc now kinds slots db =
     and_then (ensure (kinds \<noteq> []) InvalidRequest) (\<lambda>_.
     if slots = 0 then Inr (Resp_Job None, db)
     else and_then (select_rows e sc (Q_Pending kinds) now (max_page cfg) db) (\<lambda>rs.
          and_then (claim_loop e cfg now rs db) (\<lambda>(got, db1). Inr (Resp_Job got, db1))))"

fun candidate_loop :: "env \<Rightarrow> nat \<Rightarrow> nat \<Rightarrow> bool \<Rightarrow> JobRecord list \<Rightarrow> JobError + JobRecord list" where
  "candidate_loop e max_bytes used comma [] = Inr []"
| "candidate_loop e max_bytes used comma (r # rs) =
     and_then (candidate_page_bytes e r used max_bytes comma) (\<lambda>required.
     case required of
       None \<Rightarrow> Inr []
     | Some b \<Rightarrow> and_then (candidate_loop e max_bytes b True rs) (\<lambda>pg. Inr (r # pg)))"

definition do_candidates ::
  "env \<Rightarrow> JobConfig \<Rightarrow> JobScope \<Rightarrow> time \<Rightarrow> JobQuery \<Rightarrow> string list \<Rightarrow> nat \<Rightarrow> nat \<Rightarrow> jobs_db \<Rightarrow> job_result" where
  "do_candidates e cfg sc now q kinds limit max_bytes db =
     and_then (page cfg limit) (\<lambda>_.
     and_then (ensure (kinds \<noteq> []) InvalidRequest) (\<lambda>_.
     and_then (ensure (2 \<le> max_bytes \<and> max_bytes \<le> max_page_bytes cfg) InvalidRequest) (\<lambda>_.
     and_then (select_rows e sc q now limit db) (\<lambda>rs.
     and_then (candidate_loop e max_bytes 2 False rs) (\<lambda>pg. Inr (Resp_Candidates pg, db))))))"

definition do_refuse_pending ::
  "env \<Rightarrow> JobConfig \<Rightarrow> JobScope \<Rightarrow> time \<Rightarrow> JobId \<Rightarrow> DiagnosticCode \<Rightarrow> jobs_db \<Rightarrow> job_result" where
  "do_refuse_pending e cfg sc now j diag db =
     and_then (get sc j db) (\<lambda>r.
     if execution r \<noteq> Model then Inl InvalidRequest
     else if state r = Pending then
       and_then (finish e cfg Refused now (r\<lparr>diagnostic := Some diag\<rparr>)) (\<lambda>r1.
       and_then (save e r1 db) (\<lambda>db1. Inr (Resp_Done, db1)))
     else Inr (Resp_Done, db))"

definition do_claim_paid ::
  "env \<Rightarrow> JobConfig \<Rightarrow> JobScope \<Rightarrow> time \<Rightarrow> JobId \<Rightarrow> string \<Rightarrow> jobs_db \<Rightarrow> job_result" where
  "do_claim_paid e cfg sc now j rc db =
     and_then (get sc j db) (\<lambda>r.
     if execution r \<noteq> Model \<or> rc = [] then Inl InvalidRequest
     else and_then (claim_job e cfg now r db) (\<lambda>(got, db1).
       case got of
         None \<Rightarrow> Inr (Resp_Job None, db1)
       | Some r1 \<Rightarrow>
           let r2 = r1\<lparr>receipt := Some rc, origin := Some O_Paid\<rparr> in
           and_then (save e r2 db1) (\<lambda>db2. Inr (Resp_Job (Some r2), db2))))"

definition do_claim_job :: "env \<Rightarrow> JobConfig \<Rightarrow> JobScope \<Rightarrow> time \<Rightarrow> JobId \<Rightarrow> jobs_db \<Rightarrow> job_result" where
  "do_claim_job e cfg sc now j db =
     and_then (get sc j db) (\<lambda>r.
     and_then (claim_job e cfg now r db) (\<lambda>(got, db1). Inr (Resp_Job got, db1)))"

definition do_heartbeat ::
  "env \<Rightarrow> JobConfig \<Rightarrow> JobScope \<Rightarrow> time \<Rightarrow> JobId \<Rightarrow> nat \<Rightarrow> jobs_db \<Rightarrow> job_result" where
  "do_heartbeat e cfg sc now j gen db =
     and_then (scoped sc j) (\<lambda>_.
     and_then (row_metadata db j) (\<lambda>r.
     and_then (live r gen now) (\<lambda>_.
     and_then (deadline e now (claim_lease_seconds cfg)) (\<lambda>until.
     Inr (Resp_Heartbeat (cancel_requested r \<or> purged r),
          update_row j (\<lambda>r. r\<lparr>lease_until := restored e until\<rparr>) db)))))"

definition completion_state :: "JobState \<Rightarrow> bool" where
  "completion_state s \<longleftrightarrow> s = Succeeded \<or> s = Failed \<or> s = Cancelled \<or> s = Refused \<or> s = Uncertain"

text \<open>The two validations of a completion against the claimed row.\<close>

definition complete_mismatch :: "JobState \<Rightarrow> ResultOrigin \<Rightarrow> JobRecord \<Rightarrow> bool" where
  "complete_mismatch st og r \<longleftrightarrow>
     og = O_Paid \<and> execution r \<noteq> Model \<or> og = O_Handler \<and> execution r \<noteq> Handler \<or>
     st = Uncertain \<and> execution r \<noteq> Model"

definition complete_invalid ::
  "time \<Rightarrow> JobState \<Rightarrow> ResultOrigin \<Rightarrow> bytes option \<Rightarrow> string option \<Rightarrow> JobRecord \<Rightarrow> bool" where
  "complete_invalid now st og out rc r \<longleftrightarrow>
     \<not> completion_state st \<or> og = O_Paid \<and> out \<noteq> None \<or> og = O_Paid \<and> rc = None \<or>
     og \<noteq> O_Paid \<and> rc \<noteq> None \<or>
     st = Succeeded \<and> og \<noteq> O_Paid \<and> out = None \<and> \<not> purged r \<and>
       (case recovery_until r of None \<Rightarrow> True | Some until \<Rightarrow> now < until)"

definition do_complete ::
  "env \<Rightarrow> JobConfig \<Rightarrow> JobScope \<Rightarrow> time \<Rightarrow> JobId \<Rightarrow> nat \<Rightarrow> JobState \<Rightarrow> ResultOrigin \<Rightarrow> bytes option
    \<Rightarrow> string option \<Rightarrow> DiagnosticCode option \<Rightarrow> jobs_db \<Rightarrow> job_result" where
  "do_complete e cfg sc now j gen st og out rc diag db =
     and_then (get sc j db) (\<lambda>r.
     and_then (ensure (len out \<le> max_result_bytes cfg) (ResultTooLarge (job_id r) (len out))) (\<lambda>_.
     and_then (live r gen now) (\<lambda>_.
     and_then (ensure (\<not> complete_mismatch st og r) InvalidRequest) (\<lambda>_.
     and_then (ensure (\<not> complete_invalid now st og out rc r) InvalidRequest) (\<lambda>_.
     let r1 = r\<lparr>origin := Some og, receipt := rc, diagnostic := diag\<rparr> in
     if st = Uncertain then
       let r2 = r1\<lparr>state := Uncertain, lease_until := None\<rparr> in
       and_then (save e (if purged r2 then delete_copies r2 else r2) db) (\<lambda>db1. Inr (Resp_Done, db1))
     else if purged r1 then
       and_then (finish e cfg Purged now r1) (\<lambda>r2.
       and_then (save e (delete_copies r2) db) (\<lambda>db1. Inr (Resp_Done, db1)))
     else
       and_then (finish e cfg (if cancel_requested r1 then Cancelled else st) now (r1\<lparr>job_output := out\<rparr>)) (\<lambda>r2.
       and_then (case job_output r2 of None \<Rightarrow> Inr 0 | Some b \<Rightarrow> encoded_bytes (json_bytes (cod e) b)) (\<lambda>n.
       let r3 = r2\<lparr>output_bytes := n\<rparr> in
       and_then (undeliverable e cfg r3) (\<lambda>too_big.
       case too_big of
         None \<Rightarrow> and_then (save e r3 db) (\<lambda>db1. Inr (Resp_Done, db1))
       | Some bytes \<Rightarrow>
           let r4 = r3\<lparr>job_output := None, output_bytes := 0\<rparr>;
               r5 = (if state r4 \<noteq> Cancelled then r4\<lparr>state := Failed, diagnostic := Some QueueFailure\<rparr> else r4)
           in and_then (save e r5 db) (\<lambda>db1. Inr (Resp_ResultRefused bytes, db1))))))))))"

definition purged_or :: "JobRecord \<Rightarrow> JobState \<Rightarrow> JobState" where
  "purged_or r st = (if purged r then Purged else if cancel_requested r then Cancelled else st)"

fun resolved :: "env \<Rightarrow> JobConfig \<Rightarrow> time \<Rightarrow> JobResolution \<Rightarrow> JobRecord \<Rightarrow> JobError + JobRecord" where
  "resolved e cfg now (R_Uncertain rc) r =
     (if state r \<noteq> Running \<and> state r \<noteq> Uncertain then Inl InvalidRequest
      else Inr (r\<lparr>receipt := Some rc, state := Uncertain, lease_until := None,
                  diagnostic := Some SpendReconciliationRequired\<rparr>))"
| "resolved e cfg now (R_KnownZeroCharge rc) r =
     (if state r \<noteq> Running \<and> state r \<noteq> Uncertain then Inl InvalidRequest
      else
        let r1 = r\<lparr>receipt := Some rc, lease_until := None, diagnostic := None\<rparr> in
        if purged r1 then finish e cfg Purged now r1
        else if cancel_requested r1 then
          and_then (finish e cfg Cancelled now r1) (\<lambda>r2. Inr (delete_copies r2))
        else if max_attempts r1 \<le> generation r1 then
          finish e cfg Refused now (r1\<lparr>diagnostic := Some AttemptBudgetExhausted\<rparr>)
        else if admission r1 \<noteq> None then Inr (r1\<lparr>state := AwaitingAdmission\<rparr>)
        else Inr (r1\<lparr>state := Pending\<rparr>))"
| "resolved e cfg now (R_PaidResult rc until) r =
     and_then (optional_time e until) (\<lambda>until'.
     let r1 = r\<lparr>receipt := Some rc, diagnostic := None\<rparr>;
         r2 = (case until' of
                 None \<Rightarrow> r1
               | Some t \<Rightarrow> r1\<lparr>recovery_until := Some (case recovery_until r1 of None \<Rightarrow> t | Some c \<Rightarrow> min c t)\<rparr>)
     in finish e cfg (purged_or r2 Succeeded) now r2)"
| "resolved e cfg now (R_Failed rc diag) r =
     (let r1 = r\<lparr>receipt := Some rc, diagnostic := Some diag\<rparr> in
      finish e cfg (purged_or r1 Failed) now r1)"

definition do_resolve ::
  "env \<Rightarrow> JobConfig \<Rightarrow> JobScope \<Rightarrow> time \<Rightarrow> JobId \<Rightarrow> nat \<Rightarrow> JobResolution \<Rightarrow> jobs_db \<Rightarrow> job_result" where
  "do_resolve e cfg sc now j gen res db =
     and_then (get sc j db) (\<lambda>r.
     if execution r \<noteq> Model \<or> \<not> unfinished (state r) \<or> generation r \<noteq> gen then Inl StaleClaim
     else and_then (resolved e cfg now res (r\<lparr>origin := Some O_Paid\<rparr>)) (\<lambda>r1.
          and_then (save e (if purged r1 then delete_copies r1 else r1) db) (\<lambda>db1. Inr (Resp_Done, db1))))"

text \<open>The first loop of a completion page admits rows by size and writes nothing.\<close>

fun admit_loop ::
  "env \<Rightarrow> JobConfig \<Rightarrow> time \<Rightarrow> nat \<Rightarrow> nat \<Rightarrow> bool \<Rightarrow> JobRecord list \<Rightarrow> jobs_db
    \<Rightarrow> JobError + (JobRecord \<times> Delivery \<times> bool) list" where
  "admit_loop e cfg now max_bytes used comma [] db = Inr []"
| "admit_loop e cfg now max_bytes used comma (info # infos) db =
     and_then (row_metadata db (job_id info)) (\<lambda>m.
     let m1 = (if (case recovery_until m of None \<Rightarrow> False | Some until \<Rightarrow> until \<le> now)
               then delete_copies (m\<lparr>result_expired := True\<rparr>) else m) in
     and_then (checked_sum InvalidRequest (delivery_generation m1) 1) (\<lambda>gen.
     and_then (deadline e now (delivery_lease_seconds cfg)) (\<lambda>until.
     let r = m1\<lparr>delivery_generation := gen, delivery_until := Some until\<rparr>;
         d = \<lparr>completion = r, token = \<lparr>tk_job = job_id r, tk_generation = gen\<rparr>\<rparr>;
         has_output = (0 < output_bytes info \<and> \<not> result_expired r)
     in and_then (delivery_bytes e d (if has_output then Some (output_bytes info) else None)) (\<lambda>sz.
        and_then (admit_page_bytes sz used max_bytes comma (CompletionTooLarge (job_id r))) (\<lambda>required.
        case required of
          None \<Rightarrow> Inr []
        | Some b \<Rightarrow> and_then (admit_loop e cfg now max_bytes b True infos db) (\<lambda>rest.
                    Inr ((r, d, has_output) # rest)))))))"

fun deliver_loop ::
  "env \<Rightarrow> (JobRecord \<times> Delivery \<times> bool) list \<Rightarrow> jobs_db \<Rightarrow> JobError + (Delivery list \<times> jobs_db)" where
  "deliver_loop e [] db = Inr ([], db)"
| "deliver_loop e ((r, d, has_output) # rest) db =
     and_then (if has_output then
                 (case row_get db (job_id r) of
                    None \<Rightarrow> Inl Storage
                  | Some x \<Rightarrow> (case job_output x of
                      None \<Rightarrow> Inl Storage
                    | Some b \<Rightarrow> Inr (d\<lparr>completion := (completion d)\<lparr>job_output := Some b\<rparr>\<rparr>)))
               else Inr d) (\<lambda>d1.
     and_then (row_deliver e r (result_expired r) db) (\<lambda>db1.
     and_then (deliver_loop e rest db1) (\<lambda>(ds, db2). Inr (d1 # ds, db2))))"

definition do_completions ::
  "env \<Rightarrow> JobConfig \<Rightarrow> JobScope \<Rightarrow> time \<Rightarrow> nat \<Rightarrow> nat \<Rightarrow> jobs_db \<Rightarrow> job_result" where
  "do_completions e cfg sc now limit max_bytes db =
     and_then (page cfg limit) (\<lambda>_.
     and_then (ensure (2 \<le> max_bytes \<and> max_bytes \<le> max_page_bytes cfg) InvalidRequest) (\<lambda>_.
     and_then (select_rows e sc Q_Final now limit db) (\<lambda>infos.
     and_then (admit_loop e cfg now max_bytes 2 False infos db) (\<lambda>admitted.
     and_then (deliver_loop e admitted db) (\<lambda>(ds, db1). Inr (Resp_Deliveries ds, db1))))))"

definition ack_state :: "Disposition \<Rightarrow> JobState" where
  "ack_state d = (case d of D_Accepted \<Rightarrow> Accepted | D_Discarded \<Rightarrow> Discarded)"

fun ack_loop ::
  "env \<Rightarrow> JobScope \<Rightarrow> (DeliveryToken \<times> Disposition) list \<Rightarrow> jobs_db \<Rightarrow> JobError + (AckResult list \<times> jobs_db)" where
  "ack_loop e sc [] db = Inr ([], db)"
| "ack_loop e sc ((tk, d) # acks) db =
     and_then (get sc (tk_job tk) db) (\<lambda>r.
     if unfinished (state r) then Inl NotFinal
     else if tk_generation tk = 0 \<or> delivery_generation r < tk_generation tk then Inl InvalidRequest
     else if acked (state r) then
       and_then (ack_loop e sc acks db) (\<lambda>(rs, db1).
       Inr (AlreadyAcked (if state r = Accepted then D_Accepted else D_Discarded) # rs, db1))
     else
       and_then (save e (r\<lparr>final_state := Some (state r), state := ack_state d\<rparr>) db) (\<lambda>db1.
       and_then (ack_loop e sc acks db1) (\<lambda>(rs, db2). Inr (Acked d # rs, db2))))"

fun all_scoped :: "JobScope \<Rightarrow> JobId list \<Rightarrow> JobError + unit" where
  "all_scoped sc [] = Inr ()"
| "all_scoped sc (j # js) = and_then (scoped sc j) (\<lambda>_. all_scoped sc js)"

definition do_ack ::
  "env \<Rightarrow> JobConfig \<Rightarrow> JobScope \<Rightarrow> (DeliveryToken \<times> Disposition) list \<Rightarrow> jobs_db \<Rightarrow> job_result" where
  "do_ack e cfg sc acks db =
     and_then (ensure (\<not> (max_batch cfg < length acks \<or> max_page_bytes cfg < json_acks (cod e) acks)) InvalidRequest) (\<lambda>_.
     and_then (all_scoped sc (map (\<lambda>a. tk_job (fst a)) acks)) (\<lambda>_.
     and_then (ack_loop e sc acks db) (\<lambda>(rs, db1). Inr (Resp_Acks rs, db1))))"

fun get_all :: "JobScope \<Rightarrow> string list \<Rightarrow> jobs_db \<Rightarrow> JobError + JobRecord list" where
  "get_all sc [] db = Inr []"
| "get_all sc (i # is) db =
     and_then (get sc \<lparr>scope_of = sc, ident = i\<rparr> db) (\<lambda>r.
     and_then (get_all sc is db) (\<lambda>rs. Inr (r # rs)))"

fun cancel_loop ::
  "env \<Rightarrow> JobConfig \<Rightarrow> time \<Rightarrow> JobRecord list \<Rightarrow> jobs_db \<Rightarrow> JobError + (nat \<times> jobs_db)" where
  "cancel_loop e cfg now [] db = Inr (0, db)"
| "cancel_loop e cfg now (r # rs) db =
     (if \<not> unfinished (state r) then cancel_loop e cfg now rs db
      else
        and_then (if claimable r now \<or> state r = AwaitingAdmission
                  then and_then (finish e cfg (stopped_state r) now r) (\<lambda>r1. Inr (delete_copies r1))
                  else Inr (r\<lparr>cancel_requested := True\<rparr>)) (\<lambda>r1.
        and_then (save e r1 db) (\<lambda>db1.
        and_then (cancel_loop e cfg now rs db1) (\<lambda>(n, db2). Inr (Suc n, db2)))))"

definition do_cancel :: "env \<Rightarrow> JobConfig \<Rightarrow> JobScope \<Rightarrow> time \<Rightarrow> Selector \<Rightarrow> jobs_db \<Rightarrow> job_result" where
  "do_cancel e cfg sc now sel db =
     and_then (case sel of
         Ids js \<Rightarrow>
           and_then (ensure (length js \<le> max_batch cfg) InvalidRequest) (\<lambda>_.
           and_then (all_scoped sc js) (\<lambda>_. get_all sc (sort (remdups (map ident js))) db))
       | Group g \<Rightarrow> select_rows e sc (Q_Group g) now (live_count sc db) db) (\<lambda>rs.
     and_then (cancel_loop e cfg now rs db) (\<lambda>(n, db1). Inr (Resp_Changed n, db1)))"

definition erased :: "JobRecord \<Rightarrow> JobRecord" where
  "erased r = delete_copies (r\<lparr>purged := True, owners := [], cancel_requested := True\<rparr>)"

fun purge_loop :: "env \<Rightarrow> JobConfig \<Rightarrow> time \<Rightarrow> JobRecord list \<Rightarrow> jobs_db \<Rightarrow> JobError + jobs_db" where
  "purge_loop e cfg now [] db = Inr db"
| "purge_loop e cfg now (r # rs) db =
     (let r1 = erased r in
      and_then (if claimable r1 now \<or> state r1 \<noteq> Running \<and> state r1 \<noteq> Uncertain \<and> \<not> acked (state r1)
                then finish e cfg Purged now r1 else Inr r1) (\<lambda>r2.
      and_then (save e r2 db) (\<lambda>db1. purge_loop e cfg now rs db1)))"

definition do_purge_owner :: "env \<Rightarrow> JobConfig \<Rightarrow> JobScope \<Rightarrow> time \<Rightarrow> string \<Rightarrow> jobs_db \<Rightarrow> job_result" where
  "do_purge_owner e cfg sc now ow db =
     and_then (select_rows e sc (Q_Owner ow) now (live_count sc db) db) (\<lambda>rs.
     and_then (purge_loop e cfg now rs db) (\<lambda>db1. Inr (Resp_Changed (length rs), db1)))"

definition do_diagnostics ::
  "env \<Rightarrow> JobConfig \<Rightarrow> JobScope \<Rightarrow> time \<Rightarrow> string \<Rightarrow> string option \<Rightarrow> nat \<Rightarrow> jobs_db \<Rightarrow> job_result" where
  "do_diagnostics e cfg sc now g after limit db =
     and_then (page cfg limit) (\<lambda>_.
     and_then (select_rows e sc (Q_Diagnostics g after) now limit db) (\<lambda>rs.
     Inr (Resp_Diagnostics (diagnostic_page rs), db)))"

fun maintain_loop ::
  "env \<Rightarrow> JobConfig \<Rightarrow> nat \<Rightarrow> nat \<Rightarrow> JobRecord list \<Rightarrow> jobs_db \<Rightarrow> JobError + (nat \<times> jobs_db)" where
  "maintain_loop e cfg cnt bytes [] db = Inr (cnt, db)"
| "maintain_loop e cfg cnt bytes (r # rs) db =
     and_then (recovery_bytes e (job_id r) db) (\<lambda>n.
     and_then (checked_sum Storage bytes n) (\<lambda>required.
     if 0 < cnt \<and> maintenance_bytes_per_pass cfg < required then Inr (cnt, db)
     else
       let db1 = row_expire (job_id r) db in
       if maintenance_bytes_per_pass cfg \<le> required then Inr (Suc cnt, db1)
       else maintain_loop e cfg (Suc cnt) required rs db1))"

definition do_maintain :: "env \<Rightarrow> JobConfig \<Rightarrow> JobScope \<Rightarrow> time \<Rightarrow> jobs_db \<Rightarrow> job_result" where
  "do_maintain e cfg sc now db =
     and_then (select_rows e sc Q_Expired now (maintenance_batch cfg) db) (\<lambda>rs.
     and_then (maintain_loop e cfg 0 0 rs db) (\<lambda>(n, db1). Inr (Resp_Changed n, db1)))"

definition do_status :: "JobScope \<Rightarrow> JobId \<Rightarrow> jobs_db \<Rightarrow> job_result" where
  "do_status sc j db =
     and_then (scoped sc j) (\<lambda>_. and_then (row_metadata db j) (\<lambda>r. Inr (Resp_Job (Some r), db)))"

section \<open>Dispatch and transaction\<close>

definition config_valid :: "JobConfig \<Rightarrow> JobScope \<Rightarrow> bool" where
  "config_valid cfg sc \<longleftrightarrow>
     \<not> (version cfg \<noteq> 1 \<or> max_batch cfg = 0 \<or> max_page cfg = 0 \<or> max_live_jobs cfg = 0 \<or> max_page_bytes cfg < 2 \<or>
        max_result_bytes cfg = 0 \<or> maintenance_batch cfg = 0 \<or> maintenance_bytes_per_pass cfg = 0 \<or>
        claim_lease_seconds cfg = 0 \<or> delivery_lease_seconds cfg = 0 \<or>
        tenant sc = [] \<or> incarnation sc = [] \<or> queue sc = [])"

fun dispatch :: "env \<Rightarrow> JobConfig \<Rightarrow> JobScope \<Rightarrow> time \<Rightarrow> JobRequest \<Rightarrow> jobs_db \<Rightarrow> job_result" where
  "dispatch e cfg sc now (AwaitAdmission j) db = do_await_admission e sc j db"
| "dispatch e cfg sc now (Admit j adm) db = do_admit e cfg sc j adm db"
| "dispatch e cfg sc now (AdmissionNotices after limit) db = do_admission_notices e cfg sc now after limit db"
| "dispatch e cfg sc now (Enqueue sps) db = do_enqueue e cfg sc now sps db"
| "dispatch e cfg sc now (Claim kinds slots) db = do_claim e cfg sc now kinds slots db"
| "dispatch e cfg sc now (Candidates kinds limit max_bytes) db =
     do_candidates e cfg sc now (Q_Pending kinds) kinds limit max_bytes db"
| "dispatch e cfg sc now (RecoveryCandidates kinds after limit max_bytes) db =
     do_candidates e cfg sc now (Q_Recovery kinds after) kinds limit max_bytes db"
| "dispatch e cfg sc now (RefusePending j diag) db = do_refuse_pending e cfg sc now j diag db"
| "dispatch e cfg sc now (ClaimPaid j rc) db = do_claim_paid e cfg sc now j rc db"
| "dispatch e cfg sc now (ClaimJob j) db = do_claim_job e cfg sc now j db"
| "dispatch e cfg sc now (Heartbeat j gen) db = do_heartbeat e cfg sc now j gen db"
| "dispatch e cfg sc now (Complete j gen st og out rc diag) db = do_complete e cfg sc now j gen st og out rc diag db"
| "dispatch e cfg sc now (Resolve j gen res) db = do_resolve e cfg sc now j gen res db"
| "dispatch e cfg sc now (Completions limit max_bytes) db = do_completions e cfg sc now limit max_bytes db"
| "dispatch e cfg sc now (Ack acks) db = do_ack e cfg sc acks db"
| "dispatch e cfg sc now (Cancel sel) db = do_cancel e cfg sc now sel db"
| "dispatch e cfg sc now (PurgeOwner ow) db = do_purge_owner e cfg sc now ow db"
| "dispatch e cfg sc now (Diagnostics g after limit) db = do_diagnostics e cfg sc now g after limit db"
| "dispatch e cfg sc now Maintain db = do_maintain e cfg sc now db"
| "dispatch e cfg sc now (Status j) db = do_status sc j db"
| "dispatch e cfg sc now (Get j) db = and_then (get sc j db) (\<lambda>r. Inr (Resp_Job (Some r), db))"
| "dispatch e cfg sc now GetPendingUsage db = Inr (Resp_Usage (usage e sc db), db)"

definition apply_job_request :: "env \<Rightarrow> JobConfig \<Rightarrow> JobScope \<Rightarrow> time \<Rightarrow> JobRequest \<Rightarrow> jobs_db \<Rightarrow> job_result" where
  "apply_job_request e cfg sc clock rq db =
     and_then (millisecond_time e clock) (\<lambda>now.
     and_then (ensure (config_valid cfg sc) InvalidRequest) (\<lambda>_.
     and_then (deadline e now (claim_lease_seconds cfg)) (\<lambda>_.
     and_then (deadline e now (delivery_lease_seconds cfg)) (\<lambda>_.
     and_then (deadline e now (retention_seconds cfg)) (\<lambda>_.
     dispatch e cfg sc now rq db)))))"

text \<open>The savepoint: an error leaves the state as it was.\<close>

definition jobs_in_transaction ::
  "env \<Rightarrow> JobConfig \<Rightarrow> JobScope \<Rightarrow> time \<Rightarrow> JobRequest \<Rightarrow> jobs_db \<Rightarrow> (JobError + JobResponse) \<times> jobs_db" where
  "jobs_in_transaction e cfg sc clock rq db =
     (case apply_job_request e cfg sc clock rq db of
        Inl err \<Rightarrow> (Inl err, db)
      | Inr (resp, db1) \<Rightarrow> (Inr resp, db1))"

fun metadata_all :: "JobId list \<Rightarrow> jobs_db \<Rightarrow> JobError + JobRecord list" where
  "metadata_all [] db = Inr []"
| "metadata_all (j # js) db =
     and_then (row_metadata db j) (\<lambda>r. and_then (metadata_all js db) (\<lambda>rs. Inr (r # rs)))"

fun paid_copies_for_request ::
  "env \<Rightarrow> JobConfig \<Rightarrow> JobScope \<Rightarrow> time \<Rightarrow> JobRequest \<Rightarrow> jobs_db \<Rightarrow> JobError + JobRecord list" where
  "paid_copies_for_request e cfg sc now (Ack acks) db =
     and_then (ensure (length acks \<le> max_batch cfg) InvalidRequest) (\<lambda>_.
     and_then (all_scoped sc (map (\<lambda>a. tk_job (fst a)) acks)) (\<lambda>_.
     metadata_all (map (\<lambda>a. tk_job (fst a)) acks) db))"
| "paid_copies_for_request e cfg sc now (PurgeOwner ow) db =
     and_then (select_rows e sc (Q_Owner ow) now (live_count sc db) db) (\<lambda>rs. metadata_all (map job_id rs) db)"
| "paid_copies_for_request e cfg sc now Maintain db =
     and_then (select_rows e sc Q_Expired now (maintenance_batch cfg) db) (\<lambda>rs. metadata_all (map job_id rs) db)"
| "paid_copies_for_request e cfg sc now rq db = Inr []"

end
