(* ===== verification/Spend_Ledger.thy ===== *)
theory Spend_Ledger
  imports Spend_Types Job_Store
begin

text \<open>
  Crate \<^verbatim>\<open>symbiotic-ai-runtime\<close>, file \<^verbatim>\<open>spend.rs\<close>: the SQLite spend ledger.

  The state \<open>ledger\<close> is the content of the tables \<^verbatim>\<open>spend_accounts\<close> and \<^verbatim>\<open>spend_receipts\<close> (rows in
  \<^verbatim>\<open>rowid\<close> order, that is in the order of acceptance; no row is ever deleted). Columns that hold
  JSON hold the value itself, because every text in them was written by the ledger. The saved
  answer has its expiry as text, and SQL compares texts, like the source does. An operation maps
  the ledger to an error or to a result and the new ledger: the source commits only on success.
  \<open>spend_env\<close> collects the functions outside the ledger: the text of an instant and its parser, the
  end of the retention window, and the parsers and the hash that tie a receipt to a job. Each
  reading of the clock is an argument (\<open>clk\<close> where a receipt is read, \<open>now\<close> where the source
  is given the instant).
\<close>

section \<open>State\<close>

record spend_env =
  to_rfc3339 :: "time \<Rightarrow> string"
  parse_rfc3339 :: "string \<Rightarrow> time option"
  add_retention :: "time \<Rightarrow> time option"
  parse_invocation :: "string \<Rightarrow> (JobScope \<times> string) option"
  parse_binding :: "string \<Rightarrow> BindingIdentity option"
  execution_invocation_identity :: "BindingIdentity \<Rightarrow> string \<Rightarrow> ModelError + string"

record spend_row =
  sr_reference :: string
  sr_account :: string
  sr_invocation :: string
  sr_binding :: string
  sr_reservation :: SpendReservation
  sr_state :: SpendState
  sr_usage :: "UsageTrace option"
  sr_output :: "json_value option"
  handoff_input :: "string option"
  dispatch_owner :: "string option"
  pre_dispatch_released :: bool
  attempt_limit :: "nat option"
  attempts_used :: nat
  recovery :: "json_value option"
  recovery_expires_at :: "string option"

record ledger =
  spend_accounts :: "(string \<times> nat) list"
  spend_receipts :: "spend_row list"

definition empty_ledger :: ledger where
  "empty_ledger = \<lparr>spend_accounts = [], spend_receipts = []\<rparr>"

definition conflict :: ModelError where
  "conflict = M_Queue SpendReconciliationRequired"

fun state_name :: "SpendState \<Rightarrow> string" where
  "state_name S_Unknown = ''unknown''"
| "state_name S_Released = ''released''"
| "state_name S_Settled = ''settled''"

definition row_of :: "ledger \<Rightarrow> string \<Rightarrow> spend_row option" where
  "row_of lg ref = find (\<lambda>x. sr_reference x = ref) (spend_receipts lg)"

definition update_receipt :: "string \<Rightarrow> (spend_row \<Rightarrow> spend_row) \<Rightarrow> ledger \<Rightarrow> ledger" where
  "update_receipt ref f lg =
     lg\<lparr>spend_receipts := map (\<lambda>x. if sr_reference x = ref then f x else x) (spend_receipts lg)\<rparr>"

definition clear_recovery :: "spend_row \<Rightarrow> spend_row" where
  "clear_recovery x = x\<lparr>recovery := None, recovery_expires_at := None\<rparr>"

definition output_received :: json_value where
  "output_received = JObj [(''output_received'', JBool True)]"

section \<open>Reading\<close>

definition receipt_of :: "spend_env \<Rightarrow> time \<Rightarrow> spend_row \<Rightarrow> SpendReceipt" where
  "receipt_of env clk x =
     \<lparr>rc_reservation = sr_reservation x, rc_state = sr_state x, rc_pre_dispatch_released = pre_dispatch_released x,
      rc_usage = sr_usage x, rc_output = sr_output x, rc_attempt_limit = attempt_limit x,
      rc_attempts_used = attempts_used x,
      rc_recovery = (case recovery_expires_at x of
          None \<Rightarrow> None
        | Some t \<Rightarrow> if to_rfc3339 env clk < t then recovery x else None)\<rparr>"

definition receipt_in :: "spend_env \<Rightarrow> time \<Rightarrow> string \<Rightarrow> ledger \<Rightarrow> SpendReceipt option" where
  "receipt_in env clk ref lg = map_option (receipt_of env clk) (row_of lg ref)"

definition latest_row :: "string \<Rightarrow> string \<Rightarrow> ledger \<Rightarrow> spend_row option" where
  "latest_row acc iv lg =
     find (\<lambda>x. sr_account x = acc \<and> sr_invocation x = iv) (rev (spend_receipts lg))"

definition invocation_reference_in :: "string \<Rightarrow> string \<Rightarrow> ledger \<Rightarrow> ModelError + string option" where
  "invocation_reference_in acc iv lg =
     (case latest_row acc iv lg of
        None \<Rightarrow> Inr None
      | Some x \<Rightarrow> (case SpendReceiptRef_new (sr_reference x) of Inl _ \<Rightarrow> Inl spend_storage | Inr r \<Rightarrow> Inr (Some r)))"

definition invocation_in :: "spend_env \<Rightarrow> time \<Rightarrow> string \<Rightarrow> string \<Rightarrow> ledger \<Rightarrow> ModelError + SpendReceipt option" where
  "invocation_in env clk acc iv lg =
     and_then (invocation_reference_in acc iv lg) (\<lambda>ref.
     Inr (Option.bind ref (\<lambda>ref. receipt_in env clk ref lg)))"

section \<open>Reservation\<close>

definition account_used :: "string \<Rightarrow> ledger \<Rightarrow> nat" where
  "account_used acc lg = (case map_of (spend_accounts lg) acc of None \<Rightarrow> 0 | Some n \<Rightarrow> n)"

definition active_invocation :: "string \<Rightarrow> string \<Rightarrow> ledger \<Rightarrow> bool" where
  "active_invocation acc iv lg =
     list_ex (\<lambda>x. sr_account x = acc \<and> sr_invocation x = iv \<and> sr_state x = S_Unknown) (spend_receipts lg)"

definition new_receipt :: "SpendReservation \<Rightarrow> nat option \<Rightarrow> nat \<Rightarrow> spend_row" where
  "new_receipt r frozen used =
     \<lparr>sr_reference = rv_reference r, sr_account = rv_account r, sr_invocation = rv_invocation r,
      sr_binding = rv_binding r, sr_reservation = r, sr_state = S_Unknown, sr_usage = None, sr_output = None,
      handoff_input = None, dispatch_owner = None, pre_dispatch_released = False, attempt_limit = frozen,
      attempts_used = used, recovery = None, recovery_expires_at = None\<rparr>"

text \<open>The account update and the insertion of an accepted attempt.\<close>

definition charge_account :: "SpendReservation \<Rightarrow> nat option \<Rightarrow> nat \<Rightarrow> ledger \<Rightarrow> ModelError + (bool \<times> ledger)" where
  "charge_account r frozen used lg =
     (let n = account_used (rv_account r) lg in
      if n < i64_max \<and> (case rv_request_limit r of None \<Rightarrow> True | Some l \<Rightarrow> n < l)
      then Inr (True, lg\<lparr>spend_accounts := AList.update (rv_account r) (Suc n) (spend_accounts lg),
                         spend_receipts := spend_receipts lg @ [new_receipt r frozen used]\<rparr>)
      else Inl (M_BudgetExhausted SpendBudgetExhausted))"

definition reserve_with_limit_in ::
  "spend_env \<Rightarrow> time \<Rightarrow> SpendReservation \<Rightarrow> nat option \<Rightarrow> bool \<Rightarrow> ledger \<Rightarrow> ModelError + (bool \<times> ledger)" where
  "reserve_with_limit_in env clk r limit handoff lg =
     and_then (invocation_in env clk (rv_account r) (rv_invocation r) lg) (\<lambda>previous.
     if (case previous of None \<Rightarrow> False | Some p \<Rightarrow> rv_binding (rc_reservation p) \<noteq> rv_binding r) then Inl conflict
     else case receipt_in env clk (rv_reference r) lg of
       Some old \<Rightarrow> if rc_reservation old = r then Inr (False, lg) else Inl conflict
     | None \<Rightarrow>
         let explicit = (limit \<noteq> None \<or> (case previous of None \<Rightarrow> False | Some p \<Rightarrow> rc_attempt_limit p \<noteq> None)) in
         if (explicit \<or> handoff) \<and> (case previous of None \<Rightarrow> False | Some p \<Rightarrow> rc_output p \<noteq> None)
         then Inl (if explicit then M_Queue InvocationCompleted else conflict)
         else if (explicit \<or> handoff) \<and> (case previous of None \<Rightarrow> False | Some p \<Rightarrow> rc_state p = S_Settled)
         then Inl conflict
         else if active_invocation (rv_account r) (rv_invocation r) lg then Inl conflict
         else
           let frozen = (case Option.bind previous rc_attempt_limit of Some l \<Rightarrow> Some l | None \<Rightarrow> limit);
               used = (case previous of None \<Rightarrow> 0 | Some p \<Rightarrow> rc_attempts_used p) in
           if (case frozen of None \<Rightarrow> False | Some l \<Rightarrow> l \<le> used) then Inl (M_BudgetExhausted AttemptBudgetExhausted)
           else if frozen \<noteq> None \<and> u32_max < used + 1 then Inl spend_storage
           else if (case rv_request_limit r of None \<Rightarrow> False | Some l \<Rightarrow> i64_max < l) then Inl spend_storage
           else charge_account r frozen (if frozen \<noteq> None then used + 1 else 0) lg)"

definition reserve_in :: "spend_env \<Rightarrow> time \<Rightarrow> SpendReservation \<Rightarrow> ledger \<Rightarrow> ModelError + (bool \<times> ledger)" where
  "reserve_in env clk r lg = reserve_with_limit_in env clk r None False lg"

definition reserve_explicit :: "spend_env \<Rightarrow> time \<Rightarrow> SpendReservation \<Rightarrow> nat \<Rightarrow> ledger \<Rightarrow> ModelError + (bool \<times> ledger)" where
  "reserve_explicit env clk r limit lg = reserve_with_limit_in env clk r (Some limit) False lg"

definition reserve_handoff_in ::
  "spend_env \<Rightarrow> time \<Rightarrow> AcceptedSpendHandoff \<Rightarrow> ledger \<Rightarrow> ModelError + (bool \<times> ledger)" where
  "reserve_handoff_in env clk h lg =
     (if ho_input_identity h = [] then Inl conflict
      else and_then (reserve_with_limit_in env clk (ho_reservation h) None True lg) (\<lambda>(accepted, lg1).
        if \<not> accepted then
          (case row_of lg1 (rv_reference (ho_reservation h)) of
             None \<Rightarrow> Inl spend_storage
           | Some x \<Rightarrow> if handoff_input x = Some (ho_input_identity h) then Inr (False, lg1) else Inl conflict)
        else Inr (True, update_receipt (rv_reference (ho_reservation h))
               (\<lambda>x. x\<lparr>handoff_input := Some (ho_input_identity h)\<rparr>) lg1)))"

definition acquire_handoff ::
  "spend_env \<Rightarrow> time \<Rightarrow> AcceptedSpendHandoff \<Rightarrow> string \<Rightarrow> string \<Rightarrow> string \<Rightarrow> ledger \<Rightarrow> ModelError + ledger" where
  "acquire_handoff env clk h acc input owner lg =
     (let ref = rv_reference (ho_reservation h) in
      case receipt_in env clk ref lg of
        None \<Rightarrow> Inl conflict
      | Some old \<Rightarrow>
          if rc_reservation old \<noteq> ho_reservation h \<or> rc_state old \<noteq> S_Unknown \<or>
             rv_account (rc_reservation old) \<noteq> acc \<or> ho_input_identity h \<noteq> input \<or> owner = []
          then Inl conflict
          else (case row_of lg ref of
              None \<Rightarrow> Inl conflict
            | Some x \<Rightarrow>
                if handoff_input x = Some input \<and> dispatch_owner x = None \<and> sr_state x = S_Unknown
                then Inr (update_receipt ref (\<lambda>x. x\<lparr>dispatch_owner := Some owner\<rparr>) lg)
                else Inl conflict))"

section \<open>Settlement\<close>

definition finish_in ::
  "spend_env \<Rightarrow> time \<Rightarrow> string \<Rightarrow> SpendState \<Rightarrow> UsageTrace option \<Rightarrow> json_value option \<Rightarrow> ledger \<Rightarrow> ModelError + ledger" where
  "finish_in env clk ref st use out lg =
     (case receipt_in env clk ref lg of
        None \<Rightarrow> Inl conflict
      | Some old \<Rightarrow>
          if st = S_Settled \<and> (case use of None \<Rightarrow> True | Some u \<Rightarrow> \<not> has_measured_usage u) \<or>
             st = S_Released \<and> (rc_output old \<noteq> None \<or> out \<noteq> None)
          then Inl conflict
          else
            let out' = (if out \<noteq> None then Some output_received else rc_output old) in
            if rc_state old \<noteq> S_Unknown then
              (if rc_state old = st \<and> rc_usage old = use \<and> rc_output old = out' then Inr lg else Inl conflict)
            else
              and_then (if st = S_Released then
                  (let a = rv_account (rc_reservation old) in
                   case map_of (spend_accounts lg) a of
                     None \<Rightarrow> Inl spend_storage
                   | Some n \<Rightarrow> if 0 < n then Inr (lg\<lparr>spend_accounts := AList.update a (n - 1) (spend_accounts lg)\<rparr>)
                               else Inl spend_storage)
                else Inr lg) (\<lambda>lg1.
              Inr (update_receipt ref (\<lambda>x. x\<lparr>sr_state := st, sr_usage := use, sr_output := out'\<rparr>) lg1)))"

definition release_in :: "spend_env \<Rightarrow> time \<Rightarrow> string \<Rightarrow> ledger \<Rightarrow> ModelError + ledger" where
  "release_in env clk ref lg =
     (case receipt_in env clk ref lg of
        None \<Rightarrow> Inl conflict
      | Some old \<Rightarrow>
          if rc_state old \<noteq> S_Unknown \<and> \<not> rc_pre_dispatch_released old then Inl conflict
          else and_then (finish_in env clk ref S_Released None None lg) (\<lambda>lg1.
            Inr (update_receipt ref
              (\<lambda>x. x\<lparr>pre_dispatch_released := True,
                     attempts_used := (if attempt_limit x \<noteq> None \<and> \<not> pre_dispatch_released x
                                       then attempts_used x - 1 else attempts_used x)\<rparr>) lg1)))"


section \<open>Saved answers\<close>

text \<open>
  The job a receipt belongs to, found by scope and key. \<open>bindings\<close> is the table
  \<^verbatim>\<open>model_job_bindings\<close>; a tombstone keeps its kind exactly for a model job. The result says whether
  the job forbids a saved answer, and the job's own deadline.
\<close>

definition job_recovery_policy ::
  "spend_env \<Rightarrow> jobs_db \<Rightarrow> ((JobScope \<times> string) \<times> string) list \<Rightarrow> string option \<Rightarrow> string
    \<Rightarrow> ModelError + (bool \<times> time option)" where
  "job_recovery_policy env jdb bindings invocation bound =
     (case Option.bind invocation (\<lambda>i. map_option (\<lambda>p. (i, p)) (parse_invocation env i)) of
        None \<Rightarrow> Inr (False, None)
      | Some (i, (sc, k)) \<Rightarrow>
          (case by_key jdb sc k of
             None \<Rightarrow> Inr (False, None)
           | Some r \<Rightarrow>
               if execution r \<noteq> Model then Inr (False, None)
               else (case Option.bind (map_of bindings (sc, kind r)) (parse_binding env) of
                   None \<Rightarrow> Inl spend_storage
                 | Some b \<Rightarrow>
                     and_then (execution_invocation_identity env b i) (\<lambda>ident.
                     if ident \<noteq> bound then Inr (False, None)
                     else Inr (purged r \<or> final_state r = Some Purged \<or> acked (state r), recovery_until r)))))"

definition earlier :: "time option \<Rightarrow> time option \<Rightarrow> time option" where
  "earlier a b = (case (a, b) of (Some x, Some y) \<Rightarrow> Some (min x y) | (None, _) \<Rightarrow> b | (_, None) \<Rightarrow> a)"

definition constrain_job_recovery_in ::
  "spend_env \<Rightarrow> jobs_db \<Rightarrow> ((JobScope \<times> string) \<times> string) list \<Rightarrow> string \<Rightarrow> string \<Rightarrow> time \<Rightarrow> ledger
    \<Rightarrow> ModelError + ((bool \<times> time option) \<times> ledger)" where
  "constrain_job_recovery_in env jdb bindings ref invocation now lg =
     (case row_of lg ref of
        None \<Rightarrow> Inl spend_storage
      | Some x \<Rightarrow>
          and_then (job_recovery_policy env jdb bindings (Some invocation) (sr_invocation x)) (\<lambda>(prohibited, job_deadline).
          and_then (case recovery_expires_at x of
              None \<Rightarrow> Inr None
            | Some t \<Rightarrow> (case parse_rfc3339 env t of None \<Rightarrow> Inl spend_storage | Some u \<Rightarrow> Inr (Some u))) (\<lambda>saved.
          let until = map_option (\<lambda>u. case job_deadline of None \<Rightarrow> u | Some j \<Rightarrow> min j u) saved in
          if prohibited \<or> (case until of None \<Rightarrow> False | Some u \<Rightarrow> u \<le> now)
          then Inr ((prohibited, until), update_receipt ref clear_recovery lg)
          else case until of
            Some u \<Rightarrow> Inr ((prohibited, until),
                        update_receipt ref (\<lambda>x. x\<lparr>recovery_expires_at := Some (to_rfc3339 env u)\<rparr>) lg)
          | None \<Rightarrow> Inr ((prohibited, until), lg))))"

definition save_recovery_in ::
  "spend_env \<Rightarrow> jobs_db \<Rightarrow> ((JobScope \<times> string) \<times> string) list \<Rightarrow> time \<Rightarrow> string \<Rightarrow> json_value option \<Rightarrow> time option
    \<Rightarrow> string option \<Rightarrow> time \<Rightarrow> ledger \<Rightarrow> ModelError + ledger" where
  "save_recovery_in env jdb bindings clk ref out deadline0 invocation now lg =
     (if out = Some output_received then Inr lg
      else case receipt_in env clk ref lg of
        None \<Rightarrow> Inl conflict
      | Some old \<Rightarrow>
          and_then (job_recovery_policy env jdb bindings invocation (rv_invocation (rc_reservation old))) (\<lambda>(erased, job_deadline).
          let deadline1 = earlier deadline0 job_deadline in
          if rc_attempt_limit old \<noteq> None \<and> rc_output old \<noteq> None \<and> out \<noteq> None \<and> rc_recovery old \<noteq> out
          then Inl conflict
          else if rc_attempt_limit old \<noteq> None \<and> rc_output old = None \<and> out \<noteq> None then
            (case add_retention env now of
               None \<Rightarrow> Inl spend_storage
             | Some ex \<Rightarrow>
                 let expires = (case deadline1 of None \<Rightarrow> ex | Some u \<Rightarrow> min u ex) in
                 if erased \<or> (case deadline1 of None \<Rightarrow> False | Some u \<Rightarrow> u \<le> now) then Inr lg
                 else Inr (update_receipt ref
                        (\<lambda>x. x\<lparr>recovery := out, recovery_expires_at := Some (to_rfc3339 env expires)\<rparr>) lg))
          else Inr lg))"

definition spend_finish ::
  "spend_env \<Rightarrow> jobs_db \<Rightarrow> ((JobScope \<times> string) \<times> string) list \<Rightarrow> time \<Rightarrow> string \<Rightarrow> SpendState \<Rightarrow> UsageTrace option
    \<Rightarrow> json_value option \<Rightarrow> string option \<Rightarrow> time \<Rightarrow> ledger \<Rightarrow> ModelError + ledger" where
  "spend_finish env jdb bindings clk ref st use out invocation now lg =
     and_then (save_recovery_in env jdb bindings clk ref out None invocation now lg) (\<lambda>lg1.
     finish_in env clk ref st use out lg1)"

definition discard_recovery :: "string \<Rightarrow> string \<Rightarrow> ledger \<Rightarrow> ledger" where
  "discard_recovery acc iv lg =
     (case latest_row acc iv lg of
        None \<Rightarrow> lg
      | Some x \<Rightarrow> update_receipt (sr_reference x) clear_recovery lg)"

fun matching_refs :: "(json_value \<Rightarrow> ModelError + bool) \<Rightarrow> spend_row list \<Rightarrow> ModelError + string list" where
  "matching_refs matches [] = Inr []"
| "matching_refs matches (x # xs) =
     (case recovery x of
        None \<Rightarrow> matching_refs matches xs
      | Some v \<Rightarrow>
          and_then (matches v) (\<lambda>m.
          and_then (matching_refs matches xs) (\<lambda>refs. Inr (if m then sr_reference x # refs else refs))))"

definition purge_recovery :: "(json_value \<Rightarrow> ModelError + bool) \<Rightarrow> ledger \<Rightarrow> ModelError + (nat \<times> ledger)" where
  "purge_recovery matches lg =
     and_then (matching_refs matches (spend_receipts lg)) (\<lambda>refs.
     Inr (length refs, fold (\<lambda>ref. update_receipt ref clear_recovery) refs lg))"

text \<open>One batch of the expiry loop: at most 64 rows, earliest expiry first.\<close>

definition recovery_due :: "string \<Rightarrow> spend_row \<Rightarrow> bool" where
  "recovery_due now x \<longleftrightarrow> recovery x \<noteq> None \<and> (case recovery_expires_at x of None \<Rightarrow> False | Some t \<Rightarrow> t \<le> now)"

definition expiry_batch :: "string \<Rightarrow> ledger \<Rightarrow> string list" where
  "expiry_batch now lg =
     map sr_reference (take 64 (sort_key (\<lambda>x. case recovery_expires_at x of None \<Rightarrow> [] | Some t \<Rightarrow> t)
       (filter (recovery_due now) (spend_receipts lg))))"

definition expire_batch :: "string \<Rightarrow> ledger \<Rightarrow> nat \<times> ledger" where
  "expire_batch now lg =
     (length (expiry_batch now lg),
      lg\<lparr>spend_receipts := map (\<lambda>x. if sr_reference x \<in> set (expiry_batch now lg) then clear_recovery x else x)
          (spend_receipts lg)\<rparr>)"

definition recoveries_due :: "string \<Rightarrow> ledger \<Rightarrow> nat" where
  "recoveries_due now lg = length (filter (recovery_due now) (spend_receipts lg))"

lemma expire_batch_less:
  assumes "fst (expire_batch now lg) \<noteq> 0"
  shows "recoveries_due now (snd (expire_batch now lg)) < recoveries_due now lg"
proof -
  let ?due = "filter (recovery_due now) (spend_receipts lg)"
  let ?B = "set (expiry_batch now lg)"
  let ?T = "take 64 (sort_key (\<lambda>x. case recovery_expires_at x of None \<Rightarrow> [] | Some t \<Rightarrow> t) ?due)"
  have "expiry_batch now lg = map sr_reference ?T" by (simp only: expiry_batch_def)
  then have "?T \<noteq> []" using assms unfolding expire_batch_def by fastforce
  then obtain x where x: "x \<in> set ?T" using list.set_sel(1) by blast
  have xd: "x \<in> set (spend_receipts lg)" "recovery_due now x" using in_set_takeD [OF x] by auto
  have xb: "sr_reference x \<in> ?B" using x by (auto simp: expiry_batch_def)
  have "\<not> recovery_due now (clear_recovery y)" for y by (simp add: recovery_due_def clear_recovery_def)
  then have "recoveries_due now (snd (expire_batch now lg)) =
      length (filter (\<lambda>y. recovery_due now y \<and> sr_reference y \<notin> ?B) (spend_receipts lg))"
    by (simp add: recoveries_due_def expire_batch_def filter_map comp_def if_distrib conj_commute cong: filter_cong conj_cong)
  also have "\<dots> = length (filter (\<lambda>y. sr_reference y \<notin> ?B) ?due)" by simp
  also have "\<dots> < length ?due" by (rule length_filter_less [of x]) (use xd xb in simp_all)
  finally show ?thesis by (simp add: recoveries_due_def)
qed

function expire_loop :: "string \<Rightarrow> nat \<Rightarrow> ledger \<Rightarrow> nat \<times> ledger" where
  "expire_loop now removed lg =
     (let (batch, lg1) = expire_batch now lg in
      if batch = 0 then (removed, lg1) else expire_loop now (removed + batch) lg1)"
  by pat_completeness auto
termination
  by (relation "measure (\<lambda>(now, removed, lg). recoveries_due now lg)")
     (simp, metis expire_batch_less fst_conv in_measure case_prod_conv snd_conv)

declare expire_loop.simps [simp del]

definition expire_recovery :: "spend_env \<Rightarrow> time \<Rightarrow> ledger \<Rightarrow> nat \<times> ledger" where
  "expire_recovery env clk lg = expire_loop (to_rfc3339 env clk) 0 lg"

end
