(* ===== verification/Store_Contract.thy ===== *)
theory Store_Contract
  imports Prelude
begin

text \<open>
  The contract of a store that never loses a record.

  A store has states with a well-formedness predicate \<open>ok\<close>, one-step transitions \<open>step\<close>, a lookup
  of records by identity and a relation \<open>ev\<close> between a record and what may become of it. If every
  step keeps \<open>ok\<close> and moves each record along \<open>ev\<close>, then so does every run of the store. A predicate
  of a record that \<open>ev\<close> keeps is sticky: once it holds it holds in all later states.
\<close>

locale persistent_store =
  fixes ok :: "'s \<Rightarrow> bool"
    and step :: "'s \<Rightarrow> 's \<Rightarrow> bool"
    and lookup :: "'s \<Rightarrow> 'k \<Rightarrow> 'r option"
    and ev :: "'r \<Rightarrow> 'r \<Rightarrow> bool"
  assumes step_ok: "ok s \<Longrightarrow> step s t \<Longrightarrow> ok t"
    and step_ev: "ok s \<Longrightarrow> step s t \<Longrightarrow> lookup s k = Some r \<Longrightarrow> \<exists>r'. lookup t k = Some r' \<and> ev r r'"
    and ev_refl: "ev r r"
    and ev_trans: "ev a b \<Longrightarrow> ev b c \<Longrightarrow> ev a c"
begin

lemma run_ok:
  assumes "step\<^sup>*\<^sup>* s t" and "ok s"
  shows "ok t"
  using assms by (induction rule: rtranclp_induct) (auto intro: step_ok)

lemma run_ev:
  assumes "step\<^sup>*\<^sup>* s t" and "ok s" and "lookup s k = Some r"
  shows "\<exists>r'. lookup t k = Some r' \<and> ev r r'"
  using assms
proof (induction rule: rtranclp_induct)
  case base
  then show ?case using ev_refl by blast
next
  case (step t u)
  from step obtain r' where r': "lookup t k = Some r'" "ev r r'" by blast
  have "ok t" using run_ok step by blast
  from step_ev [OF this step(2) r'(1)] r'(2) ev_trans show ?case by blast
qed

lemma run_sticky:
  assumes "\<And>a b. ev a b \<Longrightarrow> P a \<Longrightarrow> P b"
    and "step\<^sup>*\<^sup>* s t" and "ok s" and "lookup s k = Some r" and "P r"
  shows "\<exists>r'. lookup t k = Some r' \<and> ev r r' \<and> P r'"
  using run_ev [OF assms(2-4)] assms(1,5) by blast

end

end
