(* ===== verification/Spend_Ledger_Props.thy ===== *)
theory Spend_Ledger_Props
  imports Spend_Ledger Store_Contract
begin

text \<open>
  The correctness of the spend ledger: what an account has used is exactly the number of its
  receipts that are not released, an invocation has at most one open attempt, an attempt budget
  is never exceeded, a settlement and a dispatch ownership are final. The ledger is a second
  instance of the contract \<open>persistent_store\<close>.
\<close>

section \<open>Invariant\<close>

definition charged :: "string \<Rightarrow> ledger \<Rightarrow> nat" where
  "charged acc lg = length (filter (\<lambda>x. sr_account x = acc \<and> sr_state x \<noteq> S_Released) (spend_receipts lg))"

definition receipt_ok :: "spend_row \<Rightarrow> bool" where
  "receipt_ok x \<longleftrightarrow>
     sr_reference x = rv_reference (sr_reservation x) \<and> sr_account x = rv_account (sr_reservation x) \<and>
     sr_invocation x = rv_invocation (sr_reservation x) \<and> sr_binding x = rv_binding (sr_reservation x) \<and>
     (case attempt_limit x of
        None \<Rightarrow> attempts_used x = 0
      | Some l \<Rightarrow> attempts_used x \<le> l \<and> (\<not> pre_dispatch_released x \<longrightarrow> 1 \<le> attempts_used x)) \<and>
     (sr_state x = S_Settled \<longrightarrow> (\<exists>u. sr_usage x = Some u \<and> has_measured_usage u)) \<and>
     (sr_state x = S_Released \<longrightarrow> sr_output x = None) \<and> (pre_dispatch_released x \<longrightarrow> sr_state x = S_Released) \<and>
     sr_output x \<in> {None, Some output_received}"

text \<open>
  The attempts of an invocation, oldest first. Only the latest may be open, it counts the attempts
  under the limit that were not released before dispatch, and it carries the frozen limit.
\<close>

definition attempts :: "string \<Rightarrow> string \<Rightarrow> ledger \<Rightarrow> spend_row list" where
  "attempts acc iv lg = filter (\<lambda>x. sr_account x = acc \<and> sr_invocation x = iv) (spend_receipts lg)"

definition counted :: "spend_row \<Rightarrow> bool" where
  "counted x \<longleftrightarrow> attempt_limit x \<noteq> None \<and> \<not> pre_dispatch_released x"

definition hist_ok :: "spend_row list \<Rightarrow> bool" where
  "hist_ok rs \<longleftrightarrow> rs = [] \<or>
     (\<forall>x \<in> set (butlast rs). sr_state x \<noteq> S_Unknown) \<and> attempts_used (last rs) = length (filter counted rs) \<and>
     (\<forall>x \<in> set rs. attempt_limit x \<noteq> None \<longrightarrow> attempt_limit (last rs) = attempt_limit x)"

definition led_ok :: "ledger \<Rightarrow> bool" where
  "led_ok lg \<longleftrightarrow>
     distinct (map sr_reference (spend_receipts lg)) \<and> (\<forall>x \<in> set (spend_receipts lg). receipt_ok x) \<and>
     (\<forall>a i. hist_ok (attempts a i lg)) \<and> (\<forall>a. account_used a lg = charged a lg \<and> account_used a lg \<le> i64_max)"

text \<open>What may become of a receipt.\<close>

definition lev :: "spend_row \<Rightarrow> spend_row \<Rightarrow> bool" where
  "lev x y \<longleftrightarrow>
     sr_reservation y = sr_reservation x \<and> sr_reference y = sr_reference x \<and> attempt_limit y = attempt_limit x \<and>
     (sr_state x \<noteq> S_Unknown \<longrightarrow> sr_state y = sr_state x \<and> sr_usage y = sr_usage x \<and> sr_output y = sr_output x) \<and>
     (dispatch_owner x \<noteq> None \<longrightarrow> dispatch_owner y = dispatch_owner x) \<and>
     (pre_dispatch_released x \<longrightarrow> pre_dispatch_released y) \<and> attempts_used y \<le> attempts_used x"

lemma lev_refl: "lev x x"
  by (simp add: lev_def)

lemma lev_trans: "lev x y \<Longrightarrow> lev y z \<Longrightarrow> lev x z"
  unfolding lev_def by (cases "dispatch_owner x"; cases "sr_state x = S_Unknown") auto

section \<open>Rows\<close>

lemma row_of_iff:
  assumes "distinct (map sr_reference (spend_receipts lg))"
  shows "row_of lg ref = Some x \<longleftrightarrow> x \<in> set (spend_receipts lg) \<and> sr_reference x = ref"
proof -
  have "find (\<lambda>x. sr_reference x = ref) rs = Some x \<longleftrightarrow> x \<in> set rs \<and> sr_reference x = ref"
    if "distinct (map sr_reference rs)" for rs
    using that
  proof (induction rs)
    case (Cons a rs)
    then show ?case by (cases "sr_reference a = ref") (auto simp: image_iff)
  qed simp
  then show ?thesis unfolding row_of_def using assms by blast
qed

lemma led_okD:
  assumes "led_ok lg"
  shows "distinct (map sr_reference (spend_receipts lg))" "x \<in> set (spend_receipts lg) \<Longrightarrow> receipt_ok x"
    "hist_ok (attempts a i lg)" "account_used a lg = charged a lg" "account_used a lg \<le> i64_max"
  using assms unfolding led_ok_def by blast+

lemma row_of_mem: "led_ok lg \<Longrightarrow> row_of lg ref = Some x \<longleftrightarrow> x \<in> set (spend_receipts lg) \<and> sr_reference x = ref"
  by (rule row_of_iff [OF led_okD(1)])

lemma row_of_update:
  assumes "\<And>x. sr_reference (f x) = sr_reference x"
  shows "row_of (update_receipt ref f lg) i = (if i = ref then map_option f (row_of lg i) else row_of lg i)"
proof -
  have "find (\<lambda>x. sr_reference x = i) (map (\<lambda>x. if sr_reference x = ref then f x else x) rs) =
      (if i = ref then map_option f (find (\<lambda>x. sr_reference x = i) rs) else find (\<lambda>x. sr_reference x = i) rs)" for rs
    using assms by (induction rs) auto
  then show ?thesis by (simp add: row_of_def update_receipt_def)
qed

text \<open>Changes that do not touch the accounting.\<close>

definition same_acct :: "spend_row \<Rightarrow> spend_row \<Rightarrow> bool" where
  "same_acct x y \<longleftrightarrow>
     sr_reference y = sr_reference x \<and> sr_account y = sr_account x \<and> sr_invocation y = sr_invocation x \<and>
     sr_binding y = sr_binding x \<and> sr_reservation y = sr_reservation x \<and> sr_state y = sr_state x \<and>
     sr_usage y = sr_usage x \<and> sr_output y = sr_output x \<and> attempt_limit y = attempt_limit x \<and>
     attempts_used y = attempts_used x \<and> pre_dispatch_released y = pre_dispatch_released x"

lemma same_acct_ok: "same_acct x y \<Longrightarrow> receipt_ok y = receipt_ok x"
  unfolding same_acct_def receipt_ok_def by (cases "attempt_limit x") simp_all

lemma hist_snoc: "hist_ok (ys @ [x]) \<longleftrightarrow>
    (\<forall>y \<in> set ys. sr_state y \<noteq> S_Unknown) \<and> attempts_used x = length (filter counted ys) + of_bool (counted x) \<and>
    (\<forall>y \<in> set ys. attempt_limit y \<noteq> None \<longrightarrow> attempt_limit x = attempt_limit y)"
  by (auto simp: hist_ok_def)

lemmas hist_snoc2 = hist_snoc [of "ys @ [z]" for ys z, simplified append_assoc append_Cons append_Nil]

lemma hist_same:
  assumes "\<And>x. x \<in> set rs \<Longrightarrow> same_acct x (g x)"
  shows "hist_ok (map g rs) \<longleftrightarrow> hist_ok rs"
proof (cases rs rule: rev_cases)
  case (snoc ys x)
  have k: "sr_state (g y) = sr_state y" "attempts_used (g y) = attempts_used y" "attempt_limit (g y) = attempt_limit y"
    "counted (g y) = counted y" if "y \<in> set rs" for y
    using assms [OF that] by (simp_all add: same_acct_def counted_def)
  have "filter (counted \<circ> g) ys = filter counted ys" by (rule filter_cong [OF refl]) (use k(4) snoc in simp)
  then have "length (filter counted (map g ys)) = length (filter counted ys)" by (simp add: filter_map)
  then show ?thesis using k by (simp add: snoc hist_snoc)
qed simp

lemma map_same_ok:
  assumes "led_ok lg" and same: "\<And>x. x \<in> set (spend_receipts lg) \<Longrightarrow> same_acct x (g x)"
    and lg': "lg' = lg\<lparr>spend_receipts := map g (spend_receipts lg)\<rparr>"
  shows "led_ok lg'"
proof -
  have k: "sr_reference (g x) = sr_reference x" "sr_account (g x) = sr_account x" "sr_invocation (g x) = sr_invocation x"
      "sr_state (g x) = sr_state x" if "x \<in> set (spend_receipts lg)" for x
    using same [OF that] by (simp_all add: same_acct_def)
  have filt: "length (filter P (map g (spend_receipts lg))) = length (filter P (spend_receipts lg))"
    if "\<And>x. x \<in> set (spend_receipts lg) \<Longrightarrow> P (g x) = P x" for P
  proof -
    have "filter (P \<circ> g) (spend_receipts lg) = filter P (spend_receipts lg)" by (rule filter_cong [OF refl]) (simp add: that)
    then show ?thesis by (simp add: filter_map)
  qed
  have "map sr_reference (spend_receipts lg') = map sr_reference (spend_receipts lg)" using k(1) by (simp add: lg')
  then have d: "distinct (map sr_reference (spend_receipts lg'))" using led_okD(1) [OF assms(1)] by metis
  have r: "\<forall>x \<in> set (spend_receipts lg'). receipt_ok x"
    using led_okD(2) [OF assms(1)] same_acct_ok [OF same] by (auto simp: lg')
  have h: "hist_ok (attempts a i lg')" for a i
  proof -
    have "filter ((\<lambda>x. sr_account x = a \<and> sr_invocation x = i) \<circ> g) (spend_receipts lg) = attempts a i lg"
      unfolding attempts_def by (rule filter_cong [OF refl]) (simp add: k)
    then have "attempts a i lg' = map g (attempts a i lg)" unfolding attempts_def lg' by (simp add: filter_map attempts_def)
    moreover have "hist_ok (map g (attempts a i lg)) = hist_ok (attempts a i lg)"
      by (rule hist_same) (simp add: attempts_def same)
    ultimately show ?thesis using led_okD(3) [OF assms(1)] by simp
  qed
  have "charged a lg' = charged a lg" for a
    unfolding charged_def lg' using filt [of "\<lambda>x. sr_account x = a \<and> sr_state x \<noteq> S_Released"] k(2,4) by simp
  moreover have "account_used a lg' = account_used a lg" for a by (simp add: account_used_def lg')
  ultimately show ?thesis using d r h led_okD(4,5) [OF assms(1)] unfolding led_ok_def by simp
qed

definition led_moves :: "ledger \<Rightarrow> ledger \<Rightarrow> bool" where
  "led_moves lg lg' \<longleftrightarrow> led_ok lg' \<and> (\<forall>ref x. row_of lg ref = Some x \<longrightarrow> (\<exists>y. row_of lg' ref = Some y \<and> lev x y))"

lemma led_moves_refl: "led_ok lg \<Longrightarrow> led_moves lg lg"
  using lev_refl by (auto simp: led_moves_def)

lemma led_moves_trans: "led_moves a b \<Longrightarrow> led_moves b c \<Longrightarrow> led_moves a c"
  unfolding led_moves_def using lev_trans by meson

lemma map_same_moves:
  assumes "led_ok lg" and "\<And>x. x \<in> set (spend_receipts lg) \<Longrightarrow> same_acct x (g x) \<and> lev x (g x)"
    and lg': "lg' = lg\<lparr>spend_receipts := map g (spend_receipts lg)\<rparr>"
  shows "led_moves lg lg'"
proof -
  have ok: "led_ok lg'" by (rule map_same_ok [OF assms(1) _ lg']) (use assms(2) in blast)
  have "row_of lg' ref = Some (g x) \<and> lev x (g x)" if "row_of lg ref = Some x" for ref x
  proof -
    have x: "x \<in> set (spend_receipts lg)" "sr_reference x = ref" using that row_of_mem [OF assms(1)] by blast+
    then have "g x \<in> set (spend_receipts lg')" "sr_reference (g x) = ref"
      using assms(2) [OF x(1)] by (simp_all add: lg' same_acct_def)
    then have "row_of lg' ref = Some (g x)" using row_of_mem [OF ok] by blast
    with assms(2) [OF x(1)] show ?thesis by blast
  qed
  with ok show ?thesis unfolding led_moves_def by blast
qed

lemma update_same_moves:
  assumes "led_ok lg" and "\<And>x. row_of lg ref = Some x \<Longrightarrow> same_acct x (f x) \<and> lev x (f x)"
  shows "led_moves lg (update_receipt ref f lg)"
proof (rule map_same_moves [OF assms(1)])
  show "update_receipt ref f lg = lg\<lparr>spend_receipts := map (\<lambda>x. if sr_reference x = ref then f x else x) (spend_receipts lg)\<rparr>"
    by (simp add: update_receipt_def)
  fix x assume "x \<in> set (spend_receipts lg)"
  then have "sr_reference x = ref \<Longrightarrow> row_of lg ref = Some x" using row_of_mem [OF assms(1)] by blast
  with assms(2) show "same_acct x (if sr_reference x = ref then f x else x) \<and> lev x (if sr_reference x = ref then f x else x)"
    by (auto simp: lev_refl same_acct_def)
qed

lemma clear_recovery_same: "same_acct x (clear_recovery x) \<and> lev x (clear_recovery x)"
  by (simp add: same_acct_def lev_def clear_recovery_def)

text \<open>The change of the latest attempt of an invocation, with the account it is charged to.\<close>

lemma update_last_ok:
  assumes ok: "led_ok lg" and x: "row_of lg ref = Some x"
    and last: "attempts (sr_account x) (sr_invocation x) lg = ys @ [x]" and fx: "receipt_ok (f x)"
    and same: "sr_reference (f x) = sr_reference x" "sr_account (f x) = sr_account x" "sr_invocation (f x) = sr_invocation x"
    and hist: "hist_ok (ys @ [f x])"
    and acs: "\<And>a. account_used a (lg\<lparr>spend_accounts := acs\<rparr>) + of_bool (a = sr_account x \<and> sr_state x \<noteq> S_Released)
                  = account_used a lg + of_bool (a = sr_account x \<and> sr_state (f x) \<noteq> S_Released)"
    and le: "sr_state x = S_Released \<longrightarrow> sr_state (f x) = S_Released"
  shows "led_ok (update_receipt ref f (lg\<lparr>spend_accounts := acs\<rparr>))"
proof -
  let ?lg = "update_receipt ref f (lg\<lparr>spend_accounts := acs\<rparr>)"
  let ?u = "\<lambda>y. if sr_reference y = sr_reference x then f x else y"
  have mem: "x \<in> set (spend_receipts lg)" "sr_reference x = ref" using x row_of_mem [OF ok] by blast+
  have uniq: "y = x" if "y \<in> set (spend_receipts lg)" "sr_reference y = ref" for y
    using that x row_of_mem [OF ok, of ref y] by simp
  have rs: "spend_receipts ?lg = map ?u (spend_receipts lg)"
    unfolding update_receipt_def using uniq mem(2) by (auto intro!: map_cong)
  have d: "distinct (map sr_reference (spend_receipts ?lg))"
  proof -
    have "map sr_reference (spend_receipts ?lg) = map sr_reference (spend_receipts lg)"
      unfolding rs using same(1) by (simp cong: map_cong)
    then show ?thesis using led_okD(1) [OF ok] by metis
  qed
  have r: "\<forall>y \<in> set (spend_receipts ?lg). receipt_ok y" unfolding rs using fx led_okD(2) [OF ok] by auto
  have u: "sr_account (?u y) = sr_account y" "sr_invocation (?u y) = sr_invocation y" if "y \<in> set (spend_receipts lg)" for y
    using uniq [OF that] mem(2) same(2,3) by auto
  have h: "hist_ok (attempts a i ?lg)" for a i
  proof -
    have "filter ((\<lambda>y. sr_account y = a \<and> sr_invocation y = i) \<circ> ?u) (spend_receipts lg) = attempts a i lg"
      unfolding attempts_def by (rule filter_cong [OF refl]) (simp only: u comp_apply)
    then have a: "attempts a i ?lg = map ?u (attempts a i lg)"
      unfolding attempts_def [of _ _ ?lg] rs by (simp only: filter_map)
    show ?thesis
    proof (cases "a = sr_account x \<and> i = sr_invocation x")
      case True
      have "distinct (map sr_reference (attempts a i lg))"
        unfolding attempts_def using led_okD(1) [OF ok] by (simp add: distinct_map_filter)
      then have "map ?u ys = ys" using True last by (intro map_idI) (auto simp: image_iff)
      with True last hist a show ?thesis by simp
    next
      case False
      then have "map ?u (attempts a i lg) = attempts a i lg"
        by (intro map_idI) (use uniq mem(2) in \<open>auto simp: attempts_def\<close>)
      with a led_okD(3) [OF ok] show ?thesis by simp
    qed
  qed
  have "account_used a ?lg = charged a ?lg \<and> account_used a ?lg \<le> i64_max" for a
  proof -
    have "charged a ?lg + of_bool (sr_account x = a \<and> sr_state x \<noteq> S_Released) =
        charged a lg + of_bool (sr_account (f x) = a \<and> sr_state (f x) \<noteq> S_Released)"
      unfolding charged_def rs by (rule length_filter_map_update [OF led_okD(1) [OF ok] mem(1)])
    moreover have "account_used a ?lg = account_used a (lg\<lparr>spend_accounts := acs\<rparr>)"
      by (simp add: account_used_def update_receipt_def)
    ultimately show ?thesis using acs [of a] led_okD(4,5) [OF ok, of a] same(2) le
      by (cases "sr_account x = a") (auto simp: of_bool_def split: if_splits)
  qed
  with d r h show ?thesis unfolding led_ok_def by blast
qed

lemma open_is_last:
  assumes "led_ok lg" and "row_of lg ref = Some x" and "sr_state x = S_Unknown"
  shows "\<exists>ys. attempts (sr_account x) (sr_invocation x) lg = ys @ [x]"
proof -
  let ?as = "attempts (sr_account x) (sr_invocation x) lg"
  have "x \<in> set (spend_receipts lg)" using assms(2) row_of_mem [OF assms(1)] by blast
  then have x: "x \<in> set ?as" by (simp add: attempts_def)
  then obtain ys z where yz: "?as = ys @ [z]" by (cases ?as rule: rev_cases) auto
  moreover have "hist_ok (ys @ [z])" using led_okD(3) [OF assms(1)] yz by metis
  then have "z = x" using x yz assms(3) by (auto simp: hist_snoc)
  ultimately show ?thesis by blast
qed

lemma moves_update:
  assumes "led_ok lg" and "led_ok (update_receipt ref f (lg\<lparr>spend_accounts := acs\<rparr>))"
    and "row_of lg ref = Some x" and "lev x (f x)" and "\<And>y. sr_reference (f y) = sr_reference y"
  shows "led_moves lg (update_receipt ref f (lg\<lparr>spend_accounts := acs\<rparr>))"
proof -
  have "row_of (lg\<lparr>spend_accounts := acs\<rparr>) i = row_of lg i" for i by (simp add: row_of_def)
  then have "row_of (update_receipt ref f (lg\<lparr>spend_accounts := acs\<rparr>)) i =
      (if i = ref then map_option f (row_of lg i) else row_of lg i)" for i
    using row_of_update [OF assms(5)] by metis
  then show ?thesis using assms(2-4) lev_refl by (auto simp: led_moves_def)
qed

section \<open>Settlement and release\<close>

lemma finish_in_shape:
  assumes "finish_in env clk ref st use out lg = Inr lg'"
  obtains x where "row_of lg ref = Some x"
    and "st = S_Settled \<Longrightarrow> \<exists>u. use = Some u \<and> has_measured_usage u"
    and "st = S_Released \<Longrightarrow> sr_output x = None \<and> out = None"
    and "sr_state x \<noteq> S_Unknown \<Longrightarrow> lg' = lg \<and> sr_state x = st \<and> sr_usage x = use \<and>
           sr_output x = (if out \<noteq> None then Some output_received else sr_output x)"
    and "sr_state x = S_Unknown \<Longrightarrow> \<exists>acs. lg' = update_receipt ref
           (\<lambda>y. y\<lparr>sr_state := st, sr_usage := use, sr_output := if out \<noteq> None then Some output_received else sr_output x\<rparr>)
           (lg\<lparr>spend_accounts := acs\<rparr>) \<and>
         (if st = S_Released then \<exists>n. map_of (spend_accounts lg) (rv_account (sr_reservation x)) = Some (Suc n) \<and>
             acs = AList.update (rv_account (sr_reservation x)) n (spend_accounts lg)
          else acs = spend_accounts lg)"
proof -
  obtain x where x: "row_of lg ref = Some x"
    using assms by (cases "row_of lg ref") (auto simp: finish_in_def receipt_in_def)
  show thesis
  proof (rule that [OF x])
    show "\<exists>u. use = Some u \<and> has_measured_usage u" if "st = S_Settled"
      using assms that x by (cases use) (auto simp: finish_in_def receipt_in_def receipt_of_def split: if_splits)
    show "sr_output x = None \<and> out = None" if "st = S_Released"
      using assms that x by (auto simp: finish_in_def receipt_in_def receipt_of_def split: if_splits)
    show "lg' = lg \<and> sr_state x = st \<and> sr_usage x = use \<and>
        sr_output x = (if out \<noteq> None then Some output_received else sr_output x)" if "sr_state x \<noteq> S_Unknown"
      using assms that x by (auto simp: finish_in_def receipt_in_def receipt_of_def Let_def split: if_splits)
    show "\<exists>acs. lg' = update_receipt ref
           (\<lambda>y. y\<lparr>sr_state := st, sr_usage := use, sr_output := if out \<noteq> None then Some output_received else sr_output x\<rparr>)
           (lg\<lparr>spend_accounts := acs\<rparr>) \<and>
         (if st = S_Released then \<exists>n. map_of (spend_accounts lg) (rv_account (sr_reservation x)) = Some (Suc n) \<and>
             acs = AList.update (rv_account (sr_reservation x)) n (spend_accounts lg)
          else acs = spend_accounts lg)" if u: "sr_state x = S_Unknown"
    proof (cases "st = S_Released")
      case True
      then obtain n where "map_of (spend_accounts lg) (rv_account (sr_reservation x)) = Some (Suc n)"
        using assms x u by (auto simp: finish_in_def receipt_in_def receipt_of_def and_then_def Let_def gr0_conv_Suc
            split: if_splits option.splits)
      then show ?thesis using assms x u True
        by (intro exI [of _ "AList.update (rv_account (sr_reservation x)) n (spend_accounts lg)"])
           (auto simp: finish_in_def receipt_in_def receipt_of_def and_then_def Let_def split: if_splits)
    next
      case False
      then show ?thesis using assms x u
        by (intro exI [of _ "spend_accounts lg"])
           (auto simp: finish_in_def receipt_in_def receipt_of_def and_then_def Let_def split: if_splits)
    qed
  qed
qed

lemma row_ok: "led_ok lg \<Longrightarrow> row_of lg ref = Some x \<Longrightarrow> receipt_ok x \<and> sr_reference x = ref"
  using row_of_mem led_okD(2) by blast

lemma finish_in_moves:
  assumes ok: "led_ok lg" and fin: "finish_in env clk ref st use out lg = Inr lg'"
  shows "led_moves lg lg'"
  using fin
proof (rule finish_in_shape)
  fix x
  assume x: "row_of lg ref = Some x" and S: "st = S_Settled \<Longrightarrow> \<exists>u. use = Some u \<and> has_measured_usage u"
    and R: "st = S_Released \<Longrightarrow> sr_output x = None \<and> out = None"
    and closed: "sr_state x \<noteq> S_Unknown \<Longrightarrow> lg' = lg \<and> sr_state x = st \<and> sr_usage x = use \<and>
           sr_output x = (if out \<noteq> None then Some output_received else sr_output x)"
    and opn: "sr_state x = S_Unknown \<Longrightarrow> \<exists>acs. lg' = update_receipt ref
           (\<lambda>y. y\<lparr>sr_state := st, sr_usage := use, sr_output := if out \<noteq> None then Some output_received else sr_output x\<rparr>)
           (lg\<lparr>spend_accounts := acs\<rparr>) \<and>
         (if st = S_Released then \<exists>n. map_of (spend_accounts lg) (rv_account (sr_reservation x)) = Some (Suc n) \<and>
             acs = AList.update (rv_account (sr_reservation x)) n (spend_accounts lg)
          else acs = spend_accounts lg)"
  let ?f = "\<lambda>y. y\<lparr>sr_state := st, sr_usage := use, sr_output := if out \<noteq> None then Some output_received else sr_output x\<rparr>"
  show "led_moves lg lg'"
  proof (cases "sr_state x = S_Unknown")
    case False
    then show ?thesis using closed led_moves_refl [OF ok] by simp
  next
    case u: True
    from opn [OF u] obtain acs where lg': "lg' = update_receipt ref ?f (lg\<lparr>spend_accounts := acs\<rparr>)"
      and acs: "if st = S_Released then \<exists>n. map_of (spend_accounts lg) (rv_account (sr_reservation x)) = Some (Suc n) \<and>
             acs = AList.update (rv_account (sr_reservation x)) n (spend_accounts lg)
          else acs = spend_accounts lg" by blast
    have rx: "receipt_ok x" "sr_reference x = ref" using row_ok [OF ok x] by blast+
    then have acc: "rv_account (sr_reservation x) = sr_account x" by (simp add: receipt_ok_def)
    obtain ys where ys: "attempts (sr_account x) (sr_invocation x) lg = ys @ [x]" using open_is_last [OF ok x u] by blast
    have h: "hist_ok (ys @ [x])" using led_okD(3) [OF ok] ys by metis
    have "led_ok lg'" unfolding lg'
    proof (rule update_last_ok [OF ok x ys])
      show "receipt_ok (?f x)" using rx(1) S R u unfolding receipt_ok_def by (cases "attempt_limit x") auto
      show "hist_ok (ys @ [?f x])" using h by (simp add: hist_snoc counted_def)
      show "account_used a (lg\<lparr>spend_accounts := acs\<rparr>) + of_bool (a = sr_account x \<and> sr_state x \<noteq> S_Released) =
          account_used a lg + of_bool (a = sr_account x \<and> sr_state (?f x) \<noteq> S_Released)" for a
        using acs u by (auto simp: account_used_def acc split: if_splits)
    qed (simp_all add: u)
    then show ?thesis unfolding lg' by (rule moves_update [OF ok _ x]) (use u in \<open>simp_all add: lev_def rx\<close>)
  qed
qed

lemma update_update:
  assumes "\<And>y. sr_reference (f y) = sr_reference y"
  shows "update_receipt ref g (update_receipt ref f lg) = update_receipt ref (\<lambda>y. g (f y)) lg"
  using assms by (simp add: update_receipt_def)

lemma release_in_moves:
  assumes ok: "led_ok lg" and rel: "release_in env clk ref lg = Inr lg'"
  shows "led_moves lg lg' \<and> (\<exists>y. row_of lg' ref = Some y \<and> sr_state y = S_Released \<and> pre_dispatch_released y)"
proof -
  let ?g = "\<lambda>y. y\<lparr>pre_dispatch_released := True, attempts_used := (if attempt_limit y \<noteq> None \<and> \<not> pre_dispatch_released y
      then attempts_used y - 1 else attempts_used y)\<rparr>"
  have gr: "sr_reference (?g y) = sr_reference y" for y by simp
  obtain x where x: "row_of lg ref = Some x"
    using rel by (cases "row_of lg ref") (auto simp: release_in_def receipt_in_def)
  have guard: "sr_state x = S_Unknown \<or> pre_dispatch_released x"
    using rel x by (auto simp: release_in_def receipt_in_def receipt_of_def split: if_splits)
  obtain lg1 where fin: "finish_in env clk ref S_Released None None lg = Inr lg1" and lg': "lg' = update_receipt ref ?g lg1"
    using rel x by (auto simp: release_in_def receipt_in_def and_then_Inr split: if_splits)
  have m1: "led_moves lg lg1" by (rule finish_in_moves [OF ok fin])
  then have ok1: "led_ok lg1" by (simp add: led_moves_def)
  have rx: "receipt_ok x" "sr_reference x = ref" using row_ok [OF ok x] by blast+
  have row': "row_of lg' ref = map_option ?g (row_of lg1 ref)" unfolding lg' using row_of_update [OF gr, of ref lg1 ref] by simp
  show ?thesis
  proof (cases "sr_state x = S_Unknown")
    case False
    then have p: "pre_dispatch_released x" using guard by simp
    have lg1: "lg1 = lg" using fin by (rule finish_in_shape) (use x False in auto)
    have "led_moves lg (update_receipt ref ?g lg)"
      by (rule update_same_moves [OF ok]) (use x p in \<open>auto simp: same_acct_def lev_def\<close>)
    moreover have "sr_state x = S_Released" using rx(1) p by (simp add: receipt_ok_def)
    ultimately show ?thesis using row' x by (auto simp: lg' lg1)
  next
    case u: True
    let ?f = "\<lambda>y. y\<lparr>sr_state := S_Released, sr_usage := None, sr_output := sr_output x\<rparr>"
    have "\<exists>acs. lg1 = update_receipt ref ?f (lg\<lparr>spend_accounts := acs\<rparr>) \<and> (\<exists>n. map_of (spend_accounts lg) (rv_account (sr_reservation x)) = Some (Suc n) \<and>
        acs = AList.update (rv_account (sr_reservation x)) n (spend_accounts lg)) \<and> sr_output x = None"
      using fin by (rule finish_in_shape) (use x u in \<open>auto simp: fun_eq_iff\<close>)
    then obtain acs n where lg1: "lg1 = update_receipt ref ?f (lg\<lparr>spend_accounts := acs\<rparr>)"
      and acs: "map_of (spend_accounts lg) (rv_account (sr_reservation x)) = Some (Suc n)"
        "acs = AList.update (rv_account (sr_reservation x)) n (spend_accounts lg)" and out: "sr_output x = None" by blast
    have lg'': "lg' = update_receipt ref (\<lambda>y. ?g (?f y)) (lg\<lparr>spend_accounts := acs\<rparr>)"
      unfolding lg' lg1 by (rule update_update) simp
    have acc: "rv_account (sr_reservation x) = sr_account x" using rx(1) by (simp add: receipt_ok_def)
    have np: "\<not> pre_dispatch_released x" using rx(1) u by (auto simp: receipt_ok_def)
    obtain ys where ys: "attempts (sr_account x) (sr_invocation x) lg = ys @ [x]" using open_is_last [OF ok x u] by blast
    have h: "hist_ok (ys @ [x])" using led_okD(3) [OF ok] ys by metis
    have "led_ok lg'" unfolding lg''
    proof (rule update_last_ok [OF ok x ys])
      show "receipt_ok (?g (?f x))" using rx(1) u out np unfolding receipt_ok_def by (cases "attempt_limit x") auto
      show "hist_ok (ys @ [?g (?f x)])" using h np by (auto simp: hist_snoc counted_def)
      show "account_used a (lg\<lparr>spend_accounts := acs\<rparr>) + of_bool (a = sr_account x \<and> sr_state x \<noteq> S_Released) =
          account_used a lg + of_bool (a = sr_account x \<and> sr_state (?g (?f x)) \<noteq> S_Released)" for a
        using acs u by (auto simp: account_used_def acc)
    qed (simp_all add: u)
    then have "led_moves lg lg'" unfolding lg'' by (rule moves_update [OF ok _ x]) (use u in \<open>simp_all add: lev_def rx\<close>)
    moreover have "row_of lg1 ref = Some (?f x)"
      unfolding lg1 using row_of_update [of ?f ref "lg\<lparr>spend_accounts := acs\<rparr>" ref] x by (simp add: row_of_def)
    ultimately show ?thesis using row' by simp
  qed
qed

section \<open>Reservation\<close>

lemma latest_row_last: "latest_row a i lg = (if attempts a i lg = [] then None else Some (last (attempts a i lg)))"
proof -
  have "find P (rev rs) = (if filter P rs = [] then None else Some (last (filter P rs)))" for P :: "spend_row \<Rightarrow> bool" and rs
    by (induction rs rule: rev_induct) auto
  then show ?thesis by (simp add: latest_row_def attempts_def)
qed

lemma invocation_in_latest:
  assumes "led_ok lg" and "invocation_in env clk a i lg = Inr p"
  shows "p = map_option (receipt_of env clk) (latest_row a i lg)"
proof (cases "latest_row a i lg")
  case (Some x)
  then have "x \<in> set (spend_receipts lg)"
    by (auto simp: latest_row_last attempts_def split: if_splits dest: last_in_set)
  then have "row_of lg (sr_reference x) = Some x" using row_of_mem [OF assms(1)] by blast
  with Some assms(2) show ?thesis
    by (auto simp: invocation_in_def invocation_reference_in_def and_then_def receipt_in_def SpendReceiptRef_new_def
        split: sum.splits if_splits)
qed (use assms(2) in \<open>simp add: invocation_in_def invocation_reference_in_def and_then_def\<close>)

lemma charge_account_ok:
  assumes ok: "led_ok lg" and ch: "charge_account r frozen used lg = Inr (b, lg')"
    and fresh: "row_of lg (rv_reference r) = None"
    and hist: "hist_ok (attempts (rv_account r) (rv_invocation r) lg @ [new_receipt r frozen used])"
    and used: "case frozen of None \<Rightarrow> used = 0 | Some l \<Rightarrow> 1 \<le> used \<and> used \<le> l"
  shows "led_moves lg lg'"
proof -
  let ?n = "account_used (rv_account r) lg"
  let ?x = "new_receipt r frozen used"
  have n: "?n < i64_max" and lg': "lg' = lg\<lparr>spend_accounts := AList.update (rv_account r) (Suc ?n) (spend_accounts lg),
        spend_receipts := spend_receipts lg @ [?x]\<rparr>"
    using ch by (auto simp: charge_account_def Let_def split: if_splits)
  have new: "rv_reference r \<notin> sr_reference ` set (spend_receipts lg)"
  proof
    assume "rv_reference r \<in> sr_reference ` set (spend_receipts lg)"
    then obtain y where "y \<in> set (spend_receipts lg)" "sr_reference y = rv_reference r" by auto
    then have "row_of lg (rv_reference r) = Some y" using row_of_mem [OF ok] by blast
    with fresh show False by simp
  qed
  have "distinct (map sr_reference (spend_receipts lg'))"
    using led_okD(1) [OF ok] new by (simp add: lg' new_receipt_def)
  moreover have "receipt_ok ?x" using used by (auto simp: receipt_ok_def new_receipt_def split: option.splits)
  then have "\<forall>y \<in> set (spend_receipts lg'). receipt_ok y" using led_okD(2) [OF ok] by (auto simp: lg')
  moreover have "hist_ok (attempts a i lg')" for a i
  proof -
    have "attempts a i lg' = attempts a i lg @ (if a = rv_account r \<and> i = rv_invocation r then [?x] else [])"
      by (auto simp: attempts_def lg' new_receipt_def)
    then show ?thesis using hist led_okD(3) [OF ok] by auto
  qed
  moreover have "account_used a lg' = charged a lg' \<and> account_used a lg' \<le> i64_max" for a
    using led_okD(4,5) [OF ok, of a] n by (auto simp: account_used_def charged_def lg' new_receipt_def)
  ultimately have ok': "led_ok lg'" unfolding led_ok_def by blast
  moreover have "row_of lg' ref = Some y" if "row_of lg ref = Some y" for ref y
    using that row_of_mem [OF ok] row_of_mem [OF ok'] by (simp add: lg')
  ultimately show ?thesis using lev_refl unfolding led_moves_def by blast
qed

lemma reserve_shape:
  assumes ok: "led_ok lg" and res: "reserve_with_limit_in env clk r limit handoff lg = Inr (b, lg')"
  shows "\<not> b \<and> lg' = lg \<and> (\<exists>x. row_of lg (rv_reference r) = Some x \<and> sr_reservation x = r) \<or>
    b \<and> row_of lg (rv_reference r) = None \<and> (\<exists>frozen used. charge_account r frozen used lg = Inr (True, lg') \<and>
      (limit \<noteq> None \<longrightarrow> frozen \<noteq> None) \<and>
      hist_ok (attempts (rv_account r) (rv_invocation r) lg @ [new_receipt r frozen used]) \<and>
      (case frozen of None \<Rightarrow> used = 0 | Some l \<Rightarrow> 1 \<le> used \<and> used \<le> l))"
proof -
  let ?rs = "attempts (rv_account r) (rv_invocation r) lg"
  let ?prev = "latest_row (rv_account r) (rv_invocation r) lg"
  obtain p where p: "invocation_in env clk (rv_account r) (rv_invocation r) lg = Inr p"
    using res by (auto simp: reserve_with_limit_in_def and_then_Inr)
  have prev: "p = map_option (receipt_of env clk) ?prev" by (rule invocation_in_latest [OF ok p])
  show ?thesis
  proof (cases "row_of lg (rv_reference r)")
    case (Some x)
    then show ?thesis using res p by (auto simp: reserve_with_limit_in_def receipt_in_def receipt_of_def split: if_splits)
  next
    case None
    let ?frozen = "case Option.bind p rc_attempt_limit of Some l \<Rightarrow> Some l | None \<Rightarrow> limit"
    let ?was = "case p of None \<Rightarrow> 0 | Some q \<Rightarrow> rc_attempts_used q"
    let ?used = "if ?frozen \<noteq> None then ?was + 1 else 0"
    have act: "\<not> active_invocation (rv_account r) (rv_invocation r) lg"
      and lim: "\<not> (case ?frozen of None \<Rightarrow> False | Some l \<Rightarrow> l \<le> ?was)"
      and ch: "charge_account r ?frozen ?used lg = Inr (b, lg')"
      using res p None by (simp_all add: reserve_with_limit_in_def receipt_in_def Let_def split: if_splits)
    have b: b using ch by (auto simp: charge_account_def Let_def split: if_splits)
    have unk: "\<forall>y \<in> set ?rs. sr_state y \<noteq> S_Unknown"
      using act by (auto simp: active_invocation_def attempts_def list_ex_iff)
    have "hist_ok (?rs @ [new_receipt r ?frozen ?used]) \<and> (case ?frozen of None \<Rightarrow> ?used = 0 | Some l \<Rightarrow> 1 \<le> ?used \<and> ?used \<le> l)"
    proof (cases ?rs rule: rev_cases)
      case Nil
      then have "p = None" using prev by (simp add: latest_row_last)
      with Nil lim show ?thesis by (cases limit) (auto simp: hist_ok_def new_receipt_def counted_def)
    next
      case (snoc ys z)
      then have pz: "p = Some (receipt_of env clk z)" using prev by (simp add: latest_row_last)
      have "z \<in> set ?rs" by (simp only: snoc) simp
      then have z: "receipt_ok z" using led_okD(2) [OF ok] by (simp add: attempts_def)
      have h: "hist_ok (ys @ [z])" using led_okD(3) [OF ok] snoc by metis
      show ?thesis
      proof (cases "attempt_limit z")
        case N: None
        then have "attempts_used z = 0" using z by (simp add: receipt_ok_def)
        then show ?thesis using h unk lim N pz unfolding snoc
          by (cases limit) (auto simp: hist_snoc hist_snoc2 new_receipt_def counted_def receipt_of_def)
      next
        case (Some l)
        then show ?thesis using h unk lim pz unfolding snoc
          by (auto simp: hist_snoc hist_snoc2 new_receipt_def counted_def receipt_of_def)
      qed
    qed
    moreover have "limit \<noteq> None \<longrightarrow> ?frozen \<noteq> None" by (auto split: option.splits)
    moreover have "charge_account r ?frozen ?used lg = Inr (True, lg')" using ch b by simp
    ultimately show ?thesis using b None by (intro disjI2 conjI exI [of _ ?frozen] exI [of _ ?used]) (simp_all only:)
  qed
qed

lemma reserve_moves:
  assumes "led_ok lg" and "reserve_with_limit_in env clk r limit handoff lg = Inr (b, lg')"
  shows "led_moves lg lg'"
  using reserve_shape [OF assms] charge_account_ok [OF assms(1)] led_moves_refl [OF assms(1)] by blast

lemma reserve_handoff_moves:
  assumes ok: "led_ok lg" and res: "reserve_handoff_in env clk h lg = Inr (b, lg')"
  shows "led_moves lg lg'"
proof -
  let ?ref = "rv_reference (ho_reservation h)"
  obtain c lg1 where r: "reserve_with_limit_in env clk (ho_reservation h) None True lg = Inr (c, lg1)"
    and rest: "lg' = lg1 \<or> lg' = update_receipt ?ref (\<lambda>x. x\<lparr>handoff_input := Some (ho_input_identity h)\<rparr>) lg1"
    using res by (fastforce simp: reserve_handoff_in_def and_then_Inr split: if_splits option.splits)
  have m: "led_moves lg lg1" by (rule reserve_moves [OF ok r])
  then have "led_moves lg1 (update_receipt ?ref (\<lambda>x. x\<lparr>handoff_input := Some (ho_input_identity h)\<rparr>) lg1)"
    by (intro update_same_moves) (simp_all add: led_moves_def same_acct_def lev_def)
  with rest m led_moves_trans show ?thesis by blast
qed

lemma acquire_shape:
  assumes "acquire_handoff env clk h acc input own lg = Inr lg'"
  shows "\<exists>x. row_of lg (rv_reference (ho_reservation h)) = Some x \<and> dispatch_owner x = None \<and> sr_state x = S_Unknown \<and>
    handoff_input x = Some input \<and> sr_reservation x = ho_reservation h \<and> own \<noteq> [] \<and>
    lg' = update_receipt (rv_reference (ho_reservation h)) (\<lambda>x. x\<lparr>dispatch_owner := Some own\<rparr>) lg"
  using assms by (auto simp: acquire_handoff_def receipt_in_def receipt_of_def Let_def split: option.splits if_splits)

lemma acquire_moves:
  assumes "led_ok lg" and "acquire_handoff env clk h acc input own lg = Inr lg'"
  shows "led_moves lg lg'"
  using acquire_shape [OF assms(2)] update_same_moves [OF assms(1)]
  by (fastforce simp: same_acct_def lev_def)

section \<open>Saved answers\<close>

lemma constrain_moves:
  assumes "led_ok lg" and "constrain_job_recovery_in env jdb bindings ref iv now lg = Inr (pu, lg')"
  shows "led_moves lg lg'"
proof -
  have "lg' = lg \<or> lg' = update_receipt ref clear_recovery lg \<or>
      (\<exists>t. lg' = update_receipt ref (\<lambda>x. x\<lparr>recovery_expires_at := t\<rparr>) lg)"
    using assms(2) by (fastforce simp: constrain_job_recovery_in_def and_then_Inr Let_def split: option.splits if_splits)
  moreover have "led_moves lg (update_receipt ref (\<lambda>x. x\<lparr>recovery_expires_at := t\<rparr>) lg)" for t
    by (rule update_same_moves [OF assms(1)]) (simp add: same_acct_def lev_def)
  moreover have "led_moves lg (update_receipt ref clear_recovery lg)"
    by (rule update_same_moves [OF assms(1)]) (rule clear_recovery_same)
  ultimately show ?thesis using led_moves_refl [OF assms(1)] by blast
qed

lemma save_recovery_moves:
  assumes "led_ok lg" and "save_recovery_in env jdb bindings clk ref out d iv now lg = Inr lg'"
  shows "led_moves lg lg'"
proof -
  have "lg' = lg \<or> (\<exists>t. lg' = update_receipt ref (\<lambda>x. x\<lparr>recovery := out, recovery_expires_at := t\<rparr>) lg)"
    using assms(2) by (fastforce simp: save_recovery_in_def and_then_Inr Let_def split: option.splits if_splits)
  moreover have "led_moves lg (update_receipt ref (\<lambda>x. x\<lparr>recovery := out, recovery_expires_at := t\<rparr>) lg)" for t
    by (rule update_same_moves [OF assms(1)]) (simp add: same_acct_def lev_def)
  ultimately show ?thesis using led_moves_refl [OF assms(1)] by blast
qed

lemma spend_finish_moves:
  assumes "led_ok lg" and "spend_finish env jdb bindings clk ref st use out iv now lg = Inr lg'"
  shows "led_moves lg lg'"
proof -
  obtain lg1 where "save_recovery_in env jdb bindings clk ref out None iv now lg = Inr lg1"
    and f: "finish_in env clk ref st use out lg1 = Inr lg'"
    using assms(2) by (auto simp: spend_finish_def and_then_Inr)
  then have m: "led_moves lg lg1" using save_recovery_moves [OF assms(1)] by blast
  then have "led_moves lg1 lg'" using finish_in_moves [OF _ f] by (simp add: led_moves_def)
  with m show ?thesis by (rule led_moves_trans)
qed

lemma clear_moves: "led_ok lg \<Longrightarrow> led_moves lg (update_receipt ref clear_recovery lg)"
  by (rule update_same_moves) (simp_all add: clear_recovery_same)

lemma discard_moves: "led_ok lg \<Longrightarrow> led_moves lg (discard_recovery acc iv lg)"
  by (auto simp: discard_recovery_def clear_moves led_moves_refl split: option.split)

lemma purge_recovery_moves:
  assumes "led_ok lg" and "purge_recovery matches lg = Inr (n, lg')"
  shows "led_moves lg lg'"
proof -
  have "led_moves lg (fold (\<lambda>ref. update_receipt ref clear_recovery) refs lg)" if "led_ok lg" for refs lg
    using that
  proof (induction refs arbitrary: lg)
    case (Cons ref refs)
    have "led_moves lg (update_receipt ref clear_recovery lg)" by (rule clear_moves [OF Cons.prems])
    moreover from this have "led_ok (update_receipt ref clear_recovery lg)" by (simp add: led_moves_def)
    ultimately show ?case using led_moves_trans Cons.IH [of "update_receipt ref clear_recovery lg"] by simp
  qed (simp add: led_moves_refl)
  with assms show ?thesis by (auto simp: purge_recovery_def and_then_Inr)
qed

lemma expire_batch_moves: "led_ok lg \<Longrightarrow> led_moves lg (snd (expire_batch now lg))"
  by (rule map_same_moves) (simp_all add: expire_batch_def clear_recovery_def lev_def same_acct_def)

lemma expire_loop_moves: "led_ok lg \<Longrightarrow> led_moves lg (snd (expire_loop now removed lg))"
proof (induction now removed lg rule: expire_loop.induct)
  case (1 now removed lg)
  let ?b = "expire_batch now lg"
  have m: "led_moves lg (snd ?b)" by (rule expire_batch_moves [OF 1(2)])
  then have "led_ok (snd ?b)" by (simp add: led_moves_def)
  with 1(1) [of ?b "fst ?b" "snd ?b"] m led_moves_trans show ?case
    by (subst expire_loop.simps) (auto simp: Let_def split_beta)
qed

lemma expire_moves: "led_ok lg \<Longrightarrow> led_moves lg (snd (expire_recovery env clk lg))"
  by (simp add: expire_recovery_def expire_loop_moves)

section \<open>Runs\<close>

text \<open>One committed operation of the ledger, with any environment and clock reading.\<close>

inductive ledger_step :: "ledger \<Rightarrow> ledger \<Rightarrow> bool" where
  reserve: "reserve_in env clk r lg = Inr (b, lg') \<Longrightarrow> ledger_step lg lg'"
| explicit: "reserve_explicit env clk r limit lg = Inr (b, lg') \<Longrightarrow> ledger_step lg lg'"
| handoff: "reserve_handoff_in env clk h lg = Inr (b, lg') \<Longrightarrow> ledger_step lg lg'"
| acquire: "acquire_handoff env clk h acc input own lg = Inr lg' \<Longrightarrow> ledger_step lg lg'"
| settle: "finish_in env clk ref st use out lg = Inr lg' \<Longrightarrow> ledger_step lg lg'"
| finish: "spend_finish env jdb bindings clk ref st use out iv now lg = Inr lg' \<Longrightarrow> ledger_step lg lg'"
| release: "release_in env clk ref lg = Inr lg' \<Longrightarrow> ledger_step lg lg'"
| save: "save_recovery_in env jdb bindings clk ref out d iv now lg = Inr lg' \<Longrightarrow> ledger_step lg lg'"
| constrain: "constrain_job_recovery_in env jdb bindings ref iv' now lg = Inr (pu, lg') \<Longrightarrow> ledger_step lg lg'"
| discard: "ledger_step lg (discard_recovery acc iv' lg)"
| purge: "purge_recovery matches lg = Inr (n, lg') \<Longrightarrow> ledger_step lg lg'"
| expire: "ledger_step lg (snd (expire_recovery env clk lg))"

lemma ledger_step_moves: "ledger_step lg lg' \<Longrightarrow> led_ok lg \<Longrightarrow> led_moves lg lg'"
  by (induction rule: ledger_step.induct)
     (auto simp: reserve_in_def reserve_explicit_def intro: reserve_moves reserve_handoff_moves acquire_moves
       finish_in_moves spend_finish_moves release_in_moves [THEN conjunct1] save_recovery_moves constrain_moves
       discard_moves purge_recovery_moves expire_moves)

interpretation ls: persistent_store led_ok ledger_step row_of lev
proof unfold_locales
  show "led_ok t" if "led_ok s" "ledger_step s t" for s t
    using ledger_step_moves [OF that(2,1)] by (simp add: led_moves_def)
  show "\<exists>r'. row_of t k = Some r' \<and> lev r r'" if "led_ok s" "ledger_step s t" "row_of s k = Some r" for s t k r
    using ledger_step_moves [OF that(2,1)] that(3) by (simp add: led_moves_def)
qed (rule lev_refl, rule lev_trans)

lemma empty_ledger_ok: "led_ok empty_ledger"
  by (simp add: led_ok_def empty_ledger_def attempts_def hist_ok_def account_used_def charged_def)

lemma reach_ok: "ledger_step\<^sup>*\<^sup>* empty_ledger lg \<Longrightarrow> led_ok lg"
  by (rule ls.run_ok [OF _ empty_ledger_ok])

text \<open>The attempts of an invocation under a frozen limit.\<close>

lemma attempts_within_limit:
  assumes "led_ok lg" and "x \<in> set (attempts a i lg)" and "attempt_limit x = Some l"
  shows "length (filter counted (attempts a i lg)) \<le> l"
proof -
  obtain ys z where yz: "attempts a i lg = ys @ [z]" using assms(2) by (cases "attempts a i lg" rule: rev_cases) auto
  then have h: "hist_ok (ys @ [z])" using led_okD(3) [OF assms(1)] by metis
  have "z \<in> set (attempts a i lg)" by (simp add: yz)
  then have z: "receipt_ok z" using led_okD(2) [OF assms(1)] by (simp add: attempts_def)
  have "attempt_limit z = Some l" using h assms(2,3) yz by (auto simp: hist_snoc)
  with z h show ?thesis unfolding yz by (cases "counted z") (simp_all add: hist_snoc receipt_ok_def)
qed

lemma open_unique:
  assumes "led_ok lg" and "x \<in> set (attempts a i lg)" "y \<in> set (attempts a i lg)"
    and "sr_state x = S_Unknown" "sr_state y = S_Unknown"
  shows "x = y"
proof -
  obtain ys z where yz: "attempts a i lg = ys @ [z]" using assms(2) by (cases "attempts a i lg" rule: rev_cases) auto
  then have "hist_ok (ys @ [z])" using led_okD(3) [OF assms(1)] by metis
  with assms(2-5) show ?thesis by (auto simp: yz hist_snoc)
qed

end
