(* ===== verification/Spend_Properties.thy ===== *)
theory Spend_Properties
  imports Spend_Ledger_Props
begin

text \<open>
  The properties of the spend ledger: its accounting, what an accepted reservation charges, that a
  handed-over dispatch is taken once, that a settlement is final, and that expiry erases every
  saved answer that is due. A run starts with the empty ledger and commits any operations in any
  order.
\<close>

section \<open>A concrete run\<close>

definition demo_spend_env :: spend_env where
  "demo_spend_env = \<lparr>to_rfc3339 = (\<lambda>t. decimal (nat t)), parse_rfc3339 = (\<lambda>s. None), add_retention = (\<lambda>t. Some (t + 10)),
     parse_invocation = (\<lambda>s. None), parse_binding = (\<lambda>s. None),
     execution_invocation_identity = (\<lambda>b s. Inl spend_storage)\<rparr>"

definition demo_reservation :: SpendReservation where
  "demo_reservation = \<lparr>rv_reference = ''runtime:job:1'', rv_account = ''acct'', rv_invocation = ''inv'',
     rv_binding = ''b'', rv_request_limit = Some 2\<rparr>"

definition demo_handoff :: AcceptedSpendHandoff where
  "demo_handoff = \<lparr>ho_reservation = demo_reservation, ho_input_identity = ''in''\<rparr>"

definition demo_usage :: UsageTrace where
  "demo_usage = \<lparr>cache_hit_tokens = None, cache_miss_tokens = None, response_id = None, served_model = None, created = None,
     input_tokens = Some 5, output_tokens = Some 7, reasoning_tokens = None, media_units = None, cost_micro_usd = None,
     reported_cost_usd = None\<rparr>"

definition demo_reserved :: ledger where
  "demo_reserved = \<lparr>spend_accounts = [(''acct'', 1)], spend_receipts = [new_receipt demo_reservation (Some 1) 1]\<rparr>"

definition demo_handed :: ledger where
  "demo_handed = \<lparr>spend_accounts = [(''acct'', 1)],
     spend_receipts = [(new_receipt demo_reservation None 0)\<lparr>handoff_input := Some ''in''\<rparr>]\<rparr>"

definition demo_saved :: ledger where
  "demo_saved = \<lparr>spend_accounts = [(''acct'', 1)],
     spend_receipts = [(new_receipt demo_reservation (Some 1) 1)\<lparr>sr_state := S_Settled, sr_usage := Some demo_usage,
       sr_output := Some output_received, recovery := Some JNull, recovery_expires_at := Some ''10''\<rparr>]\<rparr>"

lemma demo_reserved_eq: "reserve_explicit demo_spend_env 0 demo_reservation 1 empty_ledger = Inr (True, demo_reserved)"
  by code_simp

lemma demo_handed_eq: "reserve_handoff_in demo_spend_env 0 demo_handoff empty_ledger = Inr (True, demo_handed)"
  by code_simp

lemma demo_saved_eq:
  "spend_finish demo_spend_env empty_db [] 0 ''runtime:job:1'' S_Settled (Some demo_usage) (Some JNull) None 0 demo_reserved
   = Inr demo_saved"
  by code_simp

lemma demo_reserved_reach: "ledger_step\<^sup>*\<^sup>* empty_ledger demo_reserved"
  by (rule r_into_rtranclp, rule explicit, rule demo_reserved_eq)

lemma demo_handed_reach: "ledger_step\<^sup>*\<^sup>* empty_ledger demo_handed"
  by (rule r_into_rtranclp, rule handoff, rule demo_handed_eq)

lemma demo_saved_reach: "ledger_step\<^sup>*\<^sup>* empty_ledger demo_saved"
  by (rule rtranclp.rtrancl_into_rtrancl [OF demo_reserved_reach], rule finish, rule demo_saved_eq)

section \<open>Accounting\<close>

text \<open>
  C8. In every reachable ledger the amount an account has used is the number of its receipts that
  were not released and fits the column, an invocation has at most one open attempt, and the attempts
  of an invocation under a limit that were not released before dispatch are at most the limit.
\<close>

theorem ledger_invariant:
  assumes "ledger_step\<^sup>*\<^sup>* empty_ledger lg"
  shows "account_used a lg = charged a lg \<and> account_used a lg \<le> i64_max \<and>
    (\<forall>x \<in> set (attempts a i lg). \<forall>y \<in> set (attempts a i lg). sr_state x = S_Unknown \<and> sr_state y = S_Unknown \<longrightarrow> x = y) \<and>
    (\<forall>x \<in> set (attempts a i lg). \<forall>l. attempt_limit x = Some l \<longrightarrow>
       length (filter (\<lambda>y. attempt_limit y \<noteq> None \<and> \<not> pre_dispatch_released y) (attempts a i lg)) \<le> l)"
proof -
  have ok: "led_ok lg" by (rule reach_ok [OF assms])
  have "length (filter (\<lambda>y. attempt_limit y \<noteq> None \<and> \<not> pre_dispatch_released y) (attempts a i lg)) \<le> l"
    if "x \<in> set (attempts a i lg)" "attempt_limit x = Some l" for x l
    using attempts_within_limit [OF ok that] unfolding counted_def .
  moreover have "x = y" if "x \<in> set (attempts a i lg)" "y \<in> set (attempts a i lg)" "sr_state x = S_Unknown" "sr_state y = S_Unknown" for x y
    using open_unique [OF ok] that by blast
  ultimately show ?thesis using led_okD(4,5) [OF ok] by blast
qed

theorem ledger_invariant_witness:
  "account_used ''acct'' demo_reserved = charged ''acct'' demo_reserved \<and> account_used ''acct'' demo_reserved = 1 \<and>
   length (filter (\<lambda>y. attempt_limit y \<noteq> None \<and> \<not> pre_dispatch_released y) (attempts ''acct'' ''inv'' demo_reserved)) \<le> 1"
proof (intro conjI)
  note I = ledger_invariant [OF demo_reserved_reach, of "''acct''" "''inv''"]
  show "account_used ''acct'' demo_reserved = charged ''acct'' demo_reserved" using I by blast
  show "account_used ''acct'' demo_reserved = 1" by code_simp
  have "new_receipt demo_reservation (Some 1) 1 \<in> set (attempts ''acct'' ''inv'' demo_reserved)"
    by (simp add: attempts_def demo_reserved_def new_receipt_def demo_reservation_def)
  moreover have "attempt_limit (new_receipt demo_reservation (Some 1) 1) = Some 1" by (simp add: new_receipt_def)
  ultimately show "length (filter (\<lambda>y. attempt_limit y \<noteq> None \<and> \<not> pre_dispatch_released y) (attempts ''acct'' ''inv'' demo_reserved)) \<le> 1"
    using I by blast
qed

text \<open>
  C18. An accepted reservation charges its own account by exactly one, never beyond the request
  limit it names, leaves every other account as it was and adds the receipt as the open attempt of its
  invocation. A repeated reservation changes nothing.
\<close>

theorem reserve_within_budget:
  assumes "ledger_step\<^sup>*\<^sup>* empty_ledger lg" and "reserve_with_limit_in env clk r limit handoff lg = Inr (accepted, lg')"
  shows "if accepted
    then account_used (rv_account r) lg' = account_used (rv_account r) lg + 1 \<and>
      (\<forall>l. rv_request_limit r = Some l \<longrightarrow> account_used (rv_account r) lg' \<le> l) \<and>
      (\<forall>a. a \<noteq> rv_account r \<longrightarrow> account_used a lg' = account_used a lg) \<and> row_of lg (rv_reference r) = None \<and>
      (\<exists>x. row_of lg' (rv_reference r) = Some x \<and> sr_reservation x = r \<and> sr_state x = S_Unknown \<and>
         (limit \<noteq> None \<longrightarrow> attempt_limit x \<noteq> None))
    else lg' = lg \<and> (\<exists>x. row_of lg (rv_reference r) = Some x \<and> sr_reservation x = r)"
proof -
  have ok: "led_ok lg" by (rule reach_ok [OF assms(1)])
  have ok': "led_ok lg'" using reserve_moves [OF ok assms(2)] by (simp add: led_moves_def)
  show ?thesis
  proof (cases accepted)
    case False
    then show ?thesis using reserve_shape [OF ok assms(2)] by auto
  next
    case True
    then obtain frozen used where ch: "charge_account r frozen used lg = Inr (True, lg')"
      and lim: "limit \<noteq> None \<longrightarrow> frozen \<noteq> None" and new: "row_of lg (rv_reference r) = None"
      using reserve_shape [OF ok assms(2)] by blast
    then have "new_receipt r frozen used \<in> set (spend_receipts lg')"
      by (auto simp: charge_account_def Let_def split: if_splits)
    then have "row_of lg' (rv_reference r) = Some (new_receipt r frozen used)"
      using row_of_mem [OF ok'] by (simp add: new_receipt_def)
    then have "\<exists>x. row_of lg' (rv_reference r) = Some x \<and> sr_reservation x = r \<and> sr_state x = S_Unknown \<and>
         (limit \<noteq> None \<longrightarrow> attempt_limit x \<noteq> None)" using lim by (simp add: new_receipt_def)
    moreover have "account_used a lg' = (if a = rv_account r then account_used a lg + 1 else account_used a lg)" for a
      using ch by (auto simp: charge_account_def Let_def account_used_def split: if_splits)
    moreover have "rv_request_limit r = Some l \<longrightarrow> account_used (rv_account r) lg < l" for l
      using ch by (auto simp: charge_account_def Let_def split: if_splits)
    ultimately show ?thesis using True new by (simp add: Suc_le_eq)
  qed
qed

theorem reserve_within_budget_witness:
  "account_used ''acct'' demo_reserved = account_used ''acct'' empty_ledger + 1"
  using reserve_within_budget [OF rtranclp.rtrancl_refl demo_reserved_eq [unfolded reserve_explicit_def]]
  by (simp add: demo_reservation_def)

section \<open>Dispatch and settlement\<close>

text \<open>
  C19. Once the dispatch of an accepted handoff was acquired, every later attempt to acquire it is
  refused as a conflict, in every state the ledger can reach afterwards.
\<close>

theorem handoff_dispatched_once:
  assumes "ledger_step\<^sup>*\<^sup>* empty_ledger lg" and "acquire_handoff env clk h acc input own lg = Inr lg1"
    and "ledger_step\<^sup>*\<^sup>* lg1 lg2" and "rv_reference (ho_reservation h') = rv_reference (ho_reservation h)"
  shows "acquire_handoff env' clk' h' acc' input' own' lg2 = Inl conflict"
proof -
  let ?ref = "rv_reference (ho_reservation h)"
  have ok: "led_ok lg" by (rule reach_ok [OF assms(1)])
  obtain x where x: "row_of lg ?ref = Some x" and lg1: "lg1 = update_receipt ?ref (\<lambda>x. x\<lparr>dispatch_owner := Some own\<rparr>) lg"
    using acquire_shape [OF assms(2)] by blast
  have ok1: "led_ok lg1" using acquire_moves [OF ok assms(2)] by (simp add: led_moves_def)
  have "row_of lg1 ?ref = Some (x\<lparr>dispatch_owner := Some own\<rparr>)" unfolding lg1 using x by (subst row_of_update) simp_all
  from ls.run_ev [OF assms(3) ok1 this] obtain y where y: "row_of lg2 ?ref = Some y" "dispatch_owner y = Some own"
    by (auto simp: lev_def)
  show ?thesis
  proof (rule ccontr)
    assume "acquire_handoff env' clk' h' acc' input' own' lg2 \<noteq> Inl conflict"
    then obtain lg3 where "acquire_handoff env' clk' h' acc' input' own' lg2 = Inr lg3"
      by (auto simp: acquire_handoff_def Let_def split: option.splits if_splits)
    with y assms(4) acquire_shape [OF this] show False by simp
  qed
qed

theorem handoff_dispatched_once_witness:
  "acquire_handoff demo_spend_env 1 demo_handoff ''acct'' ''in'' ''other''
     (update_receipt ''runtime:job:1'' (\<lambda>x. x\<lparr>dispatch_owner := Some ''me''\<rparr>) demo_handed) = Inl conflict"
proof -
  have "acquire_handoff demo_spend_env 0 demo_handoff ''acct'' ''in'' ''me'' demo_handed =
      Inr (update_receipt ''runtime:job:1'' (\<lambda>x. x\<lparr>dispatch_owner := Some ''me''\<rparr>) demo_handed)" by code_simp
  from handoff_dispatched_once [OF demo_handed_reach this rtranclp.rtrancl_refl] show ?thesis by simp
qed

text \<open>
  C9. A settlement is final. After an attempt was released or settled, in every later state its
  receipt has that state and that usage, the same report is accepted again without effect, and every
  report of another state or another usage is refused.
\<close>

theorem settlement_is_final:
  assumes "ledger_step\<^sup>*\<^sup>* empty_ledger lg" and "finish_in env clk ref st use out lg = Inr lg1" and "st \<noteq> S_Unknown"
    and "ledger_step\<^sup>*\<^sup>* lg1 lg2"
  shows "(\<exists>y. row_of lg2 ref = Some y \<and> sr_state y = st \<and> sr_usage y = use) \<and>
    finish_in env' clk' ref st use out lg2 = Inr lg2 \<and>
    (st' \<noteq> st \<or> use' \<noteq> use \<longrightarrow> finish_in env' clk' ref st' use' out' lg2 = Inl conflict)"
proof -
  have ok: "led_ok lg" by (rule reach_ok [OF assms(1)])
  have ok1: "led_ok lg1" using finish_in_moves [OF ok assms(2)] by (simp add: led_moves_def)
  have "\<exists>x. row_of lg1 ref = Some x \<and> sr_state x = st \<and> sr_usage x = use \<and> (out \<noteq> None \<longrightarrow> sr_output x = Some output_received) \<and>
      (st = S_Settled \<longrightarrow> (\<exists>u. use = Some u \<and> has_measured_usage u)) \<and> (st = S_Released \<longrightarrow> sr_output x = None \<and> out = None)"
    using assms(2)
  proof (rule finish_in_shape)
    fix x :: spend_row
    let ?f = "\<lambda>y :: spend_row. y\<lparr>sr_state := st, sr_usage := use, sr_output := if out \<noteq> None then Some output_received else sr_output x\<rparr>"
    assume x: "row_of lg ref = Some x" and g: "st = S_Settled \<Longrightarrow> \<exists>u. use = Some u \<and> has_measured_usage u"
      "st = S_Released \<Longrightarrow> sr_output x = None \<and> out = None"
      and c: "sr_state x \<noteq> S_Unknown \<Longrightarrow> lg1 = lg \<and> sr_state x = st \<and> sr_usage x = use \<and>
           sr_output x = (if out \<noteq> None then Some output_received else sr_output x)"
      and o: "sr_state x = S_Unknown \<Longrightarrow> \<exists>acs. lg1 = update_receipt ref ?f (lg\<lparr>spend_accounts := acs\<rparr>) \<and>
         (if st = S_Released then \<exists>n. map_of (spend_accounts lg) (rv_account (sr_reservation x)) = Some (Suc n) \<and>
             acs = AList.update (rv_account (sr_reservation x)) n (spend_accounts lg)
          else acs = spend_accounts lg)"
    show ?thesis
    proof (cases "sr_state x = S_Unknown")
      case False
      then show ?thesis using c x g by auto
    next
      case True
      then obtain acs where "lg1 = update_receipt ref ?f (lg\<lparr>spend_accounts := acs\<rparr>)" using o by blast
      then have "row_of lg1 ref = Some (?f x)"
        using row_of_update [of ?f ref "lg\<lparr>spend_accounts := acs\<rparr>" ref] x by (simp add: row_of_def)
      then show ?thesis using g by auto
    qed
  qed
  then obtain x where x: "row_of lg1 ref = Some x" "sr_state x = st" "sr_usage x = use"
    and xo: "out \<noteq> None \<longrightarrow> sr_output x = Some output_received"
      "st = S_Settled \<longrightarrow> (\<exists>u. use = Some u \<and> has_measured_usage u)" "st = S_Released \<longrightarrow> sr_output x = None \<and> out = None" by blast
  from ls.run_ev [OF assms(4) ok1 x(1)] obtain y where y: "row_of lg2 ref = Some y" and "lev x y" by blast
  then have yx: "sr_state y = st" "sr_usage y = use" "sr_output y = sr_output x" using x assms(3) by (simp_all add: lev_def)
  have rep: "finish_in env' clk' ref st use out lg2 = Inr lg2"
    using y yx xo assms(3) by (auto simp: finish_in_def receipt_in_def receipt_of_def Let_def)
  have "finish_in env' clk' ref st' use' out' lg2 = Inl conflict" if "st' \<noteq> st \<or> use' \<noteq> use"
    using y yx that assms(3) by (auto simp: finish_in_def receipt_in_def receipt_of_def Let_def)
  with y yx rep show ?thesis by blast
qed

theorem settlement_is_final_witness:
  "finish_in demo_spend_env 5 ''runtime:job:1'' S_Released None None demo_saved = Inl conflict"
proof -
  have "finish_in demo_spend_env 0 ''runtime:job:1'' S_Settled (Some demo_usage) (Some JNull) demo_saved = Inr demo_saved"
    by code_simp
  from settlement_is_final [OF demo_saved_reach this _ rtranclp.rtrancl_refl, where st' = S_Released and use' = None] show ?thesis by simp
qed

section \<open>Expiry of saved answers\<close>

lemma sort_empty: "sort_key f xs = [] \<longleftrightarrow> xs = []"
  by (metis length_0_conv length_sort)

lemma length_filter_perm_append:
  assumes "mset xs = mset (ys @ zs)"
  shows "length (filter P xs) = length (filter P ys) + length (filter P zs)"
proof -
  have "size (mset (filter P xs)) = size (mset (filter P (ys @ zs)))" using assms by (simp only: mset_filter)
  then show ?thesis by (simp only: size_mset filter_append length_append)
qed

lemma expiry_batch_split:
  assumes "distinct (map sr_reference (spend_receipts lg))"
  shows "recoveries_due now lg = fst (expire_batch now lg) + recoveries_due now (snd (expire_batch now lg))" (is ?count)
    and "x \<in> set (spend_receipts lg) \<Longrightarrow> sr_reference x \<in> set (expiry_batch now lg) \<Longrightarrow> recovery_due now x"
proof -
  let ?due = "filter (recovery_due now) (spend_receipts lg)"
  let ?s = "sort_key (\<lambda>x. case recovery_expires_at x of None \<Rightarrow> [] | Some t \<Rightarrow> t) ?due"
  let ?B = "set (expiry_batch now lg)"
  have B: "expiry_batch now lg = map sr_reference (take 64 ?s)" by (simp only: expiry_batch_def)
  have inj: "inj_on sr_reference (set (spend_receipts lg))" using assms by (simp add: distinct_map)
  show "recovery_due now x" if x: "x \<in> set (spend_receipts lg)" "sr_reference x \<in> ?B"
  proof -
    obtain y where "y \<in> set (take 64 ?s)" "sr_reference y = sr_reference x" using x(2) B by auto
    moreover from this have "y \<in> set ?due" by (auto dest: in_set_takeD)
    ultimately show ?thesis using inj_onD [OF inj] x(1) by fastforce
  qed
  have "distinct ?s" using assms by (simp add: distinct_map)
  then have "set (take 64 ?s) \<inter> set (drop 64 ?s) = {}" by (simp add: set_take_disj_set_drop_if_distinct)
  moreover have "set (take 64 ?s) \<subseteq> set (spend_receipts lg)" "set (drop 64 ?s) \<subseteq> set (spend_receipts lg)"
    by (auto dest: in_set_takeD in_set_dropD)
  ultimately have out: "sr_reference y \<notin> ?B" if "y \<in> set (drop 64 ?s)" for y
    using that inj_onD [OF inj] B by fastforce
  have "length (filter (\<lambda>y. sr_reference y \<notin> ?B) ?due) =
      length (filter (\<lambda>y. sr_reference y \<notin> ?B) (take 64 ?s)) + length (filter (\<lambda>y. sr_reference y \<notin> ?B) (drop 64 ?s))"
    by (rule length_filter_perm_append) simp
  also have "\<dots> = length (drop 64 ?s)" using out by (simp add: B filter_empty_conv)
  finally have "length (filter (\<lambda>y. sr_reference y \<notin> ?B) ?due) + length (take 64 ?s) = length ?due"
    by (simp only: length_drop length_take length_sort)
  moreover have "\<not> recovery_due now (clear_recovery y)" for y by (simp add: recovery_due_def clear_recovery_def)
  then have "recoveries_due now (snd (expire_batch now lg)) = length (filter (\<lambda>y. sr_reference y \<notin> ?B) ?due)"
    by (simp add: recoveries_due_def expire_batch_def filter_map comp_def if_distrib conj_commute cong: filter_cong conj_cong)
  moreover have "fst (expire_batch now lg) = length (take 64 ?s)" unfolding expire_batch_def fst_conv B length_map ..
  ultimately show ?count by (simp add: recoveries_due_def)
qed

lemma expire_loop_clears:
  "distinct (map sr_reference (spend_receipts lg)) \<Longrightarrow>
   expire_loop now removed lg = (removed + recoveries_due now lg,
     lg\<lparr>spend_receipts := map (\<lambda>x. if recovery_due now x then clear_recovery x else x) (spend_receipts lg)\<rparr>)"
proof (induction now removed lg rule: expire_loop.induct)
  case (1 now removed lg)
  let ?b = "expire_batch now lg"
  note split = expiry_batch_split [OF 1(2)]
  show ?case
  proof (cases "fst ?b = 0")
    case True
    then have B: "expiry_batch now lg = []" by (simp add: expire_batch_def)
    then have "filter (recovery_due now) (spend_receipts lg) = []"
      unfolding expiry_batch_def by (simp add: sort_empty)
    then have "map (\<lambda>x. if recovery_due now x then clear_recovery x else x) (spend_receipts lg) = spend_receipts lg"
      "recoveries_due now lg = 0" by (auto simp: filter_empty_conv recoveries_due_def intro!: map_idI)
    then show ?thesis using B by (subst expire_loop.simps) (simp add: expire_batch_def)
  next
    case False
    have d: "distinct (map sr_reference (spend_receipts (snd ?b)))"
    proof -
      have "sr_reference (if P then clear_recovery x else x) = sr_reference x" for P x by (simp add: clear_recovery_def)
      then show ?thesis using 1(2) by (simp add: expire_batch_def comp_def)
    qed
    have "\<not> recovery_due now (clear_recovery y)" for y by (simp add: recovery_due_def clear_recovery_def)
    then have "map (\<lambda>x. if recovery_due now x then clear_recovery x else x) (spend_receipts (snd ?b)) =
        map (\<lambda>x. if recovery_due now x then clear_recovery x else x) (spend_receipts lg)"
      using split(2) by (auto simp: expire_batch_def)
    with 1(1) [OF refl prod.collapse False d] False show ?thesis
      by (subst expire_loop.simps) (simp add: split_beta split(1) expire_batch_def)
  qed
qed

lemma recovery_due_alt:
  "recovery_due now x \<longleftrightarrow> recovery x \<noteq> None \<and> (\<exists>t. recovery_expires_at x = Some t \<and> t \<le> now)"
  by (auto simp: recovery_due_def split: option.splits)

text \<open>
  C26. The expiry loop, which erases 64 saved answers at a time, ends; it erases exactly the saved
  answers whose expiry text is not after the text of now, reports their number, and leaves every
  other field of every receipt and every account as it was.
\<close>

theorem expire_recovery_erases_due:
  assumes "ledger_step\<^sup>*\<^sup>* empty_ledger lg"
  shows "expire_recovery env clk lg =
    (length (filter (\<lambda>x. recovery x \<noteq> None \<and> (\<exists>t. recovery_expires_at x = Some t \<and> t \<le> to_rfc3339 env clk))
       (spend_receipts lg)),
     lg\<lparr>spend_receipts := map (\<lambda>x.
        if recovery x \<noteq> None \<and> (\<exists>t. recovery_expires_at x = Some t \<and> t \<le> to_rfc3339 env clk)
        then x\<lparr>recovery := None, recovery_expires_at := None\<rparr> else x) (spend_receipts lg)\<rparr>)"
  using expire_loop_clears [OF led_okD(1) [OF reach_ok [OF assms]]]
  unfolding expire_recovery_def recoveries_due_def clear_recovery_def recovery_due_alt [symmetric] by simp

theorem expire_recovery_erases_due_witness:
  "fst (expire_recovery demo_spend_env 10 demo_saved) = 1"
proof -
  have "length (filter (recovery_due (to_rfc3339 demo_spend_env 10)) (spend_receipts demo_saved)) = 1" by code_simp
  then show ?thesis
    using expire_recovery_erases_due [OF demo_saved_reach, of demo_spend_env 10]
    unfolding recovery_due_alt [symmetric] by simp
qed

end
