(* ===== verification/Job_Store_Inv.thy ===== *)
theory Job_Store_Inv
  imports Job_Store
begin

text \<open>
  The job store keeps its tables consistent and moves every job along one life cycle.

  \<open>db_idx\<close> is the consistency of the tables (unique identities, unique keys per scope, the owner
  index agrees with the records), \<open>rec_ok\<close> the well-formedness of one record in each phase of
  its life, \<open>jf\<close> what may happen to a record from one state of the store to a later one. \<open>moves\<close>
  puts them together for the whole store and \<open>steps\<close> adds that no job is inserted or confirmed; both are
  transitive, so the loops of the handlers reduce to one call of \<open>save\<close>, for which \<open>save_live\<close>,
  \<open>save_tomb\<close> and \<open>save_new\<close> are the rules.
\<close>

section \<open>Consistency\<close>

definition db_idx :: "jobs_db \<Rightarrow> bool" where
  "db_idx db \<longleftrightarrow>
     distinct (map job_id (jobs db)) \<and>
     (\<forall>r \<in> set (jobs db). \<forall>r' \<in> set (jobs db).
        scope_of (job_id r) = scope_of (job_id r') \<and> key r = key r' \<longrightarrow> job_id r = job_id r') \<and>
     (\<forall>sc ow i. (sc, ow, i) \<in> set (job_owners db) \<longleftrightarrow>
        (\<exists>r \<in> set (jobs db). job_id r = \<lparr>scope_of = sc, ident = i\<rparr> \<and> ow \<in> set (owners r)))"

definition no_copies :: "JobRecord \<Rightarrow> bool" where
  "no_copies r \<longleftrightarrow> payload r = None \<and> admission r = None \<and> job_output r = None"

definition tomb_ok :: "JobRecord \<Rightarrow> bool" where
  "tomb_ok r \<longleftrightarrow>
     no_copies r \<and> output_bytes r = 0 \<and> owners r = [] \<and> job_group r = None \<and> lease_until r = None \<and>
     diagnostic r = None \<and> origin r = None \<and> (\<exists>st. final_state r = Some st \<and> delivery_state st)"

definition live_ok :: "JobRecord \<Rightarrow> bool" where
  "live_ok r \<longleftrightarrow>
     1 \<le> max_attempts r \<and> generation r \<le> max_attempts r \<and> final_state r = None \<and>
     (state r = Running \<longleftrightarrow> lease_until r \<noteq> None) \<and> (state r = Running \<longrightarrow> 1 \<le> generation r) \<and>
     (delivery_state (state r) \<longleftrightarrow> finished_at r \<noteq> None) \<and>
     (delivery_state (state r) \<longrightarrow> recovery_until r \<noteq> None) \<and>
     (job_output r \<noteq> None \<longrightarrow> delivery_state (state r) \<and> execution r = Handler) \<and>
     (job_output r = None \<longrightarrow> output_bytes r = 0) \<and>
     (purged r \<or> result_expired r \<longrightarrow> no_copies r) \<and>
     (unfinished (state r) \<and> \<not> purged r \<longrightarrow> payload r \<noteq> None) \<and>
     (result_expired r \<longrightarrow> delivery_state (state r)) \<and>
     (state r = Pending \<or> state r = AwaitingAdmission \<longrightarrow> \<not> purged r \<and> \<not> cancel_requested r) \<and>
     (state r = Uncertain \<or> state r = AwaitingAdmission \<longrightarrow> execution r = Model) \<and>
     (state r = Purged \<longrightarrow> purged r) \<and> (purged r \<longrightarrow> owners r = [] \<and> cancel_requested r) \<and>
     (purged r \<and> delivery_state (state r) \<longrightarrow> state r = Purged)"

definition rec_ok :: "JobRecord \<Rightarrow> bool" where
  "rec_ok r \<longleftrightarrow> (if acked (state r) then tomb_ok r else live_ok r)"

definition db_ok :: "jobs_db \<Rightarrow> bool" where
  "db_ok db \<longleftrightarrow> db_idx db \<and> (\<forall>r \<in> set (jobs db). rec_ok r)"

section \<open>Evolution of a record\<close>

definition jkeep :: "JobRecord \<Rightarrow> JobRecord \<Rightarrow> bool" where
  "jkeep r r' \<longleftrightarrow>
     kind r' = kind r \<and> max_attempts r' = max_attempts r \<and> job_group r' = job_group r \<and>
     generation r \<le> generation r' \<and> (owners r' = owners r \<or> owners r' = []) \<and>
     (purged r \<longrightarrow> purged r') \<and> (cancel_requested r \<longrightarrow> cancel_requested r') \<and>
     (result_expired r \<longrightarrow> result_expired r')"

definition jf :: "JobRecord \<Rightarrow> JobRecord \<Rightarrow> bool" where
  "jf r r' \<longleftrightarrow>
     job_id r' = job_id r \<and> key r' = key r \<and> digest r' = digest r \<and> execution r' = execution r \<and>
     delivery_generation r \<le> delivery_generation r' \<and>
     (acked (state r) \<longrightarrow> r' = r) \<and>
     (delivery_state (state r) \<longrightarrow> \<not> unfinished (state r') \<and> job_output r' \<in> {job_output r, None}) \<and>
     payload r' \<in> {payload r, None} \<and>
     (\<not> acked (state r') \<longrightarrow> jkeep r r')"

lemma jkeep_trans: "jkeep a b \<Longrightarrow> jkeep b c \<Longrightarrow> jkeep a c"
  unfolding jkeep_def by (elim conjE disjE; simp)

lemma jf_refl [simp]: "jf r r"
  by (auto simp: jf_def jkeep_def three_phases)

lemma jf_trans:
  assumes "jf a b" and "jf b c"
  shows "jf a c"
proof (cases "acked (state b)")
  case True
  then have "c = b" using assms(2) by (simp add: jf_def)
  with assms(1) show ?thesis by simp
next
  case False
  then have a: "\<not> acked (state a)" using assms(1) by (auto simp: jf_def)
  have d: "delivery_state (state a) \<Longrightarrow> delivery_state (state b)"
    using assms(1) False by (simp add: jf_def three_phases)
  have id: "job_id c = job_id a" "key c = key a" "digest c = digest a" "execution c = execution a"
    "delivery_generation a \<le> delivery_generation c"
    using assms by (simp_all add: jf_def)
  have "payload b \<in> {payload a, None}" "payload c \<in> {payload b, None}" using assms by (simp_all add: jf_def)
  then have pl: "payload c \<in> {payload a, None}" by auto
  have dl: "delivery_state (state a) \<Longrightarrow> \<not> unfinished (state c) \<and> job_output c \<in> {job_output a, None}"
  proof -
    assume da: "delivery_state (state a)"
    have "job_output b \<in> {job_output a, None}" using assms(1) da by (simp add: jf_def)
    moreover have "\<not> unfinished (state c)" "job_output c \<in> {job_output b, None}"
      using assms(2) d [OF da] by (simp_all add: jf_def)
    ultimately show ?thesis by auto
  qed
  have lv: "\<not> acked (state c) \<Longrightarrow> jkeep a c"
    using assms False jkeep_trans [of a b c] by (simp add: jf_def)
  show ?thesis unfolding jf_def using id pl dl lv a by blast
qed

section \<open>Rows by identity\<close>

lemma row_get_Some:
  assumes "distinct (map job_id (jobs db))"
  shows "row_get db j = Some r \<longleftrightarrow> r \<in> set (jobs db) \<and> job_id r = j"
proof -
  have "find (\<lambda>r. job_id r = j) rs = Some r \<longleftrightarrow> r \<in> set rs \<and> job_id r = j" if "distinct (map job_id rs)" for rs
    using that
  proof (induction rs)
    case (Cons a rs)
    then show ?case by (cases "job_id a = j") (auto simp: image_iff)
  qed simp
  then show ?thesis unfolding row_get_def using assms by blast
qed

lemma row_get_None: "row_get db j = None \<longleftrightarrow> (\<forall>r \<in> set (jobs db). job_id r \<noteq> j)"
  by (auto simp: row_get_def find_None_iff)

lemma db_idxD:
  assumes "db_idx db"
  shows idx_ids: "distinct (map job_id (jobs db))"
    and idx_key: "r \<in> set (jobs db) \<Longrightarrow> r' \<in> set (jobs db) \<Longrightarrow>
      scope_of (job_id r) = scope_of (job_id r') \<Longrightarrow> key r = key r' \<Longrightarrow> job_id r = job_id r'"
    and idx_owner: "(sc, ow, i) \<in> set (job_owners db) \<longleftrightarrow>
      (\<exists>r \<in> set (jobs db). job_id r = \<lparr>scope_of = sc, ident = i\<rparr> \<and> ow \<in> set (owners r))"
  using assms unfolding db_idx_def by blast+

lemma row_get_in: "db_idx db \<Longrightarrow> row_get db j = Some r \<longleftrightarrow> r \<in> set (jobs db) \<and> job_id r = j"
  using row_get_Some [OF idx_ids] .

lemma row_get_update:
  assumes "\<And>r. r \<in> set (jobs db) \<Longrightarrow> job_id r = i \<Longrightarrow> job_id (f r) = i"
  shows "row_get (update_row i f db) j = (if j = i then map_option f (row_get db j) else row_get db j)"
proof -
  have "find (\<lambda>r. job_id r = j) (map (\<lambda>r. if job_id r = i then f r else r) rs) =
      (if j = i then map_option f (find (\<lambda>r. job_id r = j) rs) else find (\<lambda>r. job_id r = j) rs)"
    if "\<And>r. r \<in> set rs \<Longrightarrow> job_id r = i \<Longrightarrow> job_id (f r) = i" for rs
    using that by (induction rs) auto
  with assms show ?thesis by (simp add: row_get_def update_row_def)
qed

lemma owner_sync_iff:
  "db_idx db \<Longrightarrow> (sc, ow, i) \<in> set (job_owners db) \<longleftrightarrow>
     (\<exists>r. row_get db \<lparr>scope_of = sc, ident = i\<rparr> = Some r \<and> ow \<in> set (owners r))"
  using idx_owner row_get_in by blast

section \<open>Saving one record\<close>

text \<open>The record as it is read back after \<^verbatim>\<open>save\<close>.\<close>

definition stored :: "env \<Rightarrow> JobRecord \<Rightarrow> JobError + JobRecord" where
  "stored e r =
     (if acked (state r) then
        and_then (ensure (delivery_generation r \<le> i64_max) Storage) (\<lambda>_. Inr (tombstone (UNIX_EPOCH e) r))
      else
        and_then (millisecond_time e (created_at r)) (\<lambda>created.
        and_then (optional_time e (lease_until r)) (\<lambda>lease.
        and_then (optional_time e (recovery_until r)) (\<lambda>recovery.
        and_then (optional_time e (finished_at r)) (\<lambda>finished.
        and_then (optional_time e (delivery_until r)) (\<lambda>delivery.
        and_then (ensure (generation r \<le> i64_max \<and> delivery_generation r \<le> i64_max) Storage) (\<lambda>_.
        and_then (stored_output_bytes e r) (\<lambda>n.
        and_then (ensure (n \<le> i64_max) Storage) (\<lambda>_.
        Inr (r\<lparr>created_at := created, lease_until := lease, recovery_until := recovery,
               finished_at := finished, delivery_until := delivery, output_bytes := n\<rparr>))))))))))"

definition synced :: "JobRecord \<Rightarrow> jobs_db \<Rightarrow> jobs_db \<Rightarrow> jobs_db" where
  "synced r db db1 =
     (if acked (state r) then drop_owners (job_id r) db1
      else if (case row_get db (job_id r) of None \<Rightarrow> True | Some x \<Rightarrow> owners x \<noteq> owners r)
      then add_owners (job_id r) (owners r) (drop_owners (job_id r) db1) else db1)"

lemma and_then_assoc: "and_then (and_then m f) g = and_then m (\<lambda>x. and_then (f x) g)"
  by (cases m) simp_all

lemma save_alt: "save e r db = and_then (stored e r) (\<lambda>r'. and_then (upsert r' db) (\<lambda>db1. Inr (synced r db db1)))"
  by (simp add: save_def stored_def synced_def and_then_assoc Let_def)

lemma optional_time_None: "optional_time e t = Inr t' \<Longrightarrow> t' = None \<longleftrightarrow> t = None"
  by (auto simp: optional_time_def and_then_Inr split: option.splits)

definition requant :: "JobRecord \<Rightarrow> JobRecord \<Rightarrow> bool" where
  "requant r r' \<longleftrightarrow>
     (\<exists>c l rc f d n. r' = r\<lparr>created_at := c, lease_until := l, recovery_until := rc, finished_at := f,
        delivery_until := d, output_bytes := n\<rparr> \<and>
      (l = None \<longleftrightarrow> lease_until r = None) \<and> (rc = None \<longleftrightarrow> recovery_until r = None) \<and>
      (f = None \<longleftrightarrow> finished_at r = None) \<and> (job_output r = None \<longrightarrow> n = 0))"

lemma stored_cases:
  assumes "stored e r = Inr r'"
  shows "acked (state r) \<and> r' = tombstone (UNIX_EPOCH e) r \<or> \<not> acked (state r) \<and> requant r r'"
proof (cases "acked (state r)")
  case True
  with assms show ?thesis by (auto simp: stored_def and_then_Inr)
next
  case False
  with assms obtain c l rc f d n where
    t: "optional_time e (lease_until r) = Inr l" "optional_time e (recovery_until r) = Inr rc"
      "optional_time e (finished_at r) = Inr f" "stored_output_bytes e r = Inr n"
      and r': "r' = r\<lparr>created_at := c, lease_until := l, recovery_until := rc, finished_at := f,
        delivery_until := d, output_bytes := n\<rparr>"
    by (auto simp: stored_def and_then_Inr)
  have "job_output r = None \<Longrightarrow> n = 0" using t(4) by (simp add: stored_output_bytes_def)
  with optional_time_None [OF t(1)] optional_time_None [OF t(2)] optional_time_None [OF t(3)] have "requant r r'"
    unfolding requant_def
    by (intro exI [of _ c] exI [of _ l] exI [of _ rc] exI [of _ f] exI [of _ d] exI [of _ n] conjI r') blast+
  with False show ?thesis by blast
qed

lemma requant_simps:
  assumes "requant r r'"
  shows "job_id r' = job_id r" "key r' = key r" "digest r' = digest r" "job_group r' = job_group r"
    "owners r' = owners r" "kind r' = kind r" "execution r' = execution r" "state r' = state r"
    "final_state r' = final_state r" "payload r' = payload r" "admission r' = admission r"
    "max_attempts r' = max_attempts r" "generation r' = generation r" "cancel_requested r' = cancel_requested r"
    "purged r' = purged r" "job_output r' = job_output r" "result_expired r' = result_expired r"
    "delivery_generation r' = delivery_generation r" "origin r' = origin r" "receipt r' = receipt r"
    "diagnostic r' = diagnostic r"
    "lease_until r' = None \<longleftrightarrow> lease_until r = None" "recovery_until r' = None \<longleftrightarrow> recovery_until r = None"
    "finished_at r' = None \<longleftrightarrow> finished_at r = None" "job_output r = None \<Longrightarrow> output_bytes r' = 0"
  using assms unfolding requant_def by (elim exE conjE, simp)+

lemma tombstone_simps [simp]:
  "job_id (tombstone ep r) = job_id r" "key (tombstone ep r) = key r" "digest (tombstone ep r) = digest r"
  "execution (tombstone ep r) = execution r" "state (tombstone ep r) = state r"
  "final_state (tombstone ep r) = final_state r" "owners (tombstone ep r) = []"
  "payload (tombstone ep r) = None" "admission (tombstone ep r) = None" "job_output (tombstone ep r) = None"
  "output_bytes (tombstone ep r) = 0" "delivery_generation (tombstone ep r) = delivery_generation r"
  "receipt (tombstone ep r) = receipt r" "job_group (tombstone ep r) = None" "lease_until (tombstone ep r) = None"
  "diagnostic (tombstone ep r) = None" "origin (tombstone ep r) = None"
  by (simp_all add: tombstone_def)

lemma stored_ids:
  assumes "stored e r = Inr r'"
  shows "job_id r' = job_id r" "key r' = key r" "digest r' = digest r" "state r' = state r"
    "execution r' = execution r" "delivery_generation r' = delivery_generation r"
    "owners r' = (if acked (state r) then [] else owners r)"
  using stored_cases [OF assms] by (auto simp: requant_simps)

lemma upsert_get:
  assumes "db_idx db" and "upsert r db = Inr db1"
  shows "row_get db1 j = (if j = job_id r then Some r else row_get db j)"
    and "job_owners db1 = job_owners db"
    and "distinct (map job_id (jobs db1))"
    and "set (jobs db1) = insert r {x \<in> set (jobs db). job_id x \<noteq> job_id r}"
    and "\<And>x. x \<in> set (jobs db) \<Longrightarrow> job_id x \<noteq> job_id r \<Longrightarrow> scope_of (job_id x) = scope_of (job_id r) \<Longrightarrow> key x \<noteq> key r"
proof -
  note d = idx_ids [OF assms(1)]
  have nk: "\<not> list_ex (\<lambda>x. job_id x \<noteq> job_id r \<and> scope_of (job_id x) = scope_of (job_id r) \<and> key x = key r) (jobs db)"
    using assms(2) by (auto simp: upsert_def split: if_splits)
  then show "\<And>x. x \<in> set (jobs db) \<Longrightarrow> job_id x \<noteq> job_id r \<Longrightarrow> scope_of (job_id x) = scope_of (job_id r) \<Longrightarrow> key x \<noteq> key r"
    by (auto simp: list_ex_iff)
  have up: "(if list_ex (\<lambda>x. job_id x = job_id r) (jobs db) then Inr (update_row (job_id r) (\<lambda>_. r) db)
      else Inr (db\<lparr>jobs := jobs db @ [r]\<rparr>)) = (Inr db1 :: JobError + jobs_db)"
    using assms(2) unfolding upsert_def if_not_P [OF nk] .
  show "job_owners db1 = job_owners db"
    using assms(2) by (auto simp: upsert_def update_row_def split: if_splits)
  have *: "distinct (map job_id (jobs db1)) \<and> set (jobs db1) = insert r {x \<in> set (jobs db). job_id x \<noteq> job_id r}"
  proof (cases "\<exists>x \<in> set (jobs db). job_id x = job_id r")
    case True
    then have j: "jobs db1 = map (\<lambda>x. if job_id x = job_id r then r else x) (jobs db)"
      using up by (auto simp: list_ex_iff update_row_def)
    have "map job_id (jobs db1) = map job_id (jobs db)" unfolding j by simp
    with d have "distinct (map job_id (jobs db1))" by metis
    moreover have "set (jobs db1) = insert r {x \<in> set (jobs db). job_id x \<noteq> job_id r}"
      unfolding j using True by auto
    ultimately show ?thesis by blast
  next
    case False
    then have j: "jobs db1 = jobs db @ [r]" using up by (auto simp: list_ex_iff)
    have "{x \<in> set (jobs db). job_id x \<noteq> job_id r} = set (jobs db)" using False by auto
    moreover have "distinct (map job_id (jobs db1))" using d False by (auto simp: j)
    ultimately show ?thesis by (simp add: j)
  qed
  then show "distinct (map job_id (jobs db1))" and "set (jobs db1) = insert r {x \<in> set (jobs db). job_id x \<noteq> job_id r}"
    by blast+
  show "row_get db1 j = (if j = job_id r then Some r else row_get db j)"
  proof (cases "row_get db1 j")
    case None
    then have n: "\<forall>x \<in> set (jobs db1). job_id x \<noteq> j" by (simp only: row_get_None)
    then have "j \<noteq> job_id r" "row_get db j = None" unfolding row_get_None using conjunct2 [OF *] by auto
    with None show ?thesis by simp
  next
    case (Some y)
    then have y: "y \<in> set (jobs db1)" "job_id y = j" using row_get_Some conjunct1 [OF *] by blast+
    then have "y = r \<and> j = job_id r \<or> y \<in> set (jobs db) \<and> j \<noteq> job_id r" using conjunct2 [OF *] by auto
    then show ?thesis using Some row_get_Some [OF d, of j y] y by auto
  qed
qed

lemma drop_owners_simps [simp]:
  "jobs (drop_owners j db) = jobs db"
  "(sc, ow, i) \<in> set (job_owners (drop_owners j db)) \<longleftrightarrow>
     (sc, ow, i) \<in> set (job_owners db) \<and> \<lparr>scope_of = sc, ident = i\<rparr> \<noteq> j"
  by (auto simp: drop_owners_def)

lemma add_owners_simps [simp]:
  "jobs (add_owners j os db) = jobs db"
  "(sc, ow, i) \<in> set (job_owners (add_owners j os db)) \<longleftrightarrow>
     (sc, ow, i) \<in> set (job_owners db) \<or> \<lparr>scope_of = sc, ident = i\<rparr> = j \<and> ow \<in> set os"
proof -
  have "set (fold (\<lambda>ow rows. if (scope_of j, ow, ident j) \<in> set rows then rows
      else rows @ [(scope_of j, ow, ident j)]) os rs) = set rs \<union> (\<lambda>ow. (scope_of j, ow, ident j)) ` set os" for rs
    by (induction os arbitrary: rs) auto
  then show "(sc, ow, i) \<in> set (job_owners (add_owners j os db)) \<longleftrightarrow>
     (sc, ow, i) \<in> set (job_owners db) \<or> \<lparr>scope_of = sc, ident = i\<rparr> = j \<and> ow \<in> set os"
    by (cases j) (auto simp: add_owners_def)
qed (simp add: add_owners_def)

lemma save_get:
  assumes idx: "db_idx db" and sv: "save e r db = Inr db'"
  shows "\<exists>r'. stored e r = Inr r' \<and> db_idx db' \<and> (\<forall>j. row_get db' j = (if j = job_id r then Some r' else row_get db j))"
proof -
  from sv obtain r' db1 where r': "stored e r = Inr r'" and up: "upsert r' db = Inr db1" and db': "db' = synced r db db1"
    by (auto simp: save_alt and_then_Inr)
  note ids = stored_ids [OF r']
  note U = upsert_get [OF idx up, unfolded ids(1,2)]
  have js: "jobs db' = jobs db1" by (simp add: db' synced_def)
  have rg: "row_get db' j = (if j = job_id r then Some r' else row_get db j)" for j
    using U(1) [of j] by (simp add: row_get_def js)
  have own: "(sc, ow, i) \<in> set (job_owners db') \<longleftrightarrow>
      (if \<lparr>scope_of = sc, ident = i\<rparr> = job_id r then ow \<in> set (owners r') else (sc, ow, i) \<in> set (job_owners db))" for sc ow i
  proof (cases "row_get db (job_id r)")
    case None
    then have "\<lparr>scope_of = sc, ident = i\<rparr> = job_id r \<Longrightarrow> (sc, ow, i) \<notin> set (job_owners db)"
      using owner_sync_iff [OF idx, of sc ow i] by auto
    with None show ?thesis by (auto simp: db' synced_def U(2) ids(7))
  next
    case (Some x)
    then have "\<lparr>scope_of = sc, ident = i\<rparr> = job_id r \<Longrightarrow> (sc, ow, i) \<in> set (job_owners db) \<longleftrightarrow> ow \<in> set (owners x)"
      using owner_sync_iff [OF idx, of sc ow i] by auto
    with Some show ?thesis by (auto simp: db' synced_def U(2) ids(7))
  qed
  have "db_idx db'"
    unfolding db_idx_def
  proof (intro conjI ballI allI impI)
    show "distinct (map job_id (jobs db'))" using U(3) by (simp add: js)
    fix x y
    assume "x \<in> set (jobs db')" "y \<in> set (jobs db')" "scope_of (job_id x) = scope_of (job_id y) \<and> key x = key y"
    then show "job_id x = job_id y"
      unfolding js U(4) using U(5) [of x] U(5) [of y] idx_key [OF idx, of x y] ids(1,2) by auto
  next
    fix sc ow i
    have "(\<exists>x \<in> set (jobs db'). job_id x = \<lparr>scope_of = sc, ident = i\<rparr> \<and> ow \<in> set (owners x)) \<longleftrightarrow>
        (if \<lparr>scope_of = sc, ident = i\<rparr> = job_id r then ow \<in> set (owners r')
         else \<exists>x \<in> set (jobs db). job_id x = \<lparr>scope_of = sc, ident = i\<rparr> \<and> ow \<in> set (owners x))"
      unfolding js U(4) using ids(1) by auto
    then show "(sc, ow, i) \<in> set (job_owners db') \<longleftrightarrow>
        (\<exists>x \<in> set (jobs db'). job_id x = \<lparr>scope_of = sc, ident = i\<rparr> \<and> ow \<in> set (owners x))"
      using own [of sc ow i] idx_owner [OF idx, of sc ow i] by simp
  qed
  with r' rg show ?thesis by blast
qed

section \<open>Evolution of the store\<close>

definition moves :: "JobScope \<Rightarrow> jobs_db \<Rightarrow> jobs_db \<Rightarrow> bool" where
  "moves sc db db' \<longleftrightarrow>
     db_ok db' \<and>
     (\<forall>j r. row_get db j = Some r \<longrightarrow>
        (\<exists>r'. row_get db' j = Some r' \<and> jf r r' \<and> (scope_of j \<noteq> sc \<longrightarrow> r' = r))) \<and>
     (\<forall>j. row_get db j = None \<and> scope_of j \<noteq> sc \<longrightarrow> row_get db' j = None)"

text \<open>
  Which rows a request may add and confirm. All but two requests are \<open>calm\<close>: they insert no job and
  confirm none. An acknowledgement only confirms final jobs (\<open>acks\<close>), an enqueue only inserts open
  ones (\<open>enters\<close>). Each of the three is transitive, their union is not: no request both finishes a
  job and confirms it.
\<close>

definition calm :: "jobs_db \<Rightarrow> jobs_db \<Rightarrow> bool" where
  "calm db db' \<longleftrightarrow> (\<forall>j r'. row_get db' j = Some r' \<longrightarrow>
     (\<exists>r. row_get db j = Some r \<and> (acked (state r') \<longrightarrow> acked (state r))))"

definition acks :: "jobs_db \<Rightarrow> jobs_db \<Rightarrow> bool" where
  "acks db db' \<longleftrightarrow> (\<forall>j. row_get db' j = row_get db j \<or>
     (\<exists>r r'. row_get db j = Some r \<and> delivery_state (state r) \<and> row_get db' j = Some r' \<and> acked (state r')))"

definition enters :: "jobs_db \<Rightarrow> jobs_db \<Rightarrow> bool" where
  "enters db db' \<longleftrightarrow> (\<forall>j. row_get db' j = row_get db j \<or>
     row_get db j = None \<and> (\<exists>r'. row_get db' j = Some r' \<and> unfinished (state r')))"

definition steps :: "JobScope \<Rightarrow> jobs_db \<Rightarrow> jobs_db \<Rightarrow> bool" where
  "steps sc db db' \<longleftrightarrow> moves sc db db' \<and> calm db db'"

lemma moves_refl: "db_ok db \<Longrightarrow> moves sc db db"
  by (simp add: moves_def)

lemma moves_trans:
  assumes "moves sc a b" and "moves sc b c"
  shows "moves sc a c"
proof -
  have "\<exists>r'. row_get c j = Some r' \<and> jf r r' \<and> (scope_of j \<noteq> sc \<longrightarrow> r' = r)" if "row_get a j = Some r" for j r
  proof -
    from assms(1) that obtain r1 where r1: "row_get b j = Some r1" "jf r r1" "scope_of j \<noteq> sc \<longrightarrow> r1 = r"
      unfolding moves_def by blast
    from assms(2) r1(1) obtain r2 where "row_get c j = Some r2" "jf r1 r2" "scope_of j \<noteq> sc \<longrightarrow> r2 = r1"
      unfolding moves_def by blast
    with r1 jf_trans show ?thesis by blast
  qed
  with assms show ?thesis unfolding moves_def by blast
qed

lemma moves_ok: "moves sc a b \<Longrightarrow> db_ok b"
  by (simp add: moves_def)

lemma moves_ev: "moves sc db db' \<Longrightarrow> row_get db j = Some r \<Longrightarrow> \<exists>r'. row_get db' j = Some r' \<and> jf r r'"
  unfolding moves_def by blast

lemma calm_trans: "calm a b \<Longrightarrow> calm b c \<Longrightarrow> calm a c"
  unfolding calm_def by blast

lemma acks_refl [simp]: "acks db db"
  by (simp add: acks_def)

lemma acks_trans:
  assumes "acks a b" and "acks b c"
  shows "acks a c"
  unfolding acks_def
proof
  fix j
  show "row_get c j = row_get a j \<or>
     (\<exists>r r'. row_get a j = Some r \<and> delivery_state (state r) \<and> row_get c j = Some r' \<and> acked (state r'))"
    using spec [OF assms(1) [unfolded acks_def], of j] spec [OF assms(2) [unfolded acks_def], of j]
    by (metis option.inject three_phases)
qed

lemma enters_refl [simp]: "enters db db"
  by (simp add: enters_def)

lemma enters_trans: "enters a b \<Longrightarrow> enters b c \<Longrightarrow> enters a c"
  unfolding enters_def by (metis option.distinct(1))

lemma steps_moves: "steps sc a b \<Longrightarrow> moves sc a b"
  by (simp add: steps_def)

lemma steps_refl: "db_ok db \<Longrightarrow> steps sc db db"
  by (simp add: steps_def moves_refl calm_def)

lemma steps_trans: "steps sc a b \<Longrightarrow> steps sc b c \<Longrightarrow> steps sc a c"
  unfolding steps_def using moves_trans calm_trans by blast

lemma steps_ok: "steps sc a b \<Longrightarrow> db_ok b"
  by (simp add: steps_def moves_def)

lemma db_okD: "db_ok db \<Longrightarrow> db_idx db" "db_ok db \<Longrightarrow> row_get db j = Some r \<Longrightarrow> rec_ok r"
  using row_get_in by (auto simp: db_ok_def)

lemma db_okI: "db_idx db \<Longrightarrow> (\<And>j r. row_get db j = Some r \<Longrightarrow> rec_ok r) \<Longrightarrow> db_ok db"
  using row_get_in unfolding db_ok_def by blast


lemma requant_live_ok:
  assumes q: "requant r r'" and l: "live_ok r"
  shows "live_ok r'"
  using l requant_simps(25) [OF q]
  unfolding live_ok_def no_copies_def requant_simps(1-24) [OF q]
  by (elim conjE) (intro conjI; (assumption | blast))

lemma requant_jf: "requant r r' \<Longrightarrow> jf r0 r \<Longrightarrow> \<not> acked (state r) \<Longrightarrow> jf r0 r'"
  unfolding jf_def jkeep_def using requant_simps [of r r'] by (cases "acked (state r0)") simp_all

lemma tombstone_tomb_ok: "final_state r = Some st \<Longrightarrow> delivery_state st \<Longrightarrow> tomb_ok (tombstone ep r)"
  by (simp add: tomb_ok_def no_copies_def)

section \<open>The rules for one write\<close>

text \<open>Replacing one row by a well-formed successor is a step of the store.\<close>

lemma replaced_moves:
  assumes ok: "db_ok db" and idx: "db_idx db'" and old: "row_get db j = Some r0"
    and get: "\<forall>i. row_get db' i = (if i = j then Some r' else row_get db i)"
    and r': "rec_ok r'" "jf r0 r'"
  shows "moves (scope_of j) db db'"
proof -
  have "db_ok db'"
    using get r'(1) db_okD(2) [OF ok] by (intro db_okI [OF idx]) (auto split: if_splits)
  then show ?thesis unfolding moves_def using get old r'(2) by auto
qed

lemma replaced_steps:
  assumes "db_ok db" and "db_idx db'" and old: "row_get db j = Some r0"
    and get: "\<forall>i. row_get db' i = (if i = j then Some r' else row_get db i)"
    and "rec_ok r'" "jf r0 r'" and a: "acked (state r') \<Longrightarrow> acked (state r0)"
  shows "steps (scope_of j) db db'"
  using replaced_moves [OF assms(1-6)] get old a by (auto simp: steps_def calm_def)

lemma save_live:
  assumes ok: "db_ok db" and old: "row_get db (job_id r0) = Some r0"
    and r: "\<not> acked (state r)" "live_ok r" "jf r0 r" and sv: "save e r db = Inr db'"
  shows "steps (scope_of (job_id r0)) db db' \<and>
    (\<exists>r'. requant r r' \<and> (\<forall>j. row_get db' j = (if j = job_id r0 then Some r' else row_get db j)))"
proof -
  have id: "job_id r = job_id r0" using r(3) by (simp add: jf_def)
  from save_get [OF db_okD(1) [OF ok] sv] obtain r' where st: "stored e r = Inr r'" and idx: "db_idx db'"
    and get: "\<forall>j. row_get db' j = (if j = job_id r0 then Some r' else row_get db j)"
    unfolding id by blast
  have q: "requant r r'" using stored_cases [OF st] r(1) by blast
  have "rec_ok r'" using requant_live_ok [OF q r(2)] r(1) requant_simps(8) [OF q] by (simp add: rec_ok_def)
  moreover have "\<not> acked (state r')" using r(1) requant_simps(8) [OF q] by simp
  ultimately show ?thesis
    using replaced_steps [OF ok idx old get _ requant_jf [OF q r(3,1)]] q get by blast
qed

lemma save_tomb:
  assumes ok: "db_ok db" and old: "row_get db (job_id r0) = Some r0" and d: "delivery_state (state r0)"
    and st: "acked st" and sv: "save e (r0\<lparr>final_state := Some (state r0), state := st\<rparr>) db = Inr db'"
  shows "moves (scope_of (job_id r0)) db db' \<and> (\<forall>j. row_get db' j =
    (if j = job_id r0 then Some (tombstone (UNIX_EPOCH e) (r0\<lparr>final_state := Some (state r0), state := st\<rparr>))
     else row_get db j))"
proof -
  let ?r = "r0\<lparr>final_state := Some (state r0), state := st\<rparr>"
  let ?t = "tombstone (UNIX_EPOCH e) ?r"
  from save_get [OF db_okD(1) [OF ok] sv] obtain r' where s: "stored e ?r = Inr r'" and idx: "db_idx db'"
    and get: "\<forall>j. row_get db' j = (if j = job_id r0 then Some r' else row_get db j)"
    by auto
  have r': "r' = ?t" using stored_cases [OF s] st by simp
  have "tomb_ok ?t" by (rule tombstone_tomb_ok [OF _ d]) simp
  then have "rec_ok ?t" by (simp add: rec_ok_def st)
  moreover have "jf r0 ?t" using d st unfinished_not_acked [of st] by (auto simp: jf_def three_phases)
  ultimately have "moves (scope_of (job_id r0)) db db'" using replaced_moves [OF ok idx old get] r' by simp
  with get r' show ?thesis by blast
qed

lemma save_new:
  assumes ok: "db_ok db" and new: "row_get db (job_id r) = None"
    and r: "\<not> acked (state r)" "live_ok r" and sv: "save e r db = Inr db'"
  shows "moves (scope_of (job_id r)) db db' \<and>
    (\<exists>r'. requant r r' \<and> (\<forall>j. row_get db' j = (if j = job_id r then Some r' else row_get db j)))"
proof -
  from save_get [OF db_okD(1) [OF ok] sv] obtain r' where st: "stored e r = Inr r'" and idx: "db_idx db'"
    and get: "\<forall>j. row_get db' j = (if j = job_id r then Some r' else row_get db j)"
    by blast
  have q: "requant r r'" using stored_cases [OF st] r(1) by blast
  have "rec_ok r'" using requant_live_ok [OF q r(2)] r(1) requant_simps(8) [OF q] by (simp add: rec_ok_def)
  then have "db_ok db'"
    using get db_okD(2) [OF ok] by (intro db_okI [OF idx]) (auto split: if_splits)
  then have "moves (scope_of (job_id r)) db db'" unfolding moves_def using get new by auto
  with q get show ?thesis by blast
qed

lemma update_row_live:
  assumes ok: "db_ok db" and old: "row_get db j = Some r0"
    and f: "job_id (f r0) = job_id r0" "key (f r0) = key r0" "owners (f r0) = owners r0"
    and r: "rec_ok (f r0)" "jf r0 (f r0)" and a: "acked (state (f r0)) \<Longrightarrow> acked (state r0)"
  shows "steps (scope_of j) db (update_row j f db) \<and>
    (\<forall>i. row_get (update_row j f db) i = (if i = j then Some (f r0) else row_get db i))"
proof -
  note idx = db_okD(1) [OF ok]
  have u: "x = r0" if "x \<in> set (jobs db)" "job_id x = j" for x
    using that row_get_in [OF idx, of j x] old by simp
  have jid: "job_id r0 = j" using row_get_in [OF idx, of j r0] old by simp
  have keep: "job_id (if job_id x = j then f x else x) = job_id x \<and>
      key (if job_id x = j then f x else x) = key x \<and> owners (if job_id x = j then f x else x) = owners x"
    if "x \<in> set (jobs db)" for x
    using u [OF that] f by auto
  have ids: "map job_id (jobs (update_row j f db)) = map job_id (jobs db)"
    using keep by (simp add: update_row_def)
  have get: "\<forall>i. row_get (update_row j f db) i = (if i = j then Some (f r0) else row_get db i)"
  proof
    fix i
    have "job_id (f r) = j" if "r \<in> set (jobs db)" "job_id r = j" for r using u [OF that] f(1) jid by simp
    from row_get_update [of db j f i, OF this] old
    show "row_get (update_row j f db) i = (if i = j then Some (f r0) else row_get db i)" by simp
  qed
  have "db_idx (update_row j f db)"
    unfolding db_idx_def ids
  proof (intro conjI ballI allI impI)
    show "distinct (map job_id (jobs db))" by (rule idx_ids [OF idx])
  next
    fix x y
    assume "x \<in> set (jobs (update_row j f db))" "y \<in> set (jobs (update_row j f db))"
      and k: "scope_of (job_id x) = scope_of (job_id y) \<and> key x = key y"
    then obtain x0 y0 where m: "x0 \<in> set (jobs db)" "y0 \<in> set (jobs db)"
      and e: "x = (if job_id x0 = j then f x0 else x0)" "y = (if job_id y0 = j then f y0 else y0)"
      by (auto simp: update_row_def)
    show "job_id x = job_id y"
      using idx_key [OF idx m] keep [OF m(1)] keep [OF m(2)] k e by metis
  next
    fix sc ow i
    have "(\<exists>x \<in> set (jobs (update_row j f db)). job_id x = \<lparr>scope_of = sc, ident = i\<rparr> \<and> ow \<in> set (owners x)) \<longleftrightarrow>
        (\<exists>x \<in> set (jobs db). job_id x = \<lparr>scope_of = sc, ident = i\<rparr> \<and> ow \<in> set (owners x))"
    proof -
      define g where "g = (\<lambda>x. if job_id x = j then f x else x)"
      have "set (jobs (update_row j f db)) = g ` set (jobs db)" by (simp add: update_row_def g_def)
      moreover have "job_id (g x) = job_id x \<and> owners (g x) = owners x" if "x \<in> set (jobs db)" for x
        using keep [OF that] by (simp add: g_def)
      ultimately show ?thesis by auto
    qed
    moreover have "job_owners (update_row j f db) = job_owners db" by (simp add: update_row_def)
    ultimately show "(sc, ow, i) \<in> set (job_owners (update_row j f db)) \<longleftrightarrow>
        (\<exists>x \<in> set (jobs (update_row j f db)). job_id x = \<lparr>scope_of = sc, ident = i\<rparr> \<and> ow \<in> set (owners x))"
      using idx_owner [OF idx, of sc ow i] by simp
  qed
  from replaced_steps [OF ok this old get r a] get show ?thesis by blast
qed

end
