(* ===== verification/Job_Store_Steps.thy ===== *)
theory Job_Store_Steps
  imports Job_Store_Inv
begin

text \<open>
  Every request of the job store is a step of the store.

  The rules for one write (\<open>save_live\<close>, \<open>save_tomb\<close>, \<open>save_new\<close>, \<open>update_row_live\<close>) are lifted to
  the record transformations of the source (\<open>finish\<close>, \<open>delete_copies\<close>, \<open>claim_job\<close>, \<open>resolved\<close>), to
  the loops and to each request; \<open>dispatch_moves\<close> collects them. \<open>next_ok r0 r\<close> says that \<open>r\<close> may be
  saved over \<open>r0\<close>.
\<close>

section \<open>Transformations of one record\<close>

definition next_ok :: "JobRecord \<Rightarrow> JobRecord \<Rightarrow> bool" where
  "next_ok r0 r \<longleftrightarrow> \<not> acked (state r) \<and> live_ok r \<and> jf r0 r"

text \<open>What \<^verbatim>\<open>finish\<close> needs of the record it closes.\<close>

definition ready :: "JobRecord \<Rightarrow> bool" where
  "ready r \<longleftrightarrow>
     1 \<le> max_attempts r \<and> generation r \<le> max_attempts r \<and> final_state r = None \<and>
     (job_output r \<noteq> None \<longrightarrow> execution r = Handler) \<and> (job_output r = None \<longrightarrow> output_bytes r = 0) \<and>
     (purged r \<longrightarrow> no_copies r \<and> owners r = [] \<and> cancel_requested r) \<and> (result_expired r \<longrightarrow> no_copies r)"

text \<open>Well-formedness of a record that still waits, runs or is unresolved.\<close>

definition open_ok :: "JobRecord \<Rightarrow> bool" where
  "open_ok r \<longleftrightarrow>
     1 \<le> max_attempts r \<and> generation r \<le> max_attempts r \<and> final_state r = None \<and> finished_at r = None \<and>
     job_output r = None \<and> output_bytes r = 0 \<and> \<not> result_expired r \<and>
     (if purged r then payload r = None \<and> admission r = None \<and> owners r = [] \<and> cancel_requested r
      else payload r \<noteq> None)"

definition phase_ok :: "JobRecord \<Rightarrow> bool" where
  "phase_ok r \<longleftrightarrow>
     (if state r = Running then lease_until r \<noteq> None \<and> 1 \<le> generation r
      else lease_until r = None \<and>
        (if state r = Uncertain then execution r = Model
         else \<not> purged r \<and> \<not> cancel_requested r \<and> (state r = AwaitingAdmission \<longrightarrow> execution r = Model)))"

lemma live_open: "unfinished (state r) \<Longrightarrow> live_ok r \<longleftrightarrow> open_ok r \<and> phase_ok r"
  unfolding live_ok_def open_ok_def phase_ok_def no_copies_def
  by (cases "state r") (auto simp del: not_None_eq)

definition done_ok :: "JobRecord \<Rightarrow> bool" where
  "done_ok r \<longleftrightarrow>
     1 \<le> max_attempts r \<and> generation r \<le> max_attempts r \<and> final_state r = None \<and> lease_until r = None \<and>
     finished_at r \<noteq> None \<and> recovery_until r \<noteq> None \<and>
     (job_output r = None \<longrightarrow> output_bytes r = 0) \<and> (job_output r \<noteq> None \<longrightarrow> execution r = Handler) \<and>
     (result_expired r \<longrightarrow> no_copies r) \<and>
     (if purged r then state r = Purged \<and> no_copies r \<and> owners r = [] \<and> cancel_requested r else state r \<noteq> Purged)"

lemma live_done: "delivery_state (state r) \<Longrightarrow> live_ok r \<longleftrightarrow> done_ok r"
  unfolding live_ok_def done_ok_def no_copies_def
  by (cases "state r") (auto simp del: not_None_eq)

lemma live_ready: "live_ok r \<Longrightarrow> ready r"
  unfolding live_ok_def ready_def by blast

lemma no_copies_simps [simp]:
  "no_copies (delete_copies r)" "no_copies (r\<lparr>state := st\<rparr>) = no_copies r" "no_copies (r\<lparr>lease_until := l\<rparr>) = no_copies r"
  "no_copies (r\<lparr>finished_at := f\<rparr>) = no_copies r" "no_copies (r\<lparr>recovery_until := rc\<rparr>) = no_copies r"
  "no_copies (r\<lparr>result_expired := b\<rparr>) = no_copies r" "no_copies (r\<lparr>generation := g\<rparr>) = no_copies r"
  "no_copies (r\<lparr>origin := og\<rparr>) = no_copies r" "no_copies (r\<lparr>receipt := rr\<rparr>) = no_copies r"
  "no_copies (r\<lparr>diagnostic := d\<rparr>) = no_copies r" "no_copies (r\<lparr>cancel_requested := b\<rparr>) = no_copies r"
  "no_copies (r\<lparr>delivery_generation := g\<rparr>) = no_copies r" "no_copies (r\<lparr>delivery_until := l\<rparr>) = no_copies r"
  by (simp_all add: no_copies_def delete_copies_def)

lemma neutral_updates [simp]:
  "live_ok (r\<lparr>receipt := rr\<rparr>) = live_ok r" "live_ok (r\<lparr>origin := og\<rparr>) = live_ok r"
  "live_ok (r\<lparr>diagnostic := d\<rparr>) = live_ok r" "live_ok (r\<lparr>delivery_generation := g\<rparr>) = live_ok r"
  "live_ok (r\<lparr>delivery_until := l\<rparr>) = live_ok r"
  "ready (r\<lparr>receipt := rr\<rparr>) = ready r" "ready (r\<lparr>origin := og\<rparr>) = ready r" "ready (r\<lparr>diagnostic := d\<rparr>) = ready r"
  "ready (r\<lparr>lease_until := l\<rparr>) = ready r" "ready (r\<lparr>recovery_until := l\<rparr>) = ready r"
  by (simp_all add: live_ok_def ready_def no_copies_def)

lemma neutral_jf [simp]:
  assumes "\<not> acked (state r0)"
  shows "jf r0 (r\<lparr>receipt := rr\<rparr>) = jf r0 r" "jf r0 (r\<lparr>origin := og\<rparr>) = jf r0 r" "jf r0 (r\<lparr>diagnostic := d\<rparr>) = jf r0 r"
    "jf r0 (r\<lparr>lease_until := l\<rparr>) = jf r0 r" "jf r0 (r\<lparr>recovery_until := l\<rparr>) = jf r0 r"
    "jf r0 (r\<lparr>delivery_until := l\<rparr>) = jf r0 r"
  using assms by (simp_all add: jf_def jkeep_def)

lemma delete_copies_fields [simp]:
  "job_id (delete_copies r) = job_id r" "key (delete_copies r) = key r" "digest (delete_copies r) = digest r"
  "job_group (delete_copies r) = job_group r" "owners (delete_copies r) = owners r" "kind (delete_copies r) = kind r"
  "execution (delete_copies r) = execution r" "state (delete_copies r) = state r"
  "final_state (delete_copies r) = final_state r" "max_attempts (delete_copies r) = max_attempts r"
  "generation (delete_copies r) = generation r" "lease_until (delete_copies r) = lease_until r"
  "cancel_requested (delete_copies r) = cancel_requested r" "purged (delete_copies r) = purged r"
  "recovery_until (delete_copies r) = recovery_until r" "result_expired (delete_copies r) = result_expired r"
  "created_at (delete_copies r) = created_at r" "finished_at (delete_copies r) = finished_at r"
  "delivery_generation (delete_copies r) = delivery_generation r" "delivery_until (delete_copies r) = delivery_until r"
  "payload (delete_copies r) = None" "admission (delete_copies r) = None" "job_output (delete_copies r) = None"
  "output_bytes (delete_copies r) = 0" "origin (delete_copies r) = origin r" "receipt (delete_copies r) = receipt r"
  "diagnostic (delete_copies r) = diagnostic r"
  by (simp_all add: delete_copies_def)

lemma delete_copies_next:
  assumes "next_ok r0 r" and "unfinished (state r) \<Longrightarrow> purged r"
  shows "next_ok r0 (delete_copies r)"
proof -
  have l: "live_ok r" "\<not> acked (state r)" "jf r0 r" using assms(1) by (simp_all add: next_ok_def)
  have "live_ok (delete_copies r)"
    using l(1) assms(2) no_copies_simps(1) [of r] unfolding live_ok_def delete_copies_fields
    by (elim conjE) (intro conjI; (assumption | blast))
  moreover have "jf r0 (delete_copies r)"
  proof (cases "acked (state r0)")
    case True
    then have "r = r0" using l(3) by (simp add: jf_def)
    with True l(2) show ?thesis by simp
  qed (use l(3) in \<open>simp add: jf_def jkeep_def\<close>)
  ultimately show ?thesis using l(2) by (simp add: next_ok_def)
qed

definition closed :: "JobState \<Rightarrow> time \<Rightarrow> time \<Rightarrow> JobRecord \<Rightarrow> JobRecord" where
  "closed st now until r =
     (let r2 = r\<lparr>state := st, finished_at := Some now, lease_until := None, recovery_until := Some until\<rparr> in
      if until \<le> now then delete_copies (r2\<lparr>result_expired := True\<rparr>) else r2)"

lemma finish_closed: "finish e cfg st now r = Inr r' \<Longrightarrow> \<exists>until. r' = closed st now until r"
  by (auto simp: finish_def closed_def Let_def and_then_Inr)

lemma closed_fields [simp]:
  "job_id (closed st now u r) = job_id r" "key (closed st now u r) = key r" "digest (closed st now u r) = digest r"
  "job_group (closed st now u r) = job_group r" "owners (closed st now u r) = owners r" "kind (closed st now u r) = kind r"
  "execution (closed st now u r) = execution r" "state (closed st now u r) = st"
  "final_state (closed st now u r) = final_state r" "max_attempts (closed st now u r) = max_attempts r"
  "generation (closed st now u r) = generation r" "lease_until (closed st now u r) = None"
  "cancel_requested (closed st now u r) = cancel_requested r" "purged (closed st now u r) = purged r"
  "recovery_until (closed st now u r) = Some u" "result_expired (closed st now u r) = (result_expired r \<or> u \<le> now)"
  "created_at (closed st now u r) = created_at r" "finished_at (closed st now u r) = Some now"
  "delivery_generation (closed st now u r) = delivery_generation r" "delivery_until (closed st now u r) = delivery_until r"
  "origin (closed st now u r) = origin r" "receipt (closed st now u r) = receipt r"
  "diagnostic (closed st now u r) = diagnostic r"
  "payload (closed st now u r) = (if u \<le> now then None else payload r)"
  "admission (closed st now u r) = (if u \<le> now then None else admission r)"
  "job_output (closed st now u r) = (if u \<le> now then None else job_output r)"
  "output_bytes (closed st now u r) = (if u \<le> now then 0 else output_bytes r)"
  by (simp_all add: closed_def Let_def)

lemma closed_next:
  assumes r: "ready r" "jf r0 r" "\<not> acked (state r)" "\<not> acked (state r0)"
    and st: "delivery_state st" "purged r \<longleftrightarrow> st = Purged"
  shows "next_ok r0 (closed st now u r)"
proof -
  have ns: "\<not> acked st" "\<not> unfinished st" using st(1) by (simp_all add: three_phases)
  have n: "st \<noteq> Running" "st \<noteq> Pending" "st \<noteq> AwaitingAdmission" "st \<noteq> Uncertain" using st(1) by auto
  have "live_ok (closed st now u r)"
    using r(1) st ns n unfolding live_ok_def ready_def no_copies_def by auto
  moreover have "jf r0 (closed st now u r)"
    using r(2-4) ns unfolding jf_def jkeep_def by auto
  ultimately show ?thesis using ns by (simp add: next_ok_def)
qed

lemma finish_next:
  assumes "finish e cfg st now r = Inr r'" "ready r" "jf r0 r" "\<not> acked (state r)" "\<not> acked (state r0)"
    "delivery_state st" "purged r \<longleftrightarrow> st = Purged"
  shows "next_ok r0 r' \<and> state r' = st \<and> purged r' = purged r \<and> job_id r' = job_id r"
proof -
  from finish_closed [OF assms(1)] obtain u where "r' = closed st now u r" by blast
  with closed_next [OF assms(2-7)] show ?thesis by simp
qed

lemma stopped_state_simps [simp]: "delivery_state (stopped_state r)" "stopped_state r = Purged \<longleftrightarrow> purged r"
  by (simp_all add: stopped_state_def)

lemma purged_or_simps: "st \<noteq> Purged \<Longrightarrow> delivery_state st \<Longrightarrow> delivery_state (purged_or r st)"
  "st \<noteq> Purged \<Longrightarrow> purged_or r st = Purged \<longleftrightarrow> purged r"
  by (simp_all add: purged_or_def)

lemma purged_or_fields [simp]:
  "purged_or (r\<lparr>origin := og\<rparr>) st = purged_or r st" "purged_or (r\<lparr>receipt := rr\<rparr>) st = purged_or r st"
  "purged_or (r\<lparr>diagnostic := d\<rparr>) st = purged_or r st" "purged_or (r\<lparr>recovery_until := l\<rparr>) st = purged_or r st"
  by (simp_all add: purged_or_def)

section \<open>Loops over selected rows\<close>

definition fresh :: "JobScope \<Rightarrow> jobs_db \<Rightarrow> JobRecord list \<Rightarrow> bool" where
  "fresh sc db rs \<longleftrightarrow> distinct (map job_id rs) \<and>
     (\<forall>r \<in> set rs. row_get db (job_id r) = Some r \<and> scope_of (job_id r) = sc)"

lemma fresh_Cons:
  "fresh sc db (r # rs) \<longleftrightarrow>
     row_get db (job_id r) = Some r \<and> scope_of (job_id r) = sc \<and> job_id r \<notin> job_id ` set rs \<and> fresh sc db rs"
  by (auto simp: fresh_def)

lemma fresh_other:
  assumes "fresh sc db rs" and "j \<notin> job_id ` set rs"
    and "\<And>i. i \<noteq> j \<Longrightarrow> row_get db' i = row_get db i"
  shows "fresh sc db' rs"
proof -
  have "row_get db' (job_id r) = row_get db (job_id r)" if "r \<in> set rs" for r
    using assms(2,3) that by (metis imageI)
  with assms(1) show ?thesis unfolding fresh_def by simp
qed

lemma select_rows_mem:
  assumes "select_rows e sc q now n db = Inr rs" and "r \<in> set rs"
  shows "r \<in> set (jobs db) \<and> scope_of (job_id r) = sc \<and> query_filter e q now db r"
proof -
  have "rs = take n (sort_key (query_order e q)
      (filter (\<lambda>r. scope_of (job_id r) = sc \<and> query_filter e q now db r) (jobs db)))"
    using assms(1) by (simp add: select_rows_def and_then_Inr)
  with assms(2) have "r \<in> set (filter (\<lambda>r. scope_of (job_id r) = sc \<and> query_filter e q now db r) (jobs db))"
    using set_take_sort_key [of n "query_order e q"] by (auto dest: in_set_takeD)
  then show ?thesis by simp
qed

lemma distinct_take_sort_map:
  assumes "distinct (map f xs)"
  shows "distinct (map f (take n (sort_key g (filter P xs))))"
proof -
  have "distinct (map f (filter P xs))" using assms by (rule distinct_map_filter)
  then have "distinct (map f (sort_key g (filter P xs)))"
    by (simp add: distinct_map)
  then show ?thesis by (simp add: take_map [symmetric])
qed

lemma select_rows_fresh:
  assumes "db_idx db" and "select_rows e sc q now n db = Inr rs"
  shows "fresh sc db rs"
proof -
  have "rs = take n (sort_key (query_order e q)
      (filter (\<lambda>r. scope_of (job_id r) = sc \<and> query_filter e q now db r) (jobs db)))"
    using assms(2) by (simp add: select_rows_def and_then_Inr)
  then have "distinct (map job_id rs)" using distinct_take_sort_map [OF idx_ids [OF assms(1)]] by simp
  moreover have "row_get db (job_id r) = Some r \<and> scope_of (job_id r) = sc" if "r \<in> set rs" for r
    using select_rows_mem [OF assms(2) that] row_get_in [OF assms(1)] by blast
  ultimately show ?thesis by (simp add: fresh_def)
qed

lemma get_Inr: "get sc j db = Inr r \<longleftrightarrow> scope_of j = sc \<and> row_get db j = Some r"
  by (auto simp: get_def scoped_def and_then_Inr split: option.splits)

lemma row_get_id: "row_get db j = Some r \<Longrightarrow> job_id r = j"
  by (auto simp: row_get_def find_Some_iff)

lemma get_self:
  assumes "get sc j db = Inr r"
  shows "row_get db (job_id r) = Some r" "scope_of (job_id r) = sc" "job_id r = j"
  using assms by (auto simp: get_Inr dest: row_get_id)

lemma get_all_mem:
  assumes "get_all sc is db = Inr rs"
  shows "map job_id rs = map (\<lambda>i. \<lparr>scope_of = sc, ident = i\<rparr>) is \<and>
    (\<forall>r \<in> set rs. row_get db (job_id r) = Some r \<and> scope_of (job_id r) = sc)"
  using assms
proof (induction "is" arbitrary: rs)
  case (Cons i js)
  then obtain r rs' where r: "get sc \<lparr>scope_of = sc, ident = i\<rparr> db = Inr r" "get_all sc js db = Inr rs'" "rs = r # rs'"
    by (auto simp: and_then_Inr)
  with Cons.IH [OF r(2)] get_self [OF r(1)] show ?case by simp
qed simp

lemma get_all_fresh:
  assumes "get_all sc is db = Inr rs" and "distinct is"
  shows "fresh sc db rs"
proof -
  have "inj_on (\<lambda>i. \<lparr>scope_of = sc, ident = i\<rparr>) (set is)" by (simp add: inj_on_def)
  then have "distinct (map (\<lambda>i. \<lparr>scope_of = sc, ident = i\<rparr>) is)" using assms(2) by (simp only: distinct_map)
  then show ?thesis using get_all_mem [OF assms(1)] unfolding fresh_def by (metis (no_types, lifting))
qed

text \<open>One save over a selected row, and what it leaves for the rest of the loop.\<close>

lemma save_next:
  assumes ok: "db_ok db" and old: "row_get db (job_id r0) = Some r0" "scope_of (job_id r0) = sc"
    and nx: "next_ok r0 r" and sv: "save e r db = Inr db'"
  shows "steps sc db db' \<and> db_ok db' \<and>
    (\<exists>r'. requant r r' \<and> (\<forall>j. row_get db' j = (if j = job_id r0 then Some r' else row_get db j)))"
  using save_live [OF ok old(1) _ _ _ sv] nx steps_ok old(2) unfolding next_ok_def by blast

lemma save_fresh:
  assumes ok: "db_ok db" and fr: "fresh sc db (r0 # rs)" and nx: "next_ok r0 r" and sv: "save e r db = Inr db'"
  shows "steps sc db db' \<and> db_ok db' \<and> fresh sc db' rs"
proof -
  have o: "row_get db (job_id r0) = Some r0" "scope_of (job_id r0) = sc" "job_id r0 \<notin> job_id ` set rs" "fresh sc db rs"
    using fr by (simp_all add: fresh_Cons)
  from save_next [OF ok o(1,2) nx sv] obtain r' where
    s: "steps sc db db'" "db_ok db'" and g: "\<forall>j. row_get db' j = (if j = job_id r0 then Some r' else row_get db j)" by blast
  have "fresh sc db' rs" by (rule fresh_other [OF o(4,3)]) (simp add: g)
  with s show ?thesis by blast
qed

lemma unacked_live: "db_ok db \<Longrightarrow> row_get db j = Some r \<Longrightarrow> \<not> acked (state r) \<Longrightarrow> live_ok r"
  using db_okD(2) by (fastforce simp: rec_ok_def)


section \<open>Claiming\<close>

definition claimed :: "time \<Rightarrow> JobRecord \<Rightarrow> JobRecord" where
  "claimed until r = r\<lparr>state := Running, generation := Suc (generation r), lease_until := Some until\<rparr>"

lemma claimable_unfinished: "claimable r now \<Longrightarrow> state r = Pending \<or> state r = Running"
  by (auto simp: claimable_def)

lemma claimed_next:
  assumes "live_ok r" "state r = Pending \<or> state r = Running" "\<not> cancel_requested r" "generation r < max_attempts r"
  shows "next_ok r (claimed until r)"
proof -
  have "unfinished (state r)" using assms(2) by auto
  then have o: "open_ok r" using live_open assms(1) by blast
  then have "open_ok (claimed until r)" using assms(4) unfolding claimed_def open_ok_def by (simp split: if_splits)
  then have "live_ok (claimed until r)" by (subst live_open) (simp_all add: claimed_def phase_ok_def)
  moreover have "jf r (claimed until r)" using assms(2) unfolding claimed_def jf_def jkeep_def by auto
  ultimately show ?thesis by (simp add: next_ok_def claimed_def)
qed

lemma claim_job_steps:
  assumes ok: "db_ok db" and r: "row_get db (job_id r) = Some r" "scope_of (job_id r) = sc"
    and cj: "claim_job e cfg now r db = Inr (got, db')"
  shows "steps sc db db' \<and> db_ok db' \<and> (\<forall>i. i \<noteq> job_id r \<longrightarrow> row_get db' i = row_get db i) \<and>
    (\<forall>r1. got = Some r1 \<longrightarrow> claimable r now \<and> \<not> cancel_requested r \<and> generation r < max_attempts r \<and>
       (\<exists>until r'. deadline e now (claim_lease_seconds cfg) = Inr until \<and> r1 = claimed until r \<and>
          requant r1 r' \<and> row_get db' (job_id r) = Some r'))"
proof (cases "claimable r now")
  case False
  with cj ok show ?thesis by (simp add: claim_job_def steps_refl)
next
  case cl: True
  note st = claimable_unfinished [OF cl]
  have na: "\<not> acked (state r)" using st by auto
  note lv = unacked_live [OF ok r(1) na]
  have fin: "steps sc db db' \<and> db_ok db' \<and> (\<forall>i. i \<noteq> job_id r \<longrightarrow> row_get db' i = row_get db i)"
    if "next_ok r r2" "save e r2 db = Inr db'" for r2
    using save_next [OF ok r that] by auto
  consider (cancel) "cancel_requested r" | (budget) "\<not> cancel_requested r" "max_attempts r \<le> generation r"
    | (claim) "\<not> cancel_requested r" "generation r < max_attempts r" by linarith
  then show ?thesis
  proof cases
    case cancel
    then obtain r1 where f: "finish e cfg (stopped_state r) now r = Inr r1" and sv: "save e (delete_copies r1) db = Inr db'"
      and got: "got = None"
      using cj cl by (auto simp: claim_job_def and_then_Inr)
    have n: "next_ok r r1 \<and> state r1 = stopped_state r \<and> purged r1 = purged r \<and> job_id r1 = job_id r"
      by (rule finish_next [OF f live_ready [OF lv] jf_refl na na]) simp_all
    have "next_ok r (delete_copies r1)"
      by (rule delete_copies_next) (use n in \<open>auto simp: stopped_state_def split: if_splits\<close>)
    from fin [OF this sv] got show ?thesis by simp
  next
    case budget
    then obtain r1 where f: "finish e cfg Refused now r = Inr r1" and sv: "save e r1 db = Inr db'" and got: "got = None"
      using cj cl by (auto simp: claim_job_def and_then_Inr)
    have np: "\<not> purged r" using lv budget(1) by (auto simp: live_ok_def)
    have "next_ok r r1" using finish_next [OF f live_ready [OF lv] jf_refl na na] np by simp
    from fin [OF this sv] got show ?thesis by simp
  next
    case claim
    then obtain until where dl: "deadline e now (claim_lease_seconds cfg) = Inr until"
      and sv: "save e (claimed until r) db = Inr db'" and got: "got = Some (claimed until r)"
      using cj cl unfolding claim_job_def Let_def by (auto simp: and_then_Inr checked_sum_Inr claimed_def)
    note nx = claimed_next [OF lv st claim]
    from save_next [OF ok r nx sv] obtain r' where "requant (claimed until r) r'" "row_get db' (job_id r) = Some r'"
      by auto
    with fin [OF nx sv] got claim cl dl show ?thesis by auto
  qed
qed

lemma claim_loop_steps:
  assumes "db_ok db" "fresh sc db rs" "claim_loop e cfg now rs db = Inr (got, db')"
  shows "steps sc db db'"
  using assms
proof (induction rs arbitrary: db)
  case (Cons r rs)
  then obtain g db1 where c: "claim_job e cfg now r db = Inr (g, db1)"
    and rest: "(case g of Some r1 \<Rightarrow> Inr (Some r1, db1) | None \<Rightarrow> claim_loop e cfg now rs db1) = Inr (got, db')"
    by (auto simp: and_then_Inr)
  have f: "row_get db (job_id r) = Some r" "scope_of (job_id r) = sc" "job_id r \<notin> job_id ` set rs" "fresh sc db rs"
    using Cons.prems(2) by (simp_all add: fresh_Cons)
  note s = claim_job_steps [OF Cons.prems(1) f(1,2) c]
  show ?case
  proof (cases g)
    case None
    have "fresh sc db1 rs" by (rule fresh_other [OF f(4,3)]) (use s in blast)
    with Cons.IH [of db1] s rest None show ?thesis by (auto intro: steps_trans)
  next
    case (Some r1)
    with rest s show ?thesis by simp
  qed
qed (simp add: steps_refl)

lemma do_claim_steps: "db_ok db \<Longrightarrow> do_claim e cfg sc now kinds slots db = Inr (resp, db') \<Longrightarrow> steps sc db db'"
  by (auto simp: do_claim_def and_then_Inr steps_refl split: if_splits
      intro: claim_loop_steps select_rows_fresh [OF db_okD(1)])

lemma do_claim_job_steps:
  assumes "db_ok db" and "do_claim_job e cfg sc now j db = Inr (resp, db')"
  shows "steps sc db db'"
proof -
  from assms(2) obtain r got where g: "get sc j db = Inr r" and c: "claim_job e cfg now r db = Inr (got, db')"
    by (auto simp: do_claim_job_def and_then_Inr)
  from claim_job_steps [OF assms(1) get_self(1,2) [OF g] c] show ?thesis by blast
qed

lemma do_claim_paid_steps:
  assumes ok: "db_ok db" and d: "do_claim_paid e cfg sc now j rc db = Inr (resp, db')"
  shows "steps sc db db'"
proof -
  from d obtain r got db1 where g: "get sc j db = Inr r" and c: "claim_job e cfg now r db = Inr (got, db1)"
    and rest: "(case got of None \<Rightarrow> Inr (Resp_Job None, db1)
       | Some r1 \<Rightarrow> and_then (save e (r1\<lparr>receipt := Some rc, origin := Some O_Paid\<rparr>) db1)
           (\<lambda>db2. Inr (Resp_Job (Some (r1\<lparr>receipt := Some rc, origin := Some O_Paid\<rparr>)), db2))) = Inr (resp, db')"
    unfolding do_claim_paid_def Let_def by (auto simp: and_then_Inr split: if_splits)
  note r = get_self(1,2) [OF g]
  note s = claim_job_steps [OF ok r c]
  show ?thesis
  proof (cases got)
    case None
    with rest s show ?thesis by simp
  next
    case (Some r1)
    let ?r2 = "r1\<lparr>receipt := Some rc, origin := Some O_Paid\<rparr>"
    from s Some obtain until r' where r1: "r1 = claimed until r" and q: "requant r1 r'"
      and g': "row_get db1 (job_id r) = Some r'" by blast
    have sv: "save e ?r2 db1 = Inr db'" using rest Some by (auto simp: and_then_Inr)
    have id: "job_id r' = job_id r" using row_get_id [OF g'] .
    have run: "state r1 = Running" by (simp add: r1 claimed_def)
    have ok1: "db_ok db1" using s by blast
    have cl: "claimable r now" "\<not> cancel_requested r" "generation r < max_attempts r" using s Some by blast+
    have "\<not> acked (state r)" using claimable_unfinished [OF cl(1)] by auto
    from claimed_next [OF unacked_live [OF ok r(1) this] claimable_unfinished [OF cl(1)] cl(2,3), of until]
    have "live_ok r1" by (simp add: next_ok_def r1)
    then have "live_ok ?r2" by simp
    moreover have "jf r' ?r2" using requant_simps [OF q] by (simp add: jf_def jkeep_def run)
    ultimately have "next_ok r' ?r2" by (simp add: next_ok_def run)
    from save_next [OF ok1 _ _ this sv] g' id r(2) have "steps sc db1 db'" by simp
    with s steps_trans show ?thesis by blast
  qed
qed


section \<open>The other requests\<close>

text \<open>A request that loads one row and saves a successor of it.\<close>

lemma get_save_steps:
  assumes "db_ok db" "get sc j db = Inr r" "save e r' db = Inr db'"
    "\<And>x. x = r \<Longrightarrow> rec_ok x \<Longrightarrow> next_ok x r'"
  shows "steps sc db db'"
  using save_next [OF assms(1) get_self(1,2) [OF assms(2)] assms(4) [OF refl] assms(3)]
    db_okD(2) [OF assms(1) get_self(1) [OF assms(2)]] by blast

lemma rec_unfinished: "rec_ok r \<Longrightarrow> unfinished (state r) \<Longrightarrow> live_ok r \<and> open_ok r \<and> phase_ok r"
  using live_open unfinished_not_acked by (auto simp: rec_ok_def)

lemma await_next:
  assumes "rec_ok r" "state r = Pending" "execution r = Model"
  shows "next_ok r (r\<lparr>state := AwaitingAdmission\<rparr>)"
proof -
  have "open_ok r \<and> phase_ok r" using rec_unfinished assms by simp
  then have "live_ok (r\<lparr>state := AwaitingAdmission\<rparr>)"
    using assms by (subst live_open) (simp_all add: open_ok_def phase_ok_def)
  then show ?thesis using assms by (simp add: next_ok_def jf_def jkeep_def)
qed

lemma admit_next:
  assumes "rec_ok r" "state r = Pending \<or> state r = AwaitingAdmission"
  shows "next_ok r (r\<lparr>admission := Some adm, state := Pending\<rparr>)"
proof -
  have "open_ok r \<and> phase_ok r" using rec_unfinished assms by auto
  then have "live_ok (r\<lparr>admission := Some adm, state := Pending\<rparr>)"
    using assms by (subst live_open) (auto simp: open_ok_def phase_ok_def)
  then show ?thesis using assms by (auto simp: next_ok_def jf_def jkeep_def)
qed

lemma do_await_admission_steps:
  assumes "db_ok db" and "do_await_admission e sc j db = Inr (resp, db')"
  shows "steps sc db db'"
proof -
  from assms(2) obtain r where r: "get sc j db = Inr r" "state r = Pending" "execution r = Model"
    "save e (r\<lparr>state := AwaitingAdmission\<rparr>) db = Inr db'"
    by (auto simp: do_await_admission_def and_then_Inr split: if_splits)
  from get_save_steps [OF assms(1) r(1,4)] await_next r show ?thesis by blast
qed

lemma do_admit_steps:
  assumes "db_ok db" and "do_admit e cfg sc j adm db = Inr (resp, db')"
  shows "steps sc db db'"
proof -
  from assms(2) obtain r where r: "get sc j db = Inr r" "state r = Pending \<or> state r = AwaitingAdmission"
    and c: "db' = db \<or> save e (r\<lparr>admission := Some adm, state := Pending\<rparr>) db = Inr db'"
    unfolding do_admit_def Let_def by (auto simp: and_then_Inr split: if_splits)
  from c show ?thesis
  proof
    assume "save e (r\<lparr>admission := Some adm, state := Pending\<rparr>) db = Inr db'"
    from get_save_steps [OF assms(1) r(1) this] admit_next r(2) show ?thesis by blast
  qed (simp add: steps_refl assms(1))
qed

lemma do_refuse_pending_steps:
  assumes "db_ok db" and "do_refuse_pending e cfg sc now j diag db = Inr (resp, db')"
  shows "steps sc db db'"
proof -
  from assms(2) obtain r where g: "get sc j db = Inr r"
    and c: "db' = db \<or> state r = Pending \<and>
      (\<exists>r1. finish e cfg Refused now (r\<lparr>diagnostic := Some diag\<rparr>) = Inr r1 \<and> save e r1 db = Inr db')"
    by (auto simp: do_refuse_pending_def and_then_Inr split: if_splits)
  from c show ?thesis
  proof (elim disjE conjE exE)
    fix r1
    assume p: "state r = Pending" and f: "finish e cfg Refused now (r\<lparr>diagnostic := Some diag\<rparr>) = Inr r1"
      and sv: "save e r1 db = Inr db'"
    have "next_ok r r1" if "rec_ok r"
    proof -
      have o: "live_ok r" "phase_ok r" using rec_unfinished [OF that] p by auto
      have np: "\<not> purged r" using o(2) p by (simp add: phase_ok_def)
      have "ready (r\<lparr>diagnostic := Some diag\<rparr>)" "jf r (r\<lparr>diagnostic := Some diag\<rparr>)"
        using live_ready [OF o(1)] p by simp_all
      from finish_next [OF f this] p np show ?thesis by simp
    qed
    with get_save_steps [OF assms(1) g sv] show ?thesis by blast
  qed (simp add: steps_refl assms(1))
qed

lemma do_heartbeat_steps:
  assumes ok: "db_ok db" and ms: "\<And>t. restored e t \<noteq> None" and d: "do_heartbeat e cfg sc now j gen db = Inr (resp, db')"
  shows "steps sc db db'"
proof -
  from d obtain r until where sc: "scope_of j = sc" and g: "row_get db j = Some r" and run: "state r = Running"
    and db': "db' = update_row j (\<lambda>r. r\<lparr>lease_until := restored e until\<rparr>) db"
    by (auto simp: do_heartbeat_def scoped_def row_metadata_def live_def and_then_Inr split: option.splits)
  have "open_ok r \<and> phase_ok r" using rec_unfinished [OF db_okD(2) [OF ok g]] run by simp
  then have "live_ok (r\<lparr>lease_until := restored e until\<rparr>)"
    using run ms [of until] by (subst live_open) (simp_all add: open_ok_def phase_ok_def)
  then have "rec_ok (r\<lparr>lease_until := restored e until\<rparr>)" using run by (simp add: rec_ok_def)
  from update_row_live [OF ok g, of "\<lambda>r. r\<lparr>lease_until := restored e until\<rparr>", OF _ _ _ this] run db' sc
  show ?thesis by simp
qed


section \<open>Completion and resolution\<close>

lemma closed_purge_next:
  assumes "live_ok r" "\<not> acked (state r)" "finish e cfg Purged now r1 = Inr r2" "purged r"
    "r1 = r\<lparr>origin := og, receipt := rr, diagnostic := dg\<rparr>"
  shows "next_ok r (delete_copies r2)"
proof -
  have "ready r1" "jf r r1" using live_ready [OF assms(1)] assms(2,5) by simp_all
  from finish_next [OF assms(3) this] assms(2,4,5) have "next_ok r r2" "state r2 = Purged" by simp_all
  then show ?thesis by (intro delete_copies_next) simp_all
qed

lemma uncertain_next:
  assumes "rec_ok r" "state r = Running \<or> state r = Uncertain" "execution r = Model"
    "r2 = r\<lparr>origin := og, receipt := rr, diagnostic := dg, state := Uncertain, lease_until := None\<rparr>"
  shows "next_ok r r2"
proof -
  have u: "unfinished (state r)" using assms(2) by auto
  have o: "open_ok r" using rec_unfinished [OF assms(1) u] by blast
  then have "live_ok r2" unfolding assms(4) using assms(3) by (subst live_open) (simp_all add: open_ok_def phase_ok_def)
  moreover have "jf r r2" using u unfinished_not_acked [OF u] unfolding assms(4) by (auto simp: jf_def jkeep_def three_phases)
  ultimately show ?thesis by (simp add: next_ok_def assms(4))
qed

lemma erase_purged_next: "next_ok r r2 \<Longrightarrow> next_ok r (if purged r2 then delete_copies r2 else r2)"
  using delete_copies_next by auto

lemma output_next:
  assumes "next_ok r r2" "job_output r2 = None \<Longrightarrow> n = 0"
  shows "next_ok r (r2\<lparr>output_bytes := n\<rparr>)"
proof -
  have l: "live_ok r2" using assms(1) by (simp add: next_ok_def)
  have "live_ok (r2\<lparr>output_bytes := n\<rparr>)"
  proof (cases "job_output r2")
    case None
    then have "n = output_bytes r2" using l assms(2) by (simp add: live_ok_def)
    with l show ?thesis by simp
  next
    case (Some b)
    then have "live_ok (r2\<lparr>output_bytes := n\<rparr>) = live_ok r2" by (simp add: live_ok_def no_copies_def)
    with l show ?thesis by simp
  qed
  moreover have "acked (state r) \<longrightarrow> r2 = r" "\<not> acked (state r2)" using assms(1) by (simp_all add: next_ok_def jf_def)
  then have "\<not> acked (state r)" by auto
  ultimately show ?thesis using assms(1) by (simp add: next_ok_def jf_def jkeep_def)
qed

lemma refused_result_next:
  assumes n: "next_ok r r3" and d: "delivery_state (state r3)" "\<not> purged r3" and u: "unfinished (state r)"
    and r5: "r4 = r3\<lparr>job_output := None, output_bytes := 0\<rparr>"
      "r5 = (if state r4 \<noteq> Cancelled then r4\<lparr>state := Failed, diagnostic := Some QueueFailure\<rparr> else r4)"
  shows "next_ok r r5"
proof -
  have l: "live_ok r3" "jf r r3" "\<not> acked (state r3)" using n by (simp_all add: next_ok_def)
  have "state r3 \<noteq> Running" using d(1) by auto
  then have "live_ok r5" unfolding r5 using l(1) d by (simp add: live_ok_def no_copies_def)
  moreover have "jf r r5" unfolding r5 using l(2,3) u unfinished_not_acked [OF u] by (simp add: jf_def jkeep_def three_phases)
  moreover have "\<not> acked (state r5)" using l(3) by (simp add: r5)
  ultimately show ?thesis by (simp add: next_ok_def)
qed

lemma completed_next:
  assumes rk: "rec_ok r" and run: "state r = Running" and np: "\<not> purged r"
    and ok: "\<not> complete_mismatch st og r" "\<not> complete_invalid now st og out rc r" "st \<noteq> Uncertain"
    and f: "finish e cfg (if cancel_requested r then Cancelled else st) now
      (r\<lparr>origin := Some og, receipt := rc, diagnostic := diag, job_output := out\<rparr>) = Inr r2"
  shows "next_ok r r2 \<and> delivery_state (state r2) \<and> \<not> purged r2"
proof -
  have o: "live_ok r" "open_ok r" using rec_unfinished [OF rk] run by simp_all
  have h: "out \<noteq> None \<Longrightarrow> execution r = Handler"
    using ok(1,2) by (cases og) (auto simp: complete_mismatch_def complete_invalid_def)
  have d: "delivery_state (if cancel_requested r then Cancelled else st)" "(if cancel_requested r then Cancelled else st) \<noteq> Purged"
    using ok(2,3) by (auto simp: complete_invalid_def completion_state_def)
  have "ready (r\<lparr>origin := Some og, receipt := rc, diagnostic := diag, job_output := out\<rparr>)"
    using live_ready [OF o(1)] o(2) h np by (auto simp: ready_def open_ok_def)
  moreover have "jf r (r\<lparr>origin := Some og, receipt := rc, diagnostic := diag, job_output := out\<rparr>)"
    by (simp add: jf_def jkeep_def run)
  ultimately show ?thesis using finish_next [OF f] d np run by simp
qed

text \<open>A completion saves one successor of the claimed row.\<close>

lemma do_complete_writes:
  assumes ok: "db_ok db" and d: "do_complete e cfg sc now j gen st og out rc diag db = Inr (resp, db')"
  shows "\<exists>r r'. get sc j db = Inr r \<and> live r gen now = Inr () \<and> next_ok r r' \<and> save e r' db = Inr db' \<and>
    (st \<noteq> Uncertain \<longrightarrow> delivery_state (state r'))"
proof -
  from d obtain r where g: "get sc j db = Inr r" and lv0: "live r gen now = Inr ()" and run: "state r = Running"
    and v: "\<not> complete_mismatch st og r" "\<not> complete_invalid now st og out rc r"
    by (auto simp: do_complete_def live_def and_then_Inr)
  note d' = d [unfolded do_complete_def g and_then_simps Let_def]
  have rk: "rec_ok r" by (rule db_okD(2) [OF ok get_self(1) [OF g]])
  have lv: "live_ok r" using rec_unfinished [OF rk] run by simp
  have fin: ?thesis if "save e r' db = Inr db'" "next_ok r r'" "st \<noteq> Uncertain \<longrightarrow> delivery_state (state r')" for r'
    using g lv0 that by blast
  let ?r1 = "r\<lparr>origin := Some og, receipt := rc, diagnostic := diag\<rparr>"
  consider (unc) "st = Uncertain" | (pur) "st \<noteq> Uncertain" "purged r" | (fin) "st \<noteq> Uncertain" "\<not> purged r" by blast
  then show ?thesis
  proof cases
    case unc
    let ?r2 = "?r1\<lparr>state := Uncertain, lease_until := None\<rparr>"
    have sv: "save e (if purged ?r2 then delete_copies ?r2 else ?r2) db = Inr db'"
      using d' unc by (auto simp: and_then_Inr)
    have "execution r = Model" using v(1) unc by (simp add: complete_mismatch_def)
    from erase_purged_next [OF uncertain_next [OF rk _ this refl]] fin [OF sv] run unc show ?thesis by simp
  next
    case pur
    then obtain r2 where f: "finish e cfg Purged now ?r1 = Inr r2" and sv: "save e (delete_copies r2) db = Inr db'"
      using d' by (auto simp: and_then_Inr)
    have "next_ok r (delete_copies r2)" by (rule closed_purge_next [OF lv _ f pur(2) refl]) (simp add: run)
    moreover have "state r2 = Purged" using finish_closed [OF f] by auto
    ultimately show ?thesis by (intro fin [OF sv]) simp_all
  next
    case c: fin
    then obtain r2 n big where
      f: "finish e cfg (if cancel_requested r then Cancelled else st) now (?r1\<lparr>job_output := out\<rparr>) = Inr r2"
      and n: "(case job_output r2 of None \<Rightarrow> Inr 0 | Some b \<Rightarrow> encoded_bytes (json_bytes (cod e) b)) = Inr n"
      and rest: "(case big of None \<Rightarrow> and_then (save e (r2\<lparr>output_bytes := n\<rparr>) db) (\<lambda>db1. Inr (Resp_Done, db1))
         | Some bytes \<Rightarrow> and_then (save e
             (if state r2 \<noteq> Cancelled
              then r2\<lparr>output_bytes := n, job_output := None, output_bytes := 0, state := Failed, diagnostic := Some QueueFailure\<rparr>
              else r2\<lparr>output_bytes := n, job_output := None, output_bytes := 0\<rparr>) db)
             (\<lambda>db1. Inr (Resp_ResultRefused bytes, db1))) = Inr (resp, db')"
      using d' run by (auto simp: and_then_Inr split del: if_split)
    obtain r' where sv: "save e r' db = Inr db'"
      and r': "r' = r2\<lparr>output_bytes := n\<rparr> \<or>
        r' = (if state r2 \<noteq> Cancelled
              then r2\<lparr>output_bytes := n, job_output := None, output_bytes := 0, state := Failed, diagnostic := Some QueueFailure\<rparr>
              else r2\<lparr>output_bytes := n, job_output := None, output_bytes := 0\<rparr>)"
      using rest by (cases big) (auto simp: and_then_Inr split del: if_split)
    note C = completed_next [OF rk run c(2) v c(1) f]
    have n3: "next_ok r (r2\<lparr>output_bytes := n\<rparr>)" by (rule output_next) (use C n in auto)
    have "next_ok r r'" using r'
    proof
      assume "r' = (if state r2 \<noteq> Cancelled
              then r2\<lparr>output_bytes := n, job_output := None, output_bytes := 0, state := Failed, diagnostic := Some QueueFailure\<rparr>
              else r2\<lparr>output_bytes := n, job_output := None, output_bytes := 0\<rparr>)"
      with refused_result_next [OF n3 _ _ _ refl, of r'] C run show ?thesis by simp
    qed (use n3 in simp)
    moreover have "delivery_state (state r')" using r' C by auto
    ultimately show ?thesis by (intro fin [OF sv]) simp_all
  qed
qed


lemma do_complete_steps:
  assumes "db_ok db" and "do_complete e cfg sc now j gen st og out rc diag db = Inr (resp, db')"
  shows "steps sc db db'"
  using do_complete_writes [OF assms] get_save_steps [OF assms(1)] by blast

lemma requeued_next:
  assumes "rec_ok r" "state r = Running \<or> state r = Uncertain" "execution r = Model"
    "\<not> purged r" "\<not> cancel_requested r" "st = Pending \<or> st = AwaitingAdmission"
  shows "next_ok r (r\<lparr>origin := og, receipt := rr, lease_until := None, diagnostic := dg, state := st\<rparr>)"
proof -
  have u: "unfinished (state r)" "unfinished st" using assms(2,6) by auto
  have o: "open_ok r" using rec_unfinished [OF assms(1) u(1)] by blast
  have "live_ok (r\<lparr>origin := og, receipt := rr, lease_until := None, diagnostic := dg, state := st\<rparr>)"
    using assms(3-6) o by (subst live_open) (auto simp: open_ok_def phase_ok_def)
  then show ?thesis
    using u unfinished_not_acked [OF u(1)] unfinished_not_acked [OF u(2)]
    by (simp add: next_ok_def jf_def jkeep_def three_phases)
qed

lemma resolved_next:
  assumes rk: "rec_ok r" and u: "unfinished (state r)" and m: "execution r = Model"
    and rs: "resolved e cfg now res (r\<lparr>origin := Some O_Paid\<rparr>) = Inr r1"
  shows "next_ok r r1"
proof -
  have na: "\<not> acked (state r)" by (rule unfinished_not_acked [OF u])
  have lv: "live_ok r" using rec_unfinished [OF rk u] by blast
  have fin: "next_ok r r2 \<and> state r2 = st \<and> purged r2 = purged r"
    if "finish e cfg st now x = Inr r2" "x = r\<lparr>origin := og, receipt := rr, lease_until := l, recovery_until := rc, diagnostic := dg\<rparr>"
      "delivery_state st" "purged r \<longleftrightarrow> st = Purged" for st x r2 og rr l rc dg
  proof -
    have "ready x" "jf r x" "\<not> acked (state x)" "purged x = purged r"
      using live_ready [OF lv] na by (simp_all add: that(2))
    with finish_next [OF that(1)] na that(3,4) show ?thesis by simp
  qed
  have same: "r\<lparr>lease_until := lease_until r\<rparr> = r" "r\<lparr>recovery_until := recovery_until r\<rparr> = r" by simp_all
  show ?thesis
  proof (cases res)
    case (R_Uncertain rc)
    with rs have "state r = Running \<or> state r = Uncertain"
      and "r1 = r\<lparr>origin := Some O_Paid, receipt := Some rc, diagnostic := Some SpendReconciliationRequired,
        state := Uncertain, lease_until := None\<rparr>"
      by (auto split: if_splits)
    then show ?thesis by (rule uncertain_next [OF rk _ m])
  next
    case (R_KnownZeroCharge rc)
    let ?r = "r\<lparr>origin := Some O_Paid, receipt := Some rc, lease_until := None, diagnostic := None\<rparr>"
    have st: "state r = Running \<or> state r = Uncertain" using rs R_KnownZeroCharge by (auto split: if_splits)
    have upd: "r\<lparr>origin := Some O_Paid, receipt := Some rc, lease_until := None, recovery_until := recovery_until r, diagnostic := dg\<rparr>
        = ?r\<lparr>diagnostic := dg\<rparr>" for dg by simp
    consider (p) "finish e cfg Purged now ?r = Inr r1" "purged r"
      | (c) r2 where "finish e cfg Cancelled now ?r = Inr r2" "r1 = delete_copies r2" "\<not> purged r"
      | (b) "finish e cfg Refused now (?r\<lparr>diagnostic := Some AttemptBudgetExhausted\<rparr>) = Inr r1" "\<not> purged r"
      | (q) stt where "r1 = ?r\<lparr>state := stt\<rparr>" "stt = Pending \<or> stt = AwaitingAdmission" "\<not> purged r" "\<not> cancel_requested r"
      using rs R_KnownZeroCharge st by (auto simp: Let_def and_then_Inr split: if_splits)
    then show ?thesis
    proof cases
      case p
      with fin [OF p(1), where og = "Some O_Paid" and rr = "Some rc" and l = None and rc = "recovery_until r" and dg = None] show ?thesis by simp
    next
      case c
      with fin [OF c(1), where og = "Some O_Paid" and rr = "Some rc" and l = None and rc = "recovery_until r" and dg = None] have "next_ok r r2" "state r2 = Cancelled" by simp_all
      then show ?thesis unfolding c(2) by (intro delete_copies_next) simp_all
    next
      case b
      with fin [OF b(1), where og = "Some O_Paid" and rr = "Some rc" and l = None and rc = "recovery_until r" and dg = "Some AttemptBudgetExhausted"] show ?thesis by simp
    next
      case q
      show ?thesis unfolding q(1) by (rule requeued_next [OF rk st m q(3,4,2)])
    qed
  next
    case (R_PaidResult rc until)
    with rs obtain u where u: "optional_time e until = Inr u" by (cases "optional_time e until") simp_all
    note rs' = rs [unfolded R_PaidResult resolved.simps u and_then_simps Let_def]
    obtain rec where f: "finish e cfg (purged_or r Succeeded) now
        (r\<lparr>origin := Some O_Paid, receipt := Some rc, diagnostic := None, recovery_until := rec\<rparr>) = Inr r1"
    proof (cases u)
      case None
      with rs' show ?thesis by (intro that [of "recovery_until r"]) simp
    next
      case (Some t)
      with rs' show ?thesis by (intro that) simp
    qed
    have "r\<lparr>origin := Some O_Paid, receipt := Some rc, diagnostic := None, recovery_until := rec\<rparr> =
      r\<lparr>origin := Some O_Paid, receipt := Some rc, lease_until := lease_until r, recovery_until := rec, diagnostic := None\<rparr>" by simp
    from fin [OF f this] show ?thesis by (simp add: purged_or_simps)
  next
    case (R_Failed rc dg)
    with rs have f: "finish e cfg (purged_or r Failed) now
        (r\<lparr>origin := Some O_Paid, receipt := Some rc, diagnostic := Some dg\<rparr>) = Inr r1"
      by (simp add: Let_def)
    have "r\<lparr>origin := Some O_Paid, receipt := Some rc, diagnostic := Some dg\<rparr> =
      r\<lparr>origin := Some O_Paid, receipt := Some rc, lease_until := lease_until r, recovery_until := recovery_until r,
        diagnostic := Some dg\<rparr>" by simp
    from fin [OF f this] show ?thesis by (simp add: purged_or_simps)
  qed
qed

lemma do_resolve_steps:
  assumes ok: "db_ok db" and d: "do_resolve e cfg sc now j gen res db = Inr (resp, db')"
  shows "steps sc db db'"
proof -
  from d obtain r r1 where g: "get sc j db = Inr r" and u: "unfinished (state r)" "execution r = Model"
    and rs: "resolved e cfg now res (r\<lparr>origin := Some O_Paid\<rparr>) = Inr r1"
    and sv: "save e (if purged r1 then delete_copies r1 else r1) db = Inr db'"
    by (auto simp: do_resolve_def and_then_Inr split: if_splits)
  show ?thesis
    by (rule get_save_steps [OF ok g sv]) (use resolved_next u rs erase_purged_next in blast)
qed


section \<open>Delivery and acknowledgement\<close>

definition expired_copy :: "JobRecord \<Rightarrow> JobRecord" where
  "expired_copy r = delete_copies (r\<lparr>result_expired := True\<rparr>)"

lemma row_expire_copy: "row_expire j = update_row j expired_copy"
proof -
  have "(\<lambda>r. r\<lparr>result_expired := True, payload := None, admission := None, job_output := None, output_bytes := 0\<rparr>) = expired_copy"
    by (rule ext) (simp add: expired_copy_def delete_copies_def)
  then show ?thesis by (simp only: row_expire_def)
qed

lemma expired_copy_next:
  assumes "live_ok x" "delivery_state (state x)"
  shows "next_ok x (expired_copy x)"
proof -
  have na: "\<not> acked (state x)" "\<not> unfinished (state x)" using assms(2) by (simp_all add: three_phases)
  have "done_ok (expired_copy x)" using live_done [OF assms(2)] assms(1) by (simp add: done_ok_def expired_copy_def)
  then have "live_ok (expired_copy x)" using assms(2) by (subst live_done) (simp_all add: expired_copy_def)
  moreover have "jf x (expired_copy x)" using na assms(2) by (simp add: jf_def jkeep_def expired_copy_def)
  ultimately show ?thesis using na by (simp add: next_ok_def expired_copy_def)
qed

lemma next_rec_ok: "next_ok x y \<Longrightarrow> rec_ok y"
  by (simp add: next_ok_def rec_ok_def)

lemma row_expire_steps:
  assumes ok: "db_ok db" and g: "row_get db j = Some x" and d: "delivery_state (state x)"
  shows "steps (scope_of j) db (row_expire j db) \<and>
    (\<forall>i. row_get (row_expire j db) i = (if i = j then Some (expired_copy x) else row_get db i))"
proof -
  have "live_ok x" using db_okD(2) [OF ok g] d by (auto simp: rec_ok_def three_phases)
  note nx = expired_copy_next [OF this d]
  show ?thesis unfolding row_expire_copy
    by (rule update_row_live [OF ok g]) (use nx next_rec_ok [OF nx] in \<open>simp_all add: expired_copy_def next_ok_def\<close>)
qed

lemma stamped_steps:
  assumes ok: "db_ok db" and g: "row_get db j = Some x" and d: "delivery_state (state x)"
    and le: "delivery_generation x \<le> n"
  shows "steps (scope_of j) db (update_row j (\<lambda>x. x\<lparr>delivery_generation := n, delivery_until := l\<rparr>) db) \<and>
    (\<forall>i. row_get (update_row j (\<lambda>x. x\<lparr>delivery_generation := n, delivery_until := l\<rparr>) db) i =
       (if i = j then Some (x\<lparr>delivery_generation := n, delivery_until := l\<rparr>) else row_get db i))"
proof -
  have na: "\<not> acked (state x)" "live_ok x" using db_okD(2) [OF ok g] d by (auto simp: rec_ok_def three_phases)
  have r: "rec_ok (x\<lparr>delivery_generation := n, delivery_until := l\<rparr>)" using na by (simp add: rec_ok_def)
  have f: "jf x (x\<lparr>delivery_generation := n, delivery_until := l\<rparr>)"
    using na d le by (simp add: jf_def jkeep_def three_phases)
  show ?thesis by (rule update_row_live [OF ok g]) (simp_all add: r f)
qed

lemma delivered_row:
  assumes ok: "db_ok db" and g: "row_get db j = Some x" and d: "delivery_state (state x)"
    and le: "delivery_generation x \<le> delivery_generation r" and id: "job_id r = j"
    and rd: "row_deliver e r b db = Inr db'"
  shows "steps (scope_of j) db db' \<and> db_ok db' \<and> (\<forall>i. row_get db' i = (if i = j
    then Some ((if b then expired_copy x else x)\<lparr>delivery_generation := delivery_generation r,
      delivery_until := Option.bind (delivery_until r) (restored e)\<rparr>) else row_get db i))"
proof -
  let ?x1 = "if b then expired_copy x else x"
  let ?db1 = "if b then row_expire j db else db"
  have s1: "steps (scope_of j) db ?db1" and g1: "\<forall>i. row_get ?db1 i = (if i = j then Some ?x1 else row_get db i)"
    using row_expire_steps [OF ok g d] steps_refl [OF ok] g by auto
  have "db' = update_row j (\<lambda>x. x\<lparr>delivery_generation := delivery_generation r,
      delivery_until := Option.bind (delivery_until r) (restored e)\<rparr>) ?db1"
    using rd id by (auto simp: row_deliver_def and_then_Inr Let_def split del: if_split)
  moreover have "row_get ?db1 j = Some ?x1" using g1 by simp
  moreover have "delivery_state (state ?x1)" "delivery_generation ?x1 \<le> delivery_generation r"
    using d le by (simp_all add: expired_copy_def)
  ultimately have s2: "steps (scope_of j) ?db1 db'" and g2: "\<forall>i. row_get db' i = (if i = j
    then Some (?x1\<lparr>delivery_generation := delivery_generation r,
      delivery_until := Option.bind (delivery_until r) (restored e)\<rparr>) else row_get ?db1 i)"
    using stamped_steps [OF steps_ok [OF s1]] by blast+
  show ?thesis using steps_trans [OF s1 s2] steps_ok [OF s2] g2 g1 by auto
qed

text \<open>What the first loop of a completion page hands to the second.\<close>

definition handed :: "JobScope \<Rightarrow> jobs_db \<Rightarrow> (JobRecord \<times> Delivery \<times> bool) list \<Rightarrow> bool" where
  "handed sc db as \<longleftrightarrow> distinct (map (\<lambda>a. job_id (fst a)) as) \<and>
     (\<forall>a \<in> set as. scope_of (job_id (fst a)) = sc \<and> (\<exists>x. row_get db (job_id (fst a)) = Some x \<and>
        delivery_state (state x) \<and> delivery_generation x \<le> delivery_generation (fst a)))"

lemma admit_loop_ids:
  assumes "admit_loop e cfg now mx used comma infos db = Inr as"
  shows "\<exists>n. map (\<lambda>a. job_id (fst a)) as = take n (map job_id infos)"
  using assms
proof (induction infos arbitrary: used comma as)
  case (Cons info infos)
  from Cons.prems obtain m gen until sz required where m: "row_metadata db (job_id info) = Inr m"
    and rest: "(case required of None \<Rightarrow> Inr [] | Some b \<Rightarrow> and_then (admit_loop e cfg now mx b True infos db) (\<lambda>rest.
      Inr (((if (case recovery_until m of None \<Rightarrow> False | Some until \<Rightarrow> until \<le> now)
               then delete_copies (m\<lparr>result_expired := True\<rparr>) else m)\<lparr>delivery_generation := gen, delivery_until := Some until\<rparr>, sz) # rest)))
      = Inr as"
    unfolding admit_loop.simps Let_def by (auto simp: and_then_Inr split del: if_split)
  have id: "job_id m = job_id info"
    using m by (auto simp: row_metadata_def split: option.splits dest: row_get_id)
  show ?case
  proof (cases required)
    case None
    with rest have "as = []" by simp
    then show ?thesis by (intro exI [of _ 0]) simp
  next
    case (Some b)
    with rest obtain rest' where r: "admit_loop e cfg now mx b True infos db = Inr rest'"
      and as: "map (\<lambda>a. job_id (fst a)) as = job_id info # map (\<lambda>a. job_id (fst a)) rest'"
      using id by (auto simp: and_then_Inr split: if_splits)
    from Cons.IH [OF r] obtain n where "map (\<lambda>a. job_id (fst a)) rest' = take n (map job_id infos)" by blast
    with as show ?thesis by (intro exI [of _ "Suc n"]) simp
  qed
qed simp


lemma admit_loop_generation:
  assumes "admit_loop e cfg now mx used comma infos db = Inr as" "a \<in> set as"
  shows "\<exists>x. row_get db (job_id (fst a)) = Some x \<and> delivery_generation (fst a) = Suc (delivery_generation x)"
  using assms
proof (induction infos arbitrary: used comma as)
  case (Cons info infos)
  from Cons.prems(1) obtain m gen until required p where m: "row_metadata db (job_id info) = Inr m"
    and gen: "checked_sum InvalidRequest (delivery_generation (if (case recovery_until m of None \<Rightarrow> False | Some until \<Rightarrow> until \<le> now)
               then delete_copies (m\<lparr>result_expired := True\<rparr>) else m)) 1 = Inr gen"
    and rest: "(case required of None \<Rightarrow> Inr [] | Some b \<Rightarrow> and_then (admit_loop e cfg now mx b True infos db) (\<lambda>rest.
      Inr (((if (case recovery_until m of None \<Rightarrow> False | Some until \<Rightarrow> until \<le> now)
               then delete_copies (m\<lparr>result_expired := True\<rparr>) else m)\<lparr>delivery_generation := gen, delivery_until := Some until\<rparr>, p) # rest)))
      = Inr as"
    unfolding admit_loop.simps Let_def by (auto simp: and_then_Inr split del: if_split)
  obtain b where b: "required = Some b" using rest Cons.prems(2) by (cases required) auto
  from m obtain x where x: "row_get db (job_id info) = Some x"
    "m = x\<lparr>payload := None, admission := None, job_output := None\<rparr>"
    by (auto simp: row_metadata_def split: option.splits)
  from rest b obtain rest' where r: "admit_loop e cfg now mx b True infos db = Inr rest'"
    and as: "as = ((if (case recovery_until m of None \<Rightarrow> False | Some until \<Rightarrow> until \<le> now)
               then delete_copies (m\<lparr>result_expired := True\<rparr>) else m)\<lparr>delivery_generation := gen, delivery_until := Some until\<rparr>, p) # rest'"
    by (auto simp: and_then_Inr split del: if_split)
  from Cons.prems(2) as consider (hd) "a = ((if (case recovery_until m of None \<Rightarrow> False | Some until \<Rightarrow> until \<le> now)
               then delete_copies (m\<lparr>result_expired := True\<rparr>) else m)\<lparr>delivery_generation := gen, delivery_until := Some until\<rparr>, p)"
    | (tl) "a \<in> set rest'" by auto
  then show ?case
  proof cases
    case hd
    then have "job_id (fst a) = job_id info" "delivery_generation (fst a) = Suc (delivery_generation x)"
      using gen x row_get_id [OF x(1)] by (auto simp: checked_sum_Inr split: if_splits)
    with x(1) show ?thesis by simp
  next
    case tl
    with Cons.IH [OF r] show ?thesis by blast
  qed
qed simp

lemma admit_loop_handed:
  assumes idx: "db_idx db" and fr: "fresh sc db infos" "\<And>r. r \<in> set infos \<Longrightarrow> delivery_state (state r)"
    and al: "admit_loop e cfg now mx used comma infos db = Inr as"
  shows "handed sc db as"
proof -
  from admit_loop_ids [OF al] obtain n where ids: "map (\<lambda>a. job_id (fst a)) as = take n (map job_id infos)" by blast
  have "distinct (map (\<lambda>a. job_id (fst a)) as)" unfolding ids using fr(1) by (simp add: fresh_def)
  moreover have "scope_of (job_id (fst a)) = sc \<and> (\<exists>x. row_get db (job_id (fst a)) = Some x \<and>
        delivery_state (state x) \<and> delivery_generation x \<le> delivery_generation (fst a))" if "a \<in> set as" for a
  proof -
    have "job_id (fst a) \<in> set (map (\<lambda>a. job_id (fst a)) as)" using that by simp
    then have "job_id (fst a) \<in> set (map job_id infos)" unfolding ids by (rule in_set_takeD)
    then obtain r where r: "r \<in> set infos" "job_id r = job_id (fst a)" by auto
    have g: "row_get db (job_id (fst a)) = Some r" "scope_of (job_id (fst a)) = sc"
      using fr(1) r unfolding fresh_def by metis+
    have "delivery_generation r \<le> delivery_generation (fst a)"
      using admit_loop_generation [OF al that] g(1) by auto
    with g fr(2) [OF r(1)] show ?thesis by blast
  qed
  ultimately show ?thesis by (simp add: handed_def)
qed

lemma deliver_loop_steps:
  assumes "db_ok db" "handed sc db as" "deliver_loop e as db = Inr (ds, db')"
  shows "steps sc db db'"
  using assms
proof (induction as arbitrary: db ds)
  case (Cons a as)
  obtain r d h where a: "a = (r, d, h)" by (cases a)
  from Cons.prems(3) obtain db1 ds1 where rd: "row_deliver e r (result_expired r) db = Inr db1"
    and rest: "deliver_loop e as db1 = Inr (ds1, db')"
    by (auto simp: a and_then_Inr)
  from Cons.prems(2) obtain x where x: "row_get db (job_id r) = Some x" "delivery_state (state x)"
    "delivery_generation x \<le> delivery_generation r" and sc: "scope_of (job_id r) = sc"
    and nin: "job_id r \<notin> (\<lambda>a. job_id (fst a)) ` set as" and h: "handed sc db as"
    by (auto simp: handed_def a)
  note s = delivered_row [OF Cons.prems(1) x refl rd, unfolded sc]
  have "row_get db1 (job_id (fst b)) = row_get db (job_id (fst b))" if "b \<in> set as" for b
  proof -
    have "job_id (fst b) \<noteq> job_id r" using nin that by force
    with s show ?thesis by simp
  qed
  with h have "handed sc db1 as" by (simp add: handed_def)
  from Cons.IH [OF _ this rest] s steps_trans show ?case by blast
qed (simp add: steps_refl)

lemma do_completions_steps:
  assumes ok: "db_ok db" and d: "do_completions e cfg sc now limit mx db = Inr (resp, db')"
  shows "steps sc db db'"
proof -
  from d obtain infos as ds where sel: "select_rows e sc Q_Final now limit db = Inr infos"
    and al: "admit_loop e cfg now mx 2 False infos db = Inr as" and dl: "deliver_loop e as db = Inr (ds, db')"
    by (auto simp: do_completions_def and_then_Inr)
  note idx = db_okD(1) [OF ok]
  have "handed sc db as"
    by (rule admit_loop_handed [OF idx select_rows_fresh [OF idx sel] _ al])
      (use select_rows_mem [OF sel] in auto)
  from deliver_loop_steps [OF ok this dl] show ?thesis .
qed

lemma ack_loop_moves:
  assumes "db_ok db" "ack_loop e sc as db = Inr (rs, db')"
  shows "moves sc db db' \<and> acks db db'"
  using assms
proof (induction as arbitrary: db rs)
  case (Cons a as)
  obtain tk d where a: "a = (tk, d)" by (cases a)
  from Cons.prems(2) obtain r where g: "get sc (tk_job tk) db = Inr r" and nu: "\<not> unfinished (state r)"
    by (auto simp: a and_then_Inr split: if_splits)
  show ?case
  proof (cases "acked (state r)")
    case True
    with Cons.prems(2) g nu obtain rs' where "ack_loop e sc as db = Inr (rs', db')"
      by (auto simp: a and_then_Inr split: if_splits)
    with Cons.IH Cons.prems(1) show ?thesis by blast
  next
    case False
    with Cons.prems(2) g nu obtain db1 rs' where
      sv: "save e (r\<lparr>final_state := Some (state r), state := ack_state d\<rparr>) db = Inr db1"
      and rest: "ack_loop e sc as db1 = Inr (rs', db')"
      by (auto simp: a and_then_Inr split: if_splits)
    have d: "delivery_state (state r)" "acked (ack_state d)" using nu False
      by (simp_all add: three_phases ack_state_def split: Disposition.splits)
    from save_tomb [OF Cons.prems(1) get_self(1) [OF g] d sv] get_self(2) [OF g]
    have m: "moves sc db db1" and get: "row_get db1 j = (if j = job_id r
        then Some (tombstone (UNIX_EPOCH e) (r\<lparr>final_state := Some (state r), state := ack_state d\<rparr>)) else row_get db j)" for j
      by auto
    have "acks db db1"
      unfolding acks_def using get get_self(1) [OF g] d by simp
    with m Cons.IH [OF moves_ok [OF m] rest] moves_trans acks_trans show ?thesis by blast
  qed
qed (simp add: moves_refl)

lemma do_ack_moves: "db_ok db \<Longrightarrow> do_ack e cfg sc as db = Inr (resp, db') \<Longrightarrow> moves sc db db' \<and> acks db db'"
  by (auto simp: do_ack_def and_then_Inr dest: ack_loop_moves)


section \<open>Cancellation, erasure and maintenance\<close>

lemma cancel_requested_next:
  assumes "rec_ok r" "unfinished (state r)" "state r \<noteq> Pending" "state r \<noteq> AwaitingAdmission"
  shows "next_ok r (r\<lparr>cancel_requested := True\<rparr>)"
proof -
  have o: "open_ok r \<and> phase_ok r" using rec_unfinished [OF assms(1,2)] by blast
  have "state r = Running \<or> state r = Uncertain" using assms(2-4) by (auto simp: unfinished_def)
  then have "live_ok (r\<lparr>cancel_requested := True\<rparr>)"
    using o assms(2) by (subst live_open) (auto simp: open_ok_def phase_ok_def split: if_splits)
  then show ?thesis
    using unfinished_not_acked [OF assms(2)] assms(2) by (simp add: next_ok_def jf_def jkeep_def three_phases)
qed

lemma cancel_next:
  assumes rk: "rec_ok r" and u: "unfinished (state r)"
    and c: "(if claimable r now \<or> state r = AwaitingAdmission
             then and_then (finish e cfg (stopped_state r) now r) (\<lambda>r1. Inr (delete_copies r1))
             else Inr (r\<lparr>cancel_requested := True\<rparr>)) = Inr r1"
  shows "next_ok r r1"
proof (cases "claimable r now \<or> state r = AwaitingAdmission")
  case True
  with c obtain r2 where f: "finish e cfg (stopped_state r) now r = Inr r2" and r1: "r1 = delete_copies r2"
    by (auto simp: and_then_Inr)
  have "live_ok r" "\<not> acked (state r)" using rec_unfinished [OF rk u] unfinished_not_acked [OF u] by blast+
  with finish_next [OF f live_ready jf_refl] have "next_ok r r2" "state r2 = stopped_state r" by simp_all
  then show ?thesis unfolding r1
    by (intro delete_copies_next) (simp_all add: stopped_state_def split: if_splits)
next
  case False
  with c have "r1 = r\<lparr>cancel_requested := True\<rparr>" by simp
  moreover have "state r \<noteq> Pending" "state r \<noteq> AwaitingAdmission" using False by (auto simp: claimable_def)
  ultimately show ?thesis using cancel_requested_next [OF rk u] by simp
qed

lemma cancel_loop_steps:
  assumes "db_ok db" "fresh sc db rs" "cancel_loop e cfg now rs db = Inr (n, db')"
  shows "steps sc db db'"
  using assms
proof (induction rs arbitrary: db n)
  case (Cons r rs)
  show ?case
  proof (cases "unfinished (state r)")
    case False
    with Cons show ?thesis by (simp add: fresh_Cons)
  next
    case True
    with Cons.prems(3) obtain r1 db1 m where
      c: "(if claimable r now \<or> state r = AwaitingAdmission
             then and_then (finish e cfg (stopped_state r) now r) (\<lambda>r1. Inr (delete_copies r1))
             else Inr (r\<lparr>cancel_requested := True\<rparr>)) = Inr r1"
      and sv: "save e r1 db = Inr db1" and rest: "cancel_loop e cfg now rs db1 = Inr (m, db')"
      by (auto simp: and_then_Inr simp del: if_split_asm split del: if_split)
    have "rec_ok r" using Cons.prems(2) by (intro db_okD(2) [OF Cons.prems(1), of "job_id r"]) (simp add: fresh_Cons)
    from save_fresh [OF Cons.prems(1,2) cancel_next [OF this True c] sv] Cons.IH [OF _ _ rest] steps_trans
    show ?thesis by blast
  qed
qed (simp add: steps_refl)

lemma do_cancel_steps:
  assumes ok: "db_ok db" and d: "do_cancel e cfg sc now sel db = Inr (resp, db')"
  shows "steps sc db db'"
proof -
  note idx = db_okD(1) [OF ok]
  obtain rs n where c: "cancel_loop e cfg now rs db = Inr (n, db')" and f: "fresh sc db rs"
  proof (cases sel)
    case (Ids js)
    with d obtain rs n where "get_all sc (sort (remdups (map ident js))) db = Inr rs" "cancel_loop e cfg now rs db = Inr (n, db')"
      by (auto simp: do_cancel_def and_then_Inr)
    with get_all_fresh [of sc _ db rs] that show ?thesis by simp
  next
    case (Group g)
    with d obtain rs n where "select_rows e sc (Q_Group g) now (live_count sc db) db = Inr rs"
      "cancel_loop e cfg now rs db = Inr (n, db')"
      by (auto simp: do_cancel_def and_then_Inr)
    with select_rows_fresh [OF idx] that show ?thesis by blast
  qed
  from cancel_loop_steps [OF ok f c] show ?thesis .
qed

lemma erased_fields [simp]:
  "state (erased r) = state r" "purged (erased r)" "owners (erased r) = []" "cancel_requested (erased r)"
  "job_id (erased r) = job_id r" "no_copies (erased r)" "claimable (erased r) now = claimable r now"
  by (simp_all add: erased_def claimable_def)

lemma erased_ready:
  assumes "live_ok r" "\<not> acked (state r)"
  shows "ready (erased r) \<and> jf r (erased r)"
proof
  show "ready (erased r)" using live_ready [OF assms(1)] by (simp add: ready_def erased_def)
  show "jf r (erased r)" using assms(2) by (simp add: jf_def jkeep_def erased_def three_phases)
qed

lemma purge_next:
  assumes lv: "live_ok r" "\<not> acked (state r)"
    and c: "(if claimable (erased r) now \<or> state (erased r) \<noteq> Running \<and> state (erased r) \<noteq> Uncertain \<and> \<not> acked (state (erased r))
             then finish e cfg Purged now (erased r) else Inr (erased r)) = Inr r2"
  shows "next_ok r r2"
proof (cases "claimable r now \<or> state r \<noteq> Running \<and> state r \<noteq> Uncertain")
  case True
  with c lv(2) have "finish e cfg Purged now (erased r) = Inr r2" by auto
  from finish_next [OF this] erased_ready [OF lv] lv(2) show ?thesis by simp
next
  case False
  then have r2: "r2 = erased r" and st: "state r = Running \<or> state r = Uncertain" using c by auto
  then have u: "unfinished (state r)" by auto
  have "open_ok r \<and> phase_ok r" using live_open [OF u] lv(1) by blast
  then have "live_ok (erased r)"
    using st u by (subst live_open) (auto simp: open_ok_def phase_ok_def erased_def)
  with erased_ready [OF lv] lv(2) show ?thesis by (simp add: next_ok_def r2)
qed

lemma purge_loop_steps:
  assumes "db_ok db" "fresh sc db rs" "\<And>r. r \<in> set rs \<Longrightarrow> \<not> acked (state r)" "purge_loop e cfg now rs db = Inr db'"
  shows "steps sc db db'"
  using assms
proof (induction rs arbitrary: db)
  case (Cons r rs)
  from Cons.prems(4) obtain r2 db1 where
    c: "(if claimable (erased r) now \<or> state (erased r) \<noteq> Running \<and> state (erased r) \<noteq> Uncertain \<and> \<not> acked (state (erased r))
         then finish e cfg Purged now (erased r) else Inr (erased r)) = Inr r2"
    and sv: "save e r2 db = Inr db1" and rest: "purge_loop e cfg now rs db1 = Inr db'"
    unfolding purge_loop.simps Let_def by (auto simp only: and_then_Inr)
  have na: "\<not> acked (state r)" using Cons.prems(3) by simp
  have "live_ok r" using Cons.prems(2) na by (intro unacked_live [OF Cons.prems(1), of "job_id r"]) (simp_all add: fresh_Cons)
  note s = save_fresh [OF Cons.prems(1,2) purge_next [OF this na c] sv]
  have "steps sc db1 db'" by (rule Cons.IH [OF _ _ _ rest]) (use s Cons.prems(3) in auto)
  with s steps_trans show ?case by blast
qed (simp add: steps_refl)

lemma owner_rows_live:
  assumes ok: "db_ok db" and sel: "select_rows e sc (Q_Owner ow) now n db = Inr rs" and r: "r \<in> set rs"
  shows "\<not> acked (state r)"
proof
  assume a: "acked (state r)"
  from select_rows_mem [OF sel r] have m: "r \<in> set (jobs db)"
    "(scope_of (job_id r), ow, ident (job_id r)) \<in> set (job_owners db)" by auto
  have g: "row_get db (job_id r) = Some r" using m(1) row_get_in [OF db_okD(1) [OF ok]] by blast
  have "tomb_ok r" using db_okD(2) [OF ok g] a by (simp add: rec_ok_def)
  moreover have "\<lparr>scope_of = scope_of (job_id r), ident = ident (job_id r)\<rparr> = job_id r" by simp
  with m(2) g have "ow \<in> set (owners r)"
    using owner_sync_iff [OF db_okD(1) [OF ok], of "scope_of (job_id r)" ow "ident (job_id r)"] by simp
  ultimately show False by (simp add: tomb_ok_def)
qed

lemma do_purge_owner_steps:
  assumes ok: "db_ok db" and d: "do_purge_owner e cfg sc now ow db = Inr (resp, db')"
  shows "steps sc db db'"
proof -
  from d obtain rs where sel: "select_rows e sc (Q_Owner ow) now (live_count sc db) db = Inr rs"
    and p: "purge_loop e cfg now rs db = Inr db'"
    by (auto simp: do_purge_owner_def and_then_Inr)
  from purge_loop_steps [OF ok select_rows_fresh [OF db_okD(1) [OF ok] sel] owner_rows_live [OF ok sel] p]
  show ?thesis .
qed

lemma maintain_loop_steps:
  assumes "db_ok db" "fresh sc db rs" "\<And>r. r \<in> set rs \<Longrightarrow> delivery_state (state r)"
    "maintain_loop e cfg c b rs db = Inr (n, db')"
  shows "steps sc db db'"
  using assms
proof (induction rs arbitrary: db c b)
  case (Cons r rs)
  have f: "row_get db (job_id r) = Some r" "scope_of (job_id r) = sc" "job_id r \<notin> job_id ` set rs" "fresh sc db rs"
    using Cons.prems(2) by (simp_all add: fresh_Cons)
  note s = row_expire_steps [OF Cons.prems(1) f(1) Cons.prems(3), simplified f(2)]
  have fr: "fresh sc (row_expire (job_id r) db) rs" by (rule fresh_other [OF f(4,3)]) (use s in simp)
  from Cons.prems(4) consider "db' = db" | "db' = row_expire (job_id r) db"
    | k req where "maintain_loop e cfg k req rs (row_expire (job_id r) db) = Inr (n, db')"
    by (auto simp: and_then_Inr Let_def split: if_splits)
  then show ?case
  proof cases
    case 3
    from Cons.IH [OF _ fr _ 3] s Cons.prems(3) steps_ok steps_trans show ?thesis by (meson list.set_intros)
  qed (use s Cons.prems(1) steps_refl in auto)
qed (simp add: steps_refl)

lemma do_maintain_steps:
  assumes ok: "db_ok db" and d: "do_maintain e cfg sc now db = Inr (resp, db')"
  shows "steps sc db db'"
proof -
  from d obtain rs n where sel: "select_rows e sc Q_Expired now (maintenance_batch cfg) db = Inr rs"
    and p: "maintain_loop e cfg 0 0 rs db = Inr (n, db')"
    by (auto simp: do_maintain_def and_then_Inr)
  show ?thesis
    by (rule maintain_loop_steps [OF ok select_rows_fresh [OF db_okD(1) [OF ok] sel] _ p])
      (use select_rows_mem [OF sel] in auto)
qed


section \<open>Enqueue\<close>

text \<open>
  What the store relies on of the identities it draws (random UUIDs in the source): they are
  pairwise different and not yet used in the scope.
\<close>

definition fresh_ids :: "env \<Rightarrow> JobScope \<Rightarrow> nat \<Rightarrow> jobs_db \<Rightarrow> bool" where
  "fresh_ids e sc n db \<longleftrightarrow> inj (new_id e) \<and> (\<forall>m \<ge> n. row_get db \<lparr>scope_of = sc, ident = new_id e m\<rparr> = None)"

lemma new_job_live: "sp_max_attempts sp \<noteq> 0 \<Longrightarrow> live_ok (new_job e sc i now until sp)"
  by (subst live_open) (simp_all add: new_job_def open_ok_def phase_ok_def)

lemma insert_job_moves:
  assumes ok: "db_ok db" and f: "fresh_ids e sc n db" and a: "sp_max_attempts sp \<noteq> 0"
    and ij: "insert_job e cfg (new_job e sc (new_id e n) now until sp) db = Inr db'"
  shows "moves sc db db' \<and> enters db db' \<and> db_ok db' \<and> fresh_ids e sc (Suc n) db' \<and>
    (\<exists>r'. requant (new_job e sc (new_id e n) now until sp) r' \<and>
      (\<forall>j. row_get db' j = (if j = \<lparr>scope_of = sc, ident = new_id e n\<rparr> then Some r' else row_get db j)))"
proof -
  let ?r = "new_job e sc (new_id e n) now until sp"
  have id: "job_id ?r = \<lparr>scope_of = sc, ident = new_id e n\<rparr>" "state ?r = Pending" by (simp_all add: new_job_def)
  have sv: "save e ?r db = Inr db'" using ij by (auto simp: insert_job_def and_then_Inr split: if_splits)
  have new: "row_get db (job_id ?r) = None" using f by (simp add: fresh_ids_def id)
  from save_new [OF ok new _ new_job_live [OF a] sv] id obtain r' where s: "moves sc db db'" and q: "requant ?r r'"
    and g: "\<forall>j. row_get db' j = (if j = \<lparr>scope_of = sc, ident = new_id e n\<rparr> then Some r' else row_get db j)"
    by auto
  have "enters db db'"
    unfolding enters_def using g new id requant_simps(8) [OF q] by (simp add: unfinished_def)
  moreover have "fresh_ids e sc (Suc n) db'"
    unfolding fresh_ids_def
  proof (intro conjI allI impI)
    show i: "inj (new_id e)" using f by (simp add: fresh_ids_def)
    fix m assume "Suc n \<le> m"
    then have "new_id e m \<noteq> new_id e n" using injD [OF i, of m n] by auto
    with g f \<open>Suc n \<le> m\<close> show "row_get db' \<lparr>scope_of = sc, ident = new_id e m\<rparr> = None"
      by (simp add: fresh_ids_def)
  qed
  ultimately show ?thesis using s q g moves_ok by blast
qed

lemma enqueue_loop_moves:
  assumes "db_ok db" "fresh_ids e sc n db" "enqueue_loop e cfg sc now n sps db = Inr (outs, db')"
  shows "moves sc db db' \<and> enters db db'"
  using assms
proof (induction sps arbitrary: n db outs)
  case (Cons sp sps)
  from Cons.prems(3) have a: "sp_max_attempts sp \<noteq> 0" by (auto split: if_splits)
  show ?case
  proof (cases "by_key db sc (sp_key sp)")
    case (Some r)
    with Cons.prems(3) obtain outs' where "enqueue_loop e cfg sc now n sps db = Inr (outs', db')"
      by (auto simp: and_then_Inr split: if_splits)
    with Cons.IH Cons.prems(1,2) show ?thesis by blast
  next
    case None
    with Cons.prems(3) obtain until db1 outs' where
      i: "insert_job e cfg (new_job e sc (new_id e n) now until sp) db = Inr db1"
      and rest: "enqueue_loop e cfg sc now (Suc n) sps db1 = Inr (outs', db')"
      by (auto simp: and_then_Inr Let_def split: if_splits)
    from insert_job_moves [OF Cons.prems(1,2) a i] Cons.IH [OF _ _ rest] moves_trans enters_trans show ?thesis by blast
  qed
qed (simp add: moves_refl)

lemma do_enqueue_moves:
  "db_ok db \<Longrightarrow> fresh_ids e sc 0 db \<Longrightarrow> do_enqueue e cfg sc now sps db = Inr (resp, db') \<Longrightarrow>
   moves sc db db' \<and> enters db db'"
  by (auto simp: do_enqueue_def and_then_Inr dest: enqueue_loop_moves)

section \<open>All requests\<close>

text \<open>
  The assumptions on the environment of a request: an instant that was written can be read back,
  and an enqueue draws fresh identities.
\<close>

definition env_ok :: "env \<Rightarrow> JobScope \<Rightarrow> JobRequest \<Rightarrow> jobs_db \<Rightarrow> bool" where
  "env_ok e sc rq db \<longleftrightarrow>
     (\<forall>t. restored e t \<noteq> None) \<and> (case rq of Enqueue sps \<Rightarrow> fresh_ids e sc 0 db | _ \<Rightarrow> True)"

lemmas request_steps =
  do_await_admission_steps do_admit_steps do_claim_steps do_refuse_pending_steps
  do_claim_paid_steps do_claim_job_steps do_heartbeat_steps do_complete_steps do_resolve_steps
  do_completions_steps do_cancel_steps do_purge_owner_steps do_maintain_steps

lemma dispatch_moves:
  assumes ok: "db_ok db" and e: "env_ok e sc rq db" and d: "dispatch e cfg sc now rq db = Inr (resp, db')"
  shows "moves sc db db' \<and> (calm db db' \<or> acks db db' \<or> enters db db')"
proof (cases "(\<exists>sps. rq = Enqueue sps) \<or> (\<exists>as. rq = Ack as)")
  case True
  with d e do_enqueue_moves [OF ok, of e] do_ack_moves [OF ok, of e] show ?thesis by (auto simp: env_ok_def)
next
  case False
  have "steps sc db db'"
  proof (cases rq)
    case (Heartbeat j gen)
    with d e do_heartbeat_steps [OF ok, of e] show ?thesis by (auto simp: env_ok_def)
  qed (use d ok False in \<open>auto simp: do_candidates_def do_admission_notices_def do_diagnostics_def do_status_def and_then_Inr
      intro: steps_refl request_steps\<close>)
  then show ?thesis by (simp add: steps_def)
qed

lemma transaction_moves:
  assumes "db_ok db" and "env_ok e sc rq db" and "jobs_in_transaction e cfg sc clock rq db = (res, db')"
  shows "moves sc db db' \<and> (calm db db' \<or> acks db db' \<or> enters db db')"
  using assms dispatch_moves [OF assms(1,2)] moves_refl [OF assms(1)]
  by (auto simp: jobs_in_transaction_def apply_job_request_def and_then_Inr split: sum.splits)

end
