(* ===== verification/Job_Store_Props.thy ===== *)
theory Job_Store_Props
  imports Job_Store_Steps Store_Contract
begin

text \<open>
  The correctness properties of the job store.

  \<open>job_step\<close> is one transaction of any request in any scope, \<open>job_step\<^sup>*\<^sup>*\<close> a run of the store. The
  interpretation \<open>js\<close> of the contract \<open>persistent_store\<close> lifts the steps of the previous theory to
  runs.
\<close>

section \<open>Runs of the store\<close>

inductive job_step :: "jobs_db \<Rightarrow> jobs_db \<Rightarrow> bool" where
  request: "env_ok e sc rq db \<Longrightarrow> jobs_in_transaction e cfg sc clock rq db = (res, db') \<Longrightarrow> job_step db db'"

inductive_cases job_stepE: "job_step db db'"

interpretation js: persistent_store db_ok job_step row_get jf
proof unfold_locales
  fix s t :: jobs_db
  assume ok: "db_ok s" and st: "job_step s t"
  then obtain sc where s: "moves sc s t" by (elim job_stepE) (use transaction_moves in blast)
  then show "db_ok t" by (rule moves_ok)
  show "\<exists>r'. row_get t k = Some r' \<and> jf r r'" if "row_get s k = Some r" for k r
    using s that unfolding moves_def by blast
qed (auto intro: jf_trans)

lemma empty_db_ok: "db_ok empty_db"
  by (simp add: db_ok_def db_idx_def empty_db_def)

section \<open>A concrete environment\<close>

definition demo_codec :: codec where
  "demo_codec = \<lparr>json_record = (\<lambda>_. 100), json_delivery = (\<lambda>_. 100), json_bytes = (\<lambda>b. 2 + length b),
     json_input = (\<lambda>_. 50), json_acks = (\<lambda>a. 40 * length a), sha256_hex = map (\<lambda>w. if w = 0 then CHR ''0'' else CHR ''1''),
     sql_json_input = (\<lambda>_. 50), max_utc = 1000000000\<rparr>"

definition demo_env :: "string \<Rightarrow> env" where
  "demo_env p = \<lparr>chr = plain_clock, cod = demo_codec, new_id = (\<lambda>n. p @ replicate n CHR ''a''), recovery_len = (\<lambda>_. 0)\<rparr>"

definition demo_scope :: JobScope where
  "demo_scope = \<lparr>tenant = ''t'', incarnation = ''i'', queue = ''q''\<rparr>"

definition demo_spec :: "string \<Rightarrow> JobSpec" where
  "demo_spec k = \<lparr>sp_key = k, sp_group = None, sp_owners = [''o''], sp_kind = ''k'', sp_execution = Handler,
     sp_payload = [1, 0], sp_admission = None, sp_max_attempts = 2, sp_recovery_until = None\<rparr>"

fun demo_steps :: "time \<Rightarrow> JobRequest list \<Rightarrow> jobs_db \<Rightarrow> jobs_db" where
  "demo_steps t [] db = db"
| "demo_steps t (rq # rqs) db =
     demo_steps (t + 1) rqs (snd (jobs_in_transaction (demo_env ''j'') JobConfig_default demo_scope t rq db))"

definition demo_run :: "JobRequest list \<Rightarrow> jobs_db" where
  "demo_run rqs = demo_steps 100 rqs empty_db"

definition demo_job :: JobId where
  "demo_job = \<lparr>scope_of = demo_scope, ident = ''j''\<rparr>"

lemma demo_restored: "restored (demo_env p) t = Some t"
  by (simp add: restored_def demo_env_def plain_clock_def)

lemma demo_inj: "inj (new_id (demo_env p))"
  by (rule injI) (simp add: demo_env_def)


lemma demo_fresh: "fresh_ids (demo_env p) sc n empty_db"
  by (simp add: fresh_ids_def demo_inj row_get_def empty_db_def)

lemma demo_steps_reach:
  assumes "\<And>sps. Enqueue sps \<notin> set rqs"
  shows "job_step\<^sup>*\<^sup>* db (demo_steps t rqs db)"
  using assms
proof (induction rqs arbitrary: t db)
  case (Cons rq rqs)
  have "env_ok (demo_env ''j'') demo_scope rq db"
    using Cons.prems by (cases rq) (auto simp: env_ok_def demo_restored)
  then have "job_step db (snd (jobs_in_transaction (demo_env ''j'') JobConfig_default demo_scope t rq db))"
    by (rule request) (rule prod.collapse [symmetric])
  moreover have "job_step\<^sup>*\<^sup>* x (demo_steps (t + 1) rqs x)" for x using Cons by simp
  ultimately show ?case by (simp add: converse_rtranclp_into_rtranclp)
qed simp

lemma demo_run_reach:
  assumes "\<And>sps. Enqueue sps \<notin> set rqs"
  shows "job_step\<^sup>*\<^sup>* empty_db (demo_run (Enqueue sps # rqs))"
proof -
  have "env_ok (demo_env ''j'') demo_scope (Enqueue sps) empty_db"
    by (simp add: env_ok_def demo_restored demo_fresh)
  then have "job_step empty_db (snd (jobs_in_transaction (demo_env ''j'') JobConfig_default demo_scope 100 (Enqueue sps) empty_db))"
    by (rule request) (rule prod.collapse [symmetric])
  with demo_steps_reach [OF assms] show ?thesis
    by (simp add: demo_run_def converse_rtranclp_into_rtranclp)
qed

lemma demo_run_ok: "(\<And>sps. Enqueue sps \<notin> set rqs) \<Longrightarrow> db_ok (demo_run (Enqueue sps # rqs))"
  using js.run_ok [OF demo_run_reach empty_db_ok] by blast

section \<open>Invariant and life cycle\<close>

text \<open>
  C4. Every state the job store can reach from the empty tables, by any requests in any scopes, is
  well formed: identities are unique, keys are unique in their scope, the owner index lists
  exactly the owners of the records, a running job has a lease and a positive generation within
  its attempt budget, a finished job has a finish time and a retention deadline, waiting input
  is present until a job ends or is erased, an erased or expired job keeps no copy of its
  content and no owner, and a confirmed job is a content-free tombstone.
\<close>

theorem job_store_invariant:
  assumes "job_step\<^sup>*\<^sup>* empty_db db"
  shows "db_ok db"
  by (rule js.run_ok [OF assms empty_db_ok])

theorem job_store_invariant_witness:
  "job_step\<^sup>*\<^sup>* empty_db (demo_run [Enqueue [demo_spec ''a'', demo_spec ''b''], Claim [''k''] 1]) \<and>
   db_ok (demo_run [Enqueue [demo_spec ''a'', demo_spec ''b''], Claim [''k''] 1]) \<and>
   map state (jobs (demo_run [Enqueue [demo_spec ''a'', demo_spec ''b''], Claim [''k''] 1])) = [Running, Pending]"
proof (intro conjI)
  show r: "job_step\<^sup>*\<^sup>* empty_db (demo_run [Enqueue [demo_spec ''a'', demo_spec ''b''], Claim [''k''] 1])"
    by (rule demo_run_reach) simp
  show "db_ok (demo_run [Enqueue [demo_spec ''a'', demo_spec ''b''], Claim [''k''] 1])"
    by (rule job_store_invariant [OF r])
qed code_simp

text \<open>
  C5. A request never loses a job and moves each one along its life cycle: identity, key, digest,
  execution, kind, group and attempt budget are fixed, generations only grow, cancellation,
  erasure and expiry are permanent, a finished job is never reopened, its result is kept or
  deleted but never replaced, a confirmed job never changes again, and the jobs of every other
  scope are untouched, as are the identities they use.
\<close>

theorem job_life_cycle:
  assumes "db_ok db" and "env_ok e sc rq db" and "jobs_in_transaction e cfg sc clock rq db = (res, db')"
  shows "(\<forall>j r. row_get db j = Some r \<longrightarrow>
      (\<exists>r'. row_get db' j = Some r' \<and> jf r r' \<and> (scope_of j \<noteq> sc \<longrightarrow> r' = r))) \<and>
    (\<forall>j. row_get db j = None \<and> scope_of j \<noteq> sc \<longrightarrow> row_get db' j = None)"
  using transaction_moves [OF assms] unfolding moves_def by blast

theorem job_life_cycle_witness:
  "\<exists>r r'. row_get (demo_run [Enqueue [demo_spec ''a'']]) demo_job = Some r \<and>
     row_get (demo_run [Enqueue [demo_spec ''a''], Claim [''k''] 1]) demo_job = Some r' \<and>
     jf r r' \<and> state r = Pending \<and> state r' = Running"
proof -
  let ?db = "demo_run [Enqueue [demo_spec ''a'']]"
  obtain res db' where t: "jobs_in_transaction (demo_env ''j'') JobConfig_default demo_scope 101 (Claim [''k''] 1) ?db = (res, db')"
    by (cases "jobs_in_transaction (demo_env ''j'') JobConfig_default demo_scope 101 (Claim [''k''] 1) ?db")
  have db': "demo_run [Enqueue [demo_spec ''a''], Claim [''k''] 1] = db'" using t by (simp add: demo_run_def)
  have s: "map_option state (row_get ?db demo_job) = Some Pending" by code_simp
  have s': "map_option state (row_get (demo_run [Enqueue [demo_spec ''a''], Claim [''k''] 1]) demo_job) = Some Running"
    by code_simp
  have "db_ok ?db" by (rule demo_run_ok) simp
  moreover have "env_ok (demo_env ''j'') demo_scope (Claim [''k''] 1) ?db" by (simp add: env_ok_def demo_restored)
  ultimately have "\<forall>j r. row_get ?db j = Some r \<longrightarrow> (\<exists>r'. row_get db' j = Some r' \<and> jf r r')"
    using job_life_cycle [OF _ _ t] by blast
  with s s' db' show ?thesis by fastforce
qed


section \<open>Enqueue\<close>

lemma by_key_iff:
  assumes "db_idx db"
  shows "by_key db sc k = Some r \<longleftrightarrow> row_get db (job_id r) = Some r \<and> scope_of (job_id r) = sc \<and> key r = k"
proof
  assume "by_key db sc k = Some r"
  then have "r \<in> set (jobs db) \<and> scope_of (job_id r) = sc \<and> key r = k"
    by (auto simp: by_key_def find_Some_iff)
  then show "row_get db (job_id r) = Some r \<and> scope_of (job_id r) = sc \<and> key r = k"
    using row_get_in [OF assms] by blast
next
  assume r: "row_get db (job_id r) = Some r \<and> scope_of (job_id r) = sc \<and> key r = k"
  then have m: "r \<in> set (jobs db)" using row_get_in [OF assms] by blast
  then obtain x where x: "by_key db sc k = Some x"
    using r by (cases "by_key db sc k") (auto simp: by_key_def find_None_iff)
  then have x': "x \<in> set (jobs db)" "scope_of (job_id x) = sc" "key x = k"
    by (auto simp: by_key_def find_Some_iff)
  have "job_id x = job_id r" using idx_key [OF assms x'(1) m] x' r by simp
  then have "row_get db (job_id r) = Some x" using x'(1) row_get_in [OF assms, of "job_id r" x] by simp
  with conjunct1 [OF r] x show "by_key db sc k = Some r" by simp
qed

definition has_key :: "env \<Rightarrow> JobScope \<Rightarrow> jobs_db \<Rightarrow> JobSpec \<Rightarrow> bool" where
  "has_key e sc db sp \<longleftrightarrow>
     (\<exists>r. by_key db sc (sp_key sp) = Some r \<and> digest r = sha256_hex (cod e) (sp_payload sp))"

lemma has_key_ev:
  assumes idx: "db_idx db" "db_idx db'" and h: "has_key e sc db sp"
    and ev: "\<And>j r. row_get db j = Some r \<Longrightarrow> \<exists>r'. row_get db' j = Some r' \<and> jf r r'"
  shows "has_key e sc db' sp"
proof -
  from h obtain r where b: "by_key db sc (sp_key sp) = Some r" and r4: "digest r = sha256_hex (cod e) (sp_payload sp)"
    unfolding has_key_def by (elim exE conjE)
  have r: "row_get db (job_id r) = Some r" "scope_of (job_id r) = sc" "key r = sp_key sp"
    using iffD1 [OF by_key_iff [OF idx(1)] b] by auto
  from ev [OF r(1)] obtain r' where r': "row_get db' (job_id r) = Some r'" "jf r r'" by blast
  then have "job_id r' = job_id r" "key r' = key r" "digest r' = digest r" by (simp_all add: jf_def)
  then have "row_get db' (job_id r') = Some r' \<and> scope_of (job_id r') = sc \<and> key r' = sp_key sp"
    using r(2,3) r'(1) by simp
  with by_key_iff [OF idx(2)] have "by_key db' sc (sp_key sp) = Some r'" by blast
  with \<open>digest r' = digest r\<close> r4 show ?thesis unfolding has_key_def by simp
qed

lemma steps_ev: "steps sc db db' \<Longrightarrow> row_get db j = Some r \<Longrightarrow> \<exists>r'. row_get db' j = Some r' \<and> jf r r'"
  by (rule moves_ev [OF steps_moves])

lemma enqueue_loop_keys:
  assumes "db_ok db" "fresh_ids e sc n db" "enqueue_loop e cfg sc now n sps db = Inr (outs, db')" "sp \<in> set sps"
  shows "has_key e sc db' sp \<and> sp_key sp \<noteq> [] \<and> sp_kind sp \<noteq> [] \<and> sp_max_attempts sp \<noteq> 0 \<and>
    (\<exists>t. optional_time e (sp_recovery_until sp) = Inr t)"
  using assms
proof (induction sps arbitrary: n db outs)
  case (Cons x xs)
  from Cons.prems(3) obtain until where v: "sp_key x \<noteq> []" "sp_kind x \<noteq> []" "sp_max_attempts x \<noteq> 0"
    "optional_time e (sp_recovery_until x) = Inr until"
    by (auto simp: and_then_Inr split: if_splits)
  show ?case
  proof (cases "by_key db sc (sp_key x)")
    case (Some r)
    with Cons.prems(3) v obtain outs' where rest: "enqueue_loop e cfg sc now n xs db = Inr (outs', db')"
      and dg: "digest r = sha256_hex (cod e) (sp_payload x)"
      by (auto simp: and_then_Inr split: if_splits)
    note st = conjunct1 [OF enqueue_loop_moves [OF Cons.prems(1,2) rest]]
    have "has_key e sc db x" using Some dg by (simp add: has_key_def)
    then have "has_key e sc db' x"
      by (rule has_key_ev [OF db_okD(1) [OF Cons.prems(1)] db_okD(1) [OF moves_ok [OF st]]]) (rule moves_ev [OF st])
    with v Cons.IH [OF Cons.prems(1,2) rest] Cons.prems(4) show ?thesis by auto
  next
    case None
    with Cons.prems(3) v obtain db1 outs' where
      i: "insert_job e cfg (new_job e sc (new_id e n) now until x) db = Inr db1"
      and rest: "enqueue_loop e cfg sc now (Suc n) xs db1 = Inr (outs', db')"
      by (auto simp: and_then_Inr Let_def split: if_splits)
    from insert_job_moves [OF Cons.prems(1,2) v(3) i] obtain r' where ok1: "db_ok db1" and f1: "fresh_ids e sc (Suc n) db1"
      and q: "requant (new_job e sc (new_id e n) now until x) r'"
      and g: "row_get db1 \<lparr>scope_of = sc, ident = new_id e n\<rparr> = Some r'" by auto
    note st = conjunct1 [OF enqueue_loop_moves [OF ok1 f1 rest]]
    have "by_key db1 sc (sp_key x) = Some r'"
      using g by (subst by_key_iff [OF db_okD(1) [OF ok1]]) (simp add: requant_simps [OF q] new_job_def)
    then have "has_key e sc db1 x" by (simp add: has_key_def requant_simps [OF q] new_job_def)
    then have "has_key e sc db' x"
      by (rule has_key_ev [OF db_okD(1) [OF ok1] db_okD(1) [OF moves_ok [OF st]]]) (rule moves_ev [OF st])
    with v Cons.IH [OF ok1 f1 rest] Cons.prems(4) show ?thesis by auto
  qed
qed simp

lemma enqueue_loop_replay:
  assumes "\<forall>sp \<in> set sps. has_key e sc db sp \<and> sp_key sp \<noteq> [] \<and> sp_kind sp \<noteq> [] \<and> sp_max_attempts sp \<noteq> 0 \<and>
    (\<exists>t. optional_time e (sp_recovery_until sp) = Inr t)"
  shows "\<exists>outs. enqueue_loop e cfg sc now n sps db = Inr (outs, db) \<and> length outs = length sps \<and>
    (\<forall>x \<in> set outs. \<forall>j. x \<noteq> Inserted j)"
  using assms
proof (induction sps)
  case (Cons sp sps)
  then obtain r t outs where "by_key db sc (sp_key sp) = Some r" "digest r = sha256_hex (cod e) (sp_payload sp)"
    "optional_time e (sp_recovery_until sp) = Inr t"
    "enqueue_loop e cfg sc now n sps db = Inr (outs, db)" "length outs = length sps" "\<forall>x \<in> set outs. \<forall>j. x \<noteq> Inserted j"
    unfolding has_key_def by auto
  with Cons.prems show ?case by simp
qed simp

text \<open>
  C10. A batch that was enqueued is remembered for good. In every state the store can reach
  afterwards, also when the jobs are finished or confirmed, the same batch inserts nothing and
  changes nothing, and a specification that reuses one of its keys for a payload with another
  digest is refused with a key conflict.
\<close>

theorem enqueue_is_replayable:
  assumes "db_ok db" and "fresh_ids e sc 0 db" and "do_enqueue e cfg sc now sps db = Inr (resp, db1)"
    and "job_step\<^sup>*\<^sup>* db1 db2"
  shows "(\<exists>outs. do_enqueue e cfg sc now' sps db2 = Inr (Resp_Enqueued outs, db2) \<and> length outs = length sps \<and>
      (\<forall>x \<in> set outs. \<forall>j. x \<noteq> Inserted j)) \<and>
    (\<forall>sp \<in> set sps. \<forall>other. sp_key other = sp_key sp \<and> sp_kind other \<noteq> [] \<and> sp_max_attempts other \<noteq> 0 \<and>
       sp_recovery_until other = None \<and> sha256_hex (cod e) (sp_payload other) \<noteq> sha256_hex (cod e) (sp_payload sp) \<and>
       1 \<le> max_batch cfg \<longrightarrow> do_enqueue e cfg sc now' [other] db2 = Inl KeyConflict)"
proof -
  from assms(3) obtain outs where l: "enqueue_loop e cfg sc now 0 sps db = Inr (outs, db1)" and b: "length sps \<le> max_batch cfg"
    by (auto simp: do_enqueue_def and_then_Inr)
  have ok1: "db_ok db1" by (rule moves_ok [OF conjunct1 [OF enqueue_loop_moves [OF assms(1,2) l]]])
  have ok2: "db_ok db2" by (rule js.run_ok [OF assms(4) ok1])
  have k: "\<forall>sp \<in> set sps. has_key e sc db2 sp \<and> sp_key sp \<noteq> [] \<and> sp_kind sp \<noteq> [] \<and> sp_max_attempts sp \<noteq> 0 \<and>
    (\<exists>t. optional_time e (sp_recovery_until sp) = Inr t)"
    using enqueue_loop_keys [OF assms(1,2) l] has_key_ev [OF db_okD(1) [OF ok1] db_okD(1) [OF ok2]]
      js.run_ev [OF assms(4) ok1] by blast
  from enqueue_loop_replay [OF k, of cfg now' 0] obtain outs' where
    "enqueue_loop e cfg sc now' 0 sps db2 = Inr (outs', db2)" "length outs' = length sps"
    "\<forall>x \<in> set outs'. \<forall>j. x \<noteq> Inserted j" by blast
  then have "\<exists>outs. do_enqueue e cfg sc now' sps db2 = Inr (Resp_Enqueued outs, db2) \<and> length outs = length sps \<and>
      (\<forall>x \<in> set outs. \<forall>j. x \<noteq> Inserted j)"
    using b by (simp add: do_enqueue_def ensure_def)
  moreover have "do_enqueue e cfg sc now' [other] db2 = Inl KeyConflict"
    if "sp \<in> set sps" and o: "sp_key other = sp_key sp \<and> sp_kind other \<noteq> [] \<and> sp_max_attempts other \<noteq> 0 \<and>
       sp_recovery_until other = None \<and> sha256_hex (cod e) (sp_payload other) \<noteq> sha256_hex (cod e) (sp_payload sp) \<and>
       1 \<le> max_batch cfg" for sp other
  proof -
    from k that(1) obtain r where "by_key db2 sc (sp_key sp) = Some r" "digest r = sha256_hex (cod e) (sp_payload sp)"
      and "sp_key sp \<noteq> []" unfolding has_key_def by blast
    with o show ?thesis by (auto simp: do_enqueue_def ensure_def optional_time_def)
  qed
  ultimately show ?thesis by blast
qed

theorem enqueue_is_replayable_witness:
  "\<exists>db1 outs. do_enqueue (demo_env ''j'') JobConfig_default demo_scope 100 [demo_spec ''a'', demo_spec ''b''] empty_db =
      Inr (Resp_Enqueued [Inserted \<lparr>scope_of = demo_scope, ident = ''j''\<rparr>, Inserted \<lparr>scope_of = demo_scope, ident = ''ja''\<rparr>], db1) \<and>
    do_enqueue (demo_env ''j'') JobConfig_default demo_scope 200 [demo_spec ''a'', demo_spec ''b''] db1 =
      Inr (Resp_Enqueued outs, db1) \<and> length outs = 2 \<and>
    do_enqueue (demo_env ''j'') JobConfig_default demo_scope 200 [(demo_spec ''a'')\<lparr>sp_payload := [0]\<rparr>] db1 = Inl KeyConflict"
proof -
  obtain db1 where d: "do_enqueue (demo_env ''j'') JobConfig_default demo_scope 100 [demo_spec ''a'', demo_spec ''b''] empty_db =
      Inr (Resp_Enqueued [Inserted \<lparr>scope_of = demo_scope, ident = ''j''\<rparr>, Inserted \<lparr>scope_of = demo_scope, ident = ''ja''\<rparr>], db1)"
  proof -
    have "map_sum id fst (do_enqueue (demo_env ''j'') JobConfig_default demo_scope 100 [demo_spec ''a'', demo_spec ''b''] empty_db) =
      Inr (Resp_Enqueued [Inserted \<lparr>scope_of = demo_scope, ident = ''j''\<rparr>, Inserted \<lparr>scope_of = demo_scope, ident = ''ja''\<rparr>])"
      by code_simp
    then show ?thesis
      using that by (cases "do_enqueue (demo_env ''j'') JobConfig_default demo_scope 100 [demo_spec ''a'', demo_spec ''b''] empty_db")
        (auto simp: prod_eq_iff)
  qed
  note T = enqueue_is_replayable [OF empty_db_ok demo_fresh d rtranclp.rtrancl_refl, of 200]
  have "sha256_hex (cod (demo_env ''j'')) [0] \<noteq> sha256_hex (cod (demo_env ''j'')) [1, 0]"
    by (simp add: demo_env_def demo_codec_def)
  with T have "do_enqueue (demo_env ''j'') JobConfig_default demo_scope 200 [(demo_spec ''a'')\<lparr>sp_payload := [0]\<rparr>] db1 = Inl KeyConflict"
    by (simp add: demo_spec_def JobConfig_default_def)
  with T d show ?thesis by auto
qed


lemma save_new_jobs:
  assumes "row_get db (job_id r) = None" and "save e r db = Inr db'"
  shows "\<exists>r'. stored e r = Inr r' \<and> jobs db' = jobs db @ [r']"
proof -
  from assms(2) obtain r' db1 where r': "stored e r = Inr r'" and up: "upsert r' db = Inr db1" and db': "db' = synced r db db1"
    by (auto simp: save_alt and_then_Inr)
  have "\<not> list_ex (\<lambda>x. job_id x = job_id r') (jobs db)"
    using assms(1) stored_ids(1) [OF r'] by (simp add: row_get_None list_ex_iff)
  then have "jobs db1 = jobs db @ [r']" using up by (auto simp: upsert_def split: if_splits)
  then have "jobs db' = jobs db @ [r']" by (simp add: db' synced_def)
  with r' show ?thesis by blast
qed

lemma insert_job_counts:
  assumes f: "fresh_ids e sc n db" and eq: "\<And>x. sql_json_input (cod e) x = json_input (cod e) x"
    and ij: "insert_job e cfg (new_job e sc (new_id e n) now until sp) db = Inr db'"
  shows "live_count sc db' \<le> max_live_jobs cfg \<and> pu_bytes (usage e sc db') \<le> max_pending_bytes cfg"
proof -
  let ?r = "new_job e sc (new_id e n) now until sp"
  have id: "scope_of (job_id ?r) = sc" "state ?r = Pending" by (simp_all add: new_job_def)
  have new: "row_get db (job_id ?r) = None" using f by (simp add: fresh_ids_def new_job_def)
  from ij obtain own total where lc: "live_count sc db < max_live_jobs cfg"
    and own: "job_input_bytes (cod e) ?r = Inr own"
    and tot: "pu_bytes (usage e sc db) + own \<le> max_pending_bytes cfg" and sv: "save e ?r db = Inr db'"
    by (auto simp: insert_job_def and_then_Inr checked_sum_Inr id split: if_splits)
  from save_new_jobs [OF new sv] obtain r' where st: "stored e ?r = Inr r'" and js: "jobs db' = jobs db @ [r']" by blast
  have q: "requant ?r r'" using stored_cases [OF st] id by simp
  have "own = json_input (cod e) (input_fields ?r) + len (payload ?r) + len (admission ?r)"
    using own id by (auto simp: job_input_bytes_def and_then_Inr encoded_bytes_Inr checked_sum_Inr)
  then have "sql_input_bytes e r' = own"
    by (simp add: sql_input_bytes_def eq input_fields_def requant_simps [OF q])
  then have "pu_bytes (usage e sc db') = pu_bytes (usage e sc db) + own"
    by (simp add: usage_def Let_def js requant_simps [OF q] id)
  moreover have "live_count sc db' = Suc (live_count sc db)"
    by (simp add: live_count_def js requant_simps [OF q] id)
  ultimately show ?thesis using lc tot by simp
qed

lemma enqueue_loop_capacity:
  assumes "db_ok db" "fresh_ids e sc n db" "\<And>x. sql_json_input (cod e) x = json_input (cod e) x"
    "enqueue_loop e cfg sc now n sps db = Inr (outs, db')"
  shows "live_count sc db' \<le> max (live_count sc db) (max_live_jobs cfg) \<and>
    pu_bytes (usage e sc db') \<le> max (pu_bytes (usage e sc db)) (max_pending_bytes cfg)"
  using assms
proof (induction sps arbitrary: n db outs)
  case (Cons sp sps)
  show ?case
  proof (cases "by_key db sc (sp_key sp)")
    case (Some r)
    with Cons.prems(4) obtain outs' where "enqueue_loop e cfg sc now n sps db = Inr (outs', db')"
      by (auto simp: and_then_Inr split: if_splits)
    with Cons.IH Cons.prems(1-3) show ?thesis by blast
  next
    case None
    from Cons.prems(4) have a: "sp_max_attempts sp \<noteq> 0" by (auto split: if_splits)
    from None Cons.prems(4) obtain until db1 outs' where
      i: "insert_job e cfg (new_job e sc (new_id e n) now until sp) db = Inr db1"
      and rest: "enqueue_loop e cfg sc now (Suc n) sps db1 = Inr (outs', db')"
      by (auto simp: and_then_Inr Let_def split: if_splits)
    from insert_job_moves [OF Cons.prems(1,2) a i] have "db_ok db1" "fresh_ids e sc (Suc n) db1" by blast+
    from Cons.IH [OF this Cons.prems(3) rest] insert_job_counts [OF Cons.prems(2,3) i] show ?thesis by linarith
  qed
qed simp

lemma live_count_alt:
  "live_count sc db = length (filter (\<lambda>r. scope_of (job_id r) = sc \<and> state r \<noteq> Accepted \<and> state r \<noteq> Discarded) (jobs db))"
proof -
  have "(length (filter (\<lambda>r. scope_of (job_id r) = sc \<and> unfinished (state r)) rs) +
      length (filter (\<lambda>r. scope_of (job_id r) = sc \<and> delivery_state (state r)) rs)) =
      length (filter (\<lambda>r. scope_of (job_id r) = sc \<and> state r \<noteq> Accepted \<and> state r \<noteq> Discarded) rs)" for rs
  proof (induction rs)
    case (Cons r rs)
    then show ?case by (cases "state r") auto
  qed simp
  then show ?thesis by (simp add: live_count_def)
qed

lemma pending_bytes_alt:
  "pu_bytes (usage e sc db) = sum_list (map (sql_input_bytes e)
     (filter (\<lambda>r. scope_of (job_id r) = sc \<and> state r \<in> {Pending, AwaitingAdmission, Running, Uncertain}) (jobs db)))"
proof -
  have "unfinished st \<longleftrightarrow> st \<in> {Pending, AwaitingAdmission, Running, Uncertain}" for st
    by (cases st) auto
  then show ?thesis by (simp add: usage_def Let_def)
qed

text \<open>
  C27. Admission is bounded. When SQLite measures the canonical input of a row like the encoder does,
  a successful enqueue leaves no more live jobs (all but the confirmed ones) in the scope than the
  configured ceiling, and no more retained input bytes of unfinished jobs than the configured
  allowance, or than there were before, if that was more.
\<close>

theorem enqueue_respects_capacity:
  assumes "db_ok db" and "fresh_ids e sc 0 db" and "\<And>x. sql_json_input (cod e) x = json_input (cod e) x"
    and "do_enqueue e cfg sc now sps db = Inr (resp, db')"
  shows "length (filter (\<lambda>r. scope_of (job_id r) = sc \<and> state r \<noteq> Accepted \<and> state r \<noteq> Discarded) (jobs db'))
      \<le> max (length (filter (\<lambda>r. scope_of (job_id r) = sc \<and> state r \<noteq> Accepted \<and> state r \<noteq> Discarded) (jobs db)))
            (max_live_jobs cfg) \<and>
    sum_list (map (sql_input_bytes e) (filter (\<lambda>r. scope_of (job_id r) = sc \<and>
        state r \<in> {Pending, AwaitingAdmission, Running, Uncertain}) (jobs db')))
      \<le> max (sum_list (map (sql_input_bytes e) (filter (\<lambda>r. scope_of (job_id r) = sc \<and>
               state r \<in> {Pending, AwaitingAdmission, Running, Uncertain}) (jobs db))))
            (max_pending_bytes cfg)"
  unfolding live_count_alt [symmetric] pending_bytes_alt [symmetric]
  using assms(4) enqueue_loop_capacity [OF assms(1-3)] by (auto simp: do_enqueue_def and_then_Inr)

theorem enqueue_respects_capacity_witness:
  "\<exists>resp db'. do_enqueue (demo_env ''j'') JobConfig_default demo_scope 100 [demo_spec ''a'', demo_spec ''b''] empty_db = Inr (resp, db') \<and>
    live_count demo_scope db' \<le> 1024 \<and> live_count demo_scope db' = 2 \<and> pu_bytes (usage (demo_env ''j'') demo_scope db') = 104"
proof -
  let ?o = "do_enqueue (demo_env ''j'') JobConfig_default demo_scope 100 [demo_spec ''a'', demo_spec ''b''] empty_db"
  have c: "(case ?o of Inl _ \<Rightarrow> False | Inr (resp, db') \<Rightarrow> live_count demo_scope db' = 2 \<and>
      pu_bytes (usage (demo_env ''j'') demo_scope db') = 104)" by code_simp
  then obtain resp db' where d: "?o = Inr (resp, db')" by (auto split: sum.splits)
  have "sql_json_input (cod (demo_env ''j'')) x = json_input (cod (demo_env ''j'')) x" for x
    by (simp add: demo_env_def demo_codec_def)
  from enqueue_respects_capacity [OF empty_db_ok demo_fresh this d, folded live_count_alt pending_bytes_alt] c d
  show ?thesis by (simp add: JobConfig_default_def live_count_def empty_db_def)
qed

section \<open>Claims\<close>

lemma claim_none_while_leased:
  assumes "row_get db j = Some r" "scope_of j = sc" "state r = Running" "lease_until r = Some l" "now < l"
  shows "do_claim_job e cfg sc now j db = Inr (Resp_Job None, db)"
  using assms by (simp add: do_claim_job_def get_Inr [THEN iffD2] claim_job_def claimable_def)

definition grantable :: "JobRecord \<Rightarrow> time \<Rightarrow> bool" where
  "grantable r now \<longleftrightarrow> claimable r now \<and> \<not> cancel_requested r \<and> generation r < max_attempts r"

lemma claim_job_grants:
  assumes "db_ok db" "row_get db (job_id r) = Some r" "claim_job e cfg now r db = Inr (got, db')" "grantable r now"
  shows "got \<noteq> None"
  using assms(3,4) by (auto simp: claim_job_def grantable_def and_then_Inr Let_def split: if_splits)

lemma claim_loop_first:
  assumes "db_ok db" "fresh sc db rs" "claim_loop e cfg now rs db = Inr (Some r1, db')"
  shows "\<exists>r pre post db0. rs = pre @ r # post \<and> (\<forall>x \<in> set pre. \<not> grantable x now) \<and> grantable r now \<and>
    db_ok db0 \<and> row_get db0 (job_id r) = Some r \<and> claim_job e cfg now r db0 = Inr (Some r1, db')"
  using assms
proof (induction rs arbitrary: db)
  case (Cons r rs)
  then obtain g db1 where c: "claim_job e cfg now r db = Inr (g, db1)"
    and rest: "(case g of Some r1 \<Rightarrow> Inr (Some r1, db1) | None \<Rightarrow> claim_loop e cfg now rs db1) = Inr (Some r1, db')"
    by (auto simp: and_then_Inr)
  have f: "row_get db (job_id r) = Some r" "scope_of (job_id r) = sc" "job_id r \<notin> job_id ` set rs" "fresh sc db rs"
    using Cons.prems(2) by (simp_all add: fresh_Cons)
  note s = claim_job_steps [OF Cons.prems(1) f(1,2) c]
  show ?case
  proof (cases g)
    case None
    then have ng: "\<not> grantable r now" using claim_job_grants [OF Cons.prems(1) f(1) c] by blast
    have "fresh sc db1 rs" by (rule fresh_other [OF f(4,3)]) (use s in blast)
    moreover have "claim_loop e cfg now rs db1 = Inr (Some r1, db')" using rest None by simp
    ultimately obtain y pre post db0 where "rs = pre @ y # post" "\<forall>x \<in> set pre. \<not> grantable x now" "grantable y now"
      "db_ok db0" "row_get db0 (job_id y) = Some y" "claim_job e cfg now y db0 = Inr (Some r1, db')"
      using Cons.IH [of db1] s by blast
    with ng show ?thesis by (intro exI [of _ y] exI [of _ "r # pre"] exI [of _ post] exI [of _ db0]) simp
  next
    case (Some x)
    then have "x = r1" "db1 = db'" using rest by auto
    with s Some c Cons.prems(1) f(1) show ?thesis
      by (intro exI [of _ r] exI [of _ "[]"] exI [of _ rs] exI [of _ db]) (auto simp: grantable_def)
  qed
qed simp


lemma sorted_first:
  assumes "take n (sort_key f xs) = pre @ y # post" and "x \<in> set xs" and "x \<notin> set pre"
  shows "f y \<le> f x"
proof -
  have s: "sort_key f xs = pre @ y # (post @ drop n (sort_key f xs))"
    using assms(1) append_take_drop_id [of n "sort_key f xs"] by simp
  have "x \<in> set (pre @ y # (post @ drop n (sort_key f xs)))"
    using assms(2) by (metis s set_sort)
  then have m: "x = y \<or> x \<in> set (post @ drop n (sort_key f xs))" using assms(3) by auto
  have "sorted (map f (pre @ y # (post @ drop n (sort_key f xs))))"
    using sorted_sort_key [of f xs] s by metis
  then have "\<forall>z \<in> set (post @ drop n (sort_key f xs)). f y \<le> f z" by (simp add: sorted_append) blast
  with m show ?thesis by blast
qed

lemma pending_row:
  assumes "mono (timestamp_millis (chr e))" and "claimable x now" and "kind x \<in> set kinds"
  shows "query_filter e (Q_Pending kinds) now db x"
  using assms monoD [OF assms(1)] by (auto simp: claimable_def sql_due_def split: option.splits)

lemma pending_order:
  "query_order e (Q_Pending kinds) r \<le> query_order e (Q_Pending kinds) x \<longleftrightarrow>
     timestamp_millis (chr e) (created_at r) < timestamp_millis (chr e) (created_at x) \<or>
     timestamp_millis (chr e) (created_at r) = timestamp_millis (chr e) (created_at x) \<and>
       ident (job_id r) \<le> ident (job_id x)"
  by (auto simp: millis_def less_eq_prod_def)

text \<open>
  C28. A claim is first in, first out. The job it returns belongs to the scope and to one of the
  requested kinds; it was pending, or a running handler job whose lease had ended; it has no
  cancellation pending and an attempt left; and it is now running under the next generation with a
  fresh lease. Every other job of the scope and the kinds that could have been granted at that
  instant is later in the order of (creation instant in milliseconds, identity), whatever the page
  size. The one assumption is that a later instant has no smaller millisecond timestamp.
\<close>

theorem claim_takes_oldest:
  assumes "db_ok db" and "do_claim e cfg sc now kinds slots db = Inr (Resp_Job (Some r1), db')"
    and "mono (timestamp_millis (chr e))"
  shows "\<exists>r until. row_get db (job_id r) = Some r \<and> scope_of (job_id r) = sc \<and> kind r \<in> set kinds \<and>
    (state r = Pending \<or> state r = Running \<and> execution r = Handler \<and> (\<exists>l. lease_until r = Some l \<and> l \<le> now)) \<and>
    \<not> cancel_requested r \<and> generation r < max_attempts r \<and>
    deadline e now (claim_lease_seconds cfg) = Inr until \<and>
    r1 = r\<lparr>state := Running, generation := generation r + 1, lease_until := Some until\<rparr> \<and>
    (\<forall>x. row_get db (job_id x) = Some x \<and> scope_of (job_id x) = sc \<and> kind x \<in> set kinds \<and>
       (state x = Pending \<or> state x = Running \<and> execution x = Handler \<and> (\<exists>l. lease_until x = Some l \<and> l \<le> now)) \<and>
       \<not> cancel_requested x \<and> generation x < max_attempts x \<longrightarrow>
       timestamp_millis (chr e) (created_at r) < timestamp_millis (chr e) (created_at x) \<or>
       timestamp_millis (chr e) (created_at r) = timestamp_millis (chr e) (created_at x) \<and>
         ident (job_id r) \<le> ident (job_id x))"
proof -
  note idx = db_okD(1) [OF assms(1)]
  from assms(2) obtain rs where sel: "select_rows e sc (Q_Pending kinds) now (max_page cfg) db = Inr rs"
    and cl: "claim_loop e cfg now rs db = Inr (Some r1, db')"
    by (auto simp: do_claim_def and_then_Inr split: if_splits)
  note fr = select_rows_fresh [OF idx sel]
  from claim_loop_first [OF assms(1) fr cl] obtain r pre post db0 where
    rs: "rs = pre @ r # post" and pre: "\<forall>x \<in> set pre. \<not> grantable x now" and g: "grantable r now"
    and db0: "db_ok db0" "row_get db0 (job_id r) = Some r" "claim_job e cfg now r db0 = Inr (Some r1, db')" by blast
  have m: "r \<in> set rs" by (simp add: rs)
  have r: "row_get db (job_id r) = Some r" "scope_of (job_id r) = sc" "kind r \<in> set kinds"
    using select_rows_mem [OF sel m] row_get_in [OF idx, of "job_id r" r] by auto
  from claim_job_steps [OF db0(1,2) refl db0(3)] obtain until where u: "deadline e now (claim_lease_seconds cfg) = Inr until"
    "r1 = claimed until r" by blast
  have gr: "grantable x now \<longleftrightarrow> (state x = Pending \<or> state x = Running \<and> execution x = Handler \<and>
      (\<exists>l. lease_until x = Some l \<and> l \<le> now)) \<and> \<not> cancel_requested x \<and> generation x < max_attempts x" for x
    by (auto simp: grantable_def claimable_def split: option.splits)
  have "query_order e (Q_Pending kinds) r \<le> query_order e (Q_Pending kinds) x"
    if x: "row_get db (job_id x) = Some x" "scope_of (job_id x) = sc" "kind x \<in> set kinds" "grantable x now" for x
  proof -
    have "take (max_page cfg) (sort_key (query_order e (Q_Pending kinds))
        (filter (\<lambda>r. scope_of (job_id r) = sc \<and> query_filter e (Q_Pending kinds) now db r) (jobs db))) = pre @ r # post"
      using sel rs by (simp add: select_rows_def and_then_Inr)
    moreover have "x \<in> set (filter (\<lambda>r. scope_of (job_id r) = sc \<and> query_filter e (Q_Pending kinds) now db r) (jobs db))"
      using x pending_row [OF assms(3), of x now kinds db] row_get_in [OF idx, of "job_id x" x]
      by (simp add: grantable_def del: query_filter.simps)
    moreover have "x \<notin> set pre" using x pre by blast
    ultimately show ?thesis by (rule sorted_first)
  qed
  then have "\<forall>x. row_get db (job_id x) = Some x \<and> scope_of (job_id x) = sc \<and> kind x \<in> set kinds \<and> grantable x now \<longrightarrow>
      query_order e (Q_Pending kinds) r \<le> query_order e (Q_Pending kinds) x" by blast
  then show ?thesis
    using r g u unfolding pending_order gr by (intro exI [of _ r] exI [of _ until]) (auto simp: claimed_def)
qed

text \<open>Two jobs of one batch are created at the same instant; the earlier identity is taken.\<close>

theorem claim_takes_oldest_witness:
  "\<exists>r1 db'. do_claim (demo_env ''j'') JobConfig_default demo_scope 105 [''k''] 1
       (demo_run [Enqueue [demo_spec ''b'', demo_spec ''a'']]) = Inr (Resp_Job (Some r1), db') \<and>
     key r1 = ''b'' \<and> generation r1 = 1 \<and> generation r1 \<le> max_attempts r1"
proof -
  let ?o = "do_claim (demo_env ''j'') JobConfig_default demo_scope 105 [''k''] 1 (demo_run [Enqueue [demo_spec ''b'', demo_spec ''a'']])"
  have c: "(case ?o of Inr (Resp_Job (Some r), _) \<Rightarrow> key r = ''b'' \<and> generation r = 1 | _ \<Rightarrow> False)" by code_simp
  then obtain r1 db' where d: "?o = Inr (Resp_Job (Some r1), db')"
    by (auto split: sum.splits JobResponse.splits option.splits)
  have "db_ok (demo_run [Enqueue [demo_spec ''b'', demo_spec ''a'']])" by (rule demo_run_ok) simp
  moreover have "mono (timestamp_millis (chr (demo_env ''j'')))"
    by (simp add: demo_env_def plain_clock_def mono_def)
  ultimately show ?thesis using claim_takes_oldest [OF _ d] c d by fastforce
qed

lemma not_running_stale:
  assumes "db_ok db" "row_get db j = Some r" "scope_of j = sc"
    "state r \<noteq> Running \<or> generation r \<noteq> gen \<or> (\<exists>l. lease_until r = Some l \<and> l \<le> now)"
  shows "do_heartbeat e cfg sc now j gen db = Inl StaleClaim \<and>
    isl (do_complete e cfg sc now j gen st og out rc diag db)"
  using assms by (auto simp: do_heartbeat_def scoped_def ensure_def row_metadata_def live_def do_complete_def get_Inr [THEN iffD2])

text \<open>
  C6. A claim is exclusive and fences earlier owners. While the lease written by a successful claim
  lasts, nobody can claim the job; and whoever held an earlier generation can, in every later
  state of the store, neither extend the lease nor complete the job.
\<close>

theorem job_claim_is_exclusive:
  assumes "db_ok db" and "do_claim_job e cfg sc now j db = Inr (Resp_Job (Some r1), db1)"
  shows "\<exists>r r' l. row_get db j = Some r \<and> grantable r now \<and> generation r1 = Suc (generation r) \<and>
    row_get db1 j = Some r' \<and> state r' = Running \<and> generation r' = generation r1 \<and> lease_until r' = Some l \<and>
    (\<forall>e' cfg' now'. now' < l \<longrightarrow> do_claim_job e' cfg' sc now' j db1 = Inr (Resp_Job None, db1)) \<and>
    (\<forall>db2 gen. job_step\<^sup>*\<^sup>* db1 db2 \<and> gen \<le> generation r \<longrightarrow>
       (\<forall>e' cfg' now' st og out rc diag. do_heartbeat e' cfg' sc now' j gen db2 = Inl StaleClaim \<and>
          isl (do_complete e' cfg' sc now' j gen st og out rc diag db2)))"
proof -
  from assms(2) obtain r where g: "get sc j db = Inr r" and c: "claim_job e cfg now r db = Inr (Some r1, db1)"
    by (auto simp: do_claim_job_def and_then_Inr)
  note r = get_self [OF g]
  from claim_job_steps [OF assms(1) r(1,2) c] obtain until r' where ok1: "db_ok db1"
    and gr: "claimable r now" "\<not> cancel_requested r" "generation r < max_attempts r"
    and r1: "r1 = claimed until r" and q: "requant r1 r'" and g1: "row_get db1 j = Some r'"
    unfolding r(3) by blast
  have run: "state r' = Running" "generation r' = Suc (generation r)"
    by (simp_all add: requant_simps [OF q] r1 claimed_def)
  obtain l where l: "lease_until r' = Some l"
    using requant_simps(22) [OF q] by (cases "lease_until r'") (simp_all add: r1 claimed_def)
  have sc: "scope_of j = sc" using r by simp
  have "do_heartbeat e' cfg' sc now' j gen db2 = Inl StaleClaim \<and> isl (do_complete e' cfg' sc now' j gen st og out rc diag db2)"
    if run2: "job_step\<^sup>*\<^sup>* db1 db2" and le: "gen \<le> generation r" for db2 gen e' cfg' now' st og out rc diag
  proof -
    from js.run_ev [OF run2 ok1 g1] obtain r2 where g2: "row_get db2 j = Some r2" and ev: "jf r' r2" by blast
    have "state r2 \<noteq> Running \<or> generation r2 \<noteq> gen"
    proof (cases "acked (state r2)")
      case False
      then have "generation r' \<le> generation r2" using ev by (simp add: jf_def jkeep_def)
      with le run show ?thesis by simp
    qed auto
    with not_running_stale [OF js.run_ok [OF run2 ok1] g2 sc] show ?thesis by blast
  qed
  moreover have "do_claim_job e' cfg' sc now' j db1 = Inr (Resp_Job None, db1)" if "now' < l" for e' cfg' now'
    by (rule claim_none_while_leased [OF g1 sc run(1) l that])
  moreover have "row_get db j = Some r" using r by simp
  ultimately show ?thesis using g1 run l gr by (auto simp: grantable_def r1 claimed_def)
qed


theorem job_claim_is_exclusive_witness:
  "\<exists>r1 db1. do_claim_job (demo_env ''j'') JobConfig_default demo_scope 105 demo_job
       (demo_run [Enqueue [demo_spec ''a'']]) = Inr (Resp_Job (Some r1), db1) \<and> generation r1 = 1 \<and>
     do_heartbeat (demo_env ''j'') JobConfig_default demo_scope 106 demo_job 0 db1 = Inl StaleClaim"
proof -
  let ?db = "demo_run [Enqueue [demo_spec ''a'']]"
  let ?o = "do_claim_job (demo_env ''j'') JobConfig_default demo_scope 105 demo_job ?db"
  have c: "(case ?o of Inr (Resp_Job (Some r), _) \<Rightarrow> generation r = 1 | _ \<Rightarrow> False)" by code_simp
  then obtain r1 db1 where d: "?o = Inr (Resp_Job (Some r1), db1)"
    by (auto split: sum.splits JobResponse.splits option.splits)
  have "db_ok ?db" by (rule demo_run_ok) simp
  from job_claim_is_exclusive [OF this d] obtain r :: JobRecord where
    "\<forall>db2 gen. job_step\<^sup>*\<^sup>* db1 db2 \<and> gen \<le> generation r \<longrightarrow>
       (\<forall>e' cfg' now' st og out rc diag. do_heartbeat e' cfg' demo_scope now' demo_job gen db2 = Inl StaleClaim \<and>
          isl (do_complete e' cfg' demo_scope now' demo_job gen st og out rc diag db2))"
    by (elim exE conjE) (rule that)
  then have "do_heartbeat (demo_env ''j'') JobConfig_default demo_scope 106 demo_job 0 db1 = Inl StaleClaim"
    by (meson le0 rtranclp.rtrancl_refl)
  with c d show ?thesis by auto
qed

end
