(* ===== verification/Job_Store_Final.thy ===== *)
theory Job_Store_Final
  imports Job_Store_Props
begin

text \<open>
  What the job store promises about finished jobs: a handler's result is recorded once, the first
  confirmation wins, an erased owner leaves no content behind, and maintenance deletes every
  expired copy. The last section states the life of a job as an abstract machine of four phases
  that every transaction refines.
\<close>

section \<open>Completion\<close>

lemma finished_ev: "jf a b \<Longrightarrow> \<not> unfinished (state a) \<Longrightarrow> \<not> unfinished (state b)"
  by (cases "acked (state a)") (auto simp: jf_def three_phases)

text \<open>
  C7. A handler's result is recorded at most once and only under a live claim. A successful
  completion was made with the current generation before the lease ended; the job is then
  finished, and in every later state of the store each further completion or heartbeat, by
  anybody and for any generation, is refused and no claim of the job is granted.
\<close>

theorem handler_completes_once:
  assumes "db_ok db" and "do_complete e cfg sc now j gen st O_Handler out rc diag db = Inr (resp, db1)"
    and "job_step\<^sup>*\<^sup>* db1 db2"
  shows "(\<exists>r until. row_get db j = Some r \<and> state r = Running \<and> generation r = gen \<and> lease_until r = Some until \<and> now < until) \<and>
    (\<exists>r1. row_get db1 j = Some r1 \<and> delivery_state (state r1)) \<and>
    (\<forall>e' cfg' now' gen' st' og' out' rc' diag'.
       do_heartbeat e' cfg' sc now' j gen' db2 = Inl StaleClaim \<and>
       isl (do_complete e' cfg' sc now' j gen' st' og' out' rc' diag' db2) \<and>
       do_claim_job e' cfg' sc now' j db2 = Inr (Resp_Job None, db2))"
proof -
  from do_complete_writes [OF assms(1,2)] obtain r r' where g: "get sc j db = Inr r" and lv: "live r gen now = Inr ()"
    and nx: "next_ok r r'" and sv: "save e r' db = Inr db1" and fin: "st \<noteq> Uncertain \<longrightarrow> delivery_state (state r')" by blast
  note r = get_self [OF g]
  have un: "st \<noteq> Uncertain"
  proof
    assume "st = Uncertain"
    with assms(2) g show False by (auto simp: do_complete_def and_then_Inr complete_mismatch_def)
  qed
  from save_next [OF assms(1) r(1,2) nx sv] obtain r1 where ok1: "db_ok db1" and q: "requant r' r1"
    and g1: "row_get db1 j = Some r1" unfolding r(3) by auto
  have d1: "delivery_state (state r1)" using fin un requant_simps(8) [OF q] by simp
  from js.run_ev [OF assms(3) ok1 g1] obtain r2 where g2: "row_get db2 j = Some r2" and ev: "jf r1 r2" by blast
  have nu: "\<not> unfinished (state r2)" using finished_ev [OF ev] d1 by (simp add: three_phases)
  then have nr: "state r2 \<noteq> Running" "state r2 \<noteq> Pending" by auto
  have sc: "scope_of j = sc" using r by simp
  have "do_claim_job e' cfg' sc now' j db2 = Inr (Resp_Job None, db2)" for e' cfg' now'
    using g2 sc nr by (simp add: do_claim_job_def get_Inr [THEN iffD2] claim_job_def claimable_def)
  moreover have "do_heartbeat e' cfg' sc now' j gen' db2 = Inl StaleClaim \<and>
      isl (do_complete e' cfg' sc now' j gen' st' og' out' rc' diag' db2)" for e' cfg' now' gen' st' og' out' rc' diag'
    using not_running_stale [OF js.run_ok [OF assms(3) ok1] g2 sc] nr by blast
  moreover have "\<exists>until. state r = Running \<and> generation r = gen \<and> lease_until r = Some until \<and> now < until"
    using lv by (auto simp: live_def split: option.splits)
  moreover have "row_get db j = Some r" using r by simp
  ultimately show ?thesis using g1 d1 by blast
qed

theorem handler_completes_once_witness:
  "\<exists>db1. do_complete (demo_env ''j'') JobConfig_default demo_scope 103 demo_job 1 Succeeded O_Handler (Some [7]) None None
       (demo_run [Enqueue [demo_spec ''a''], Claim [''k''] 1]) = Inr (Resp_Done, db1) \<and>
     do_heartbeat (demo_env ''j'') JobConfig_default demo_scope 104 demo_job 1 db1 = Inl StaleClaim \<and>
     do_claim_job (demo_env ''j'') JobConfig_default demo_scope 200 demo_job db1 = Inr (Resp_Job None, db1)"
proof -
  let ?db = "demo_run [Enqueue [demo_spec ''a''], Claim [''k''] 1]"
  let ?o = "do_complete (demo_env ''j'') JobConfig_default demo_scope 103 demo_job 1 Succeeded O_Handler (Some [7]) None None ?db"
  have "map_sum id fst ?o = Inr Resp_Done" by code_simp
  then obtain db1 where d: "?o = Inr (Resp_Done, db1)" by (cases ?o) (auto simp: prod_eq_iff)
  have "db_ok ?db" by (rule demo_run_ok) simp
  from handler_completes_once [OF this d rtranclp.rtrancl_refl] d show ?thesis by blast
qed

section \<open>Confirmation\<close>

lemma ack_one:
  assumes "db_ok db" and "do_ack e cfg sc [(tk, d)] db = Inr (Resp_Acks [Acked d'], db1)"
  shows "d' = d \<and> db_ok db1 \<and> 1 \<le> max_batch cfg \<and> scope_of (tk_job tk) = sc \<and>
    (\<exists>r t. row_get db (tk_job tk) = Some r \<and> delivery_state (state r) \<and> row_get db1 (tk_job tk) = Some t \<and>
       state t = ack_state d \<and> final_state t = Some (state r) \<and> delivery_generation t = delivery_generation r \<and>
       0 < tk_generation tk \<and> tk_generation tk \<le> delivery_generation r \<and> tomb_ok t)"
proof -
  from assms(2) have b: "1 \<le> max_batch cfg" and l: "ack_loop e sc [(tk, d)] db = Inr ([Acked d'], db1)"
    by (auto simp: do_ack_def and_then_Inr)
  from l obtain r where g: "get sc (tk_job tk) db = Inr r" and d: "delivery_state (state r)"
    and t: "0 < tk_generation tk" "tk_generation tk \<le> delivery_generation r" and dd: "d' = d"
    and sv: "save e (r\<lparr>final_state := Some (state r), state := ack_state d\<rparr>) db = Inr db1"
    by (auto simp: and_then_Inr three_phases split: if_splits)
  have a: "acked (ack_state d)" by (simp add: ack_state_def split: Disposition.splits)
  note S = save_tomb [OF assms(1) get_self(1) [OF g] d a sv]
  let ?t = "tombstone (UNIX_EPOCH e) (r\<lparr>final_state := Some (state r), state := ack_state d\<rparr>)"
  have g1: "row_get db1 (tk_job tk) = Some ?t" using S get_self(3) [OF g] by simp
  have "tomb_ok ?t" by (rule tombstone_tomb_ok [OF _ d]) simp
  moreover have "db_ok db1" using S moves_ok by blast
  moreover have "row_get db (tk_job tk) = Some r" "scope_of (tk_job tk) = sc" using g by (simp_all add: get_Inr)
  moreover have "state ?t = ack_state d" "final_state ?t = Some (state r)" "delivery_generation ?t = delivery_generation r"
    by simp_all
  ultimately show ?thesis using b dd d t g1 by blast
qed

text \<open>
  C16. The first confirmation wins for ever. A confirmation that is accepted was made for a finished
  job with a delivery token that had been issued; from then on the record is the same
  content-free tombstone in every state of the store, and every further confirmation with that
  token, whatever it asks for, reports the first disposition and changes nothing.
\<close>

theorem ack_first_wins:
  assumes "db_ok db" and "do_ack e cfg sc [(tk, d)] db = Inr (Resp_Acks [Acked d], db1)"
    and "job_step\<^sup>*\<^sup>* db1 db2" and "json_acks (cod e) [(tk, d')] \<le> max_page_bytes cfg"
  shows "do_ack e cfg sc [(tk, d')] db2 = Inr (Resp_Acks [AlreadyAcked d], db2) \<and>
    (\<exists>r t. row_get db (tk_job tk) = Some r \<and> delivery_state (state r) \<and> row_get db2 (tk_job tk) = Some t \<and>
       row_get db1 (tk_job tk) = Some t \<and> final_state t = Some (state r) \<and> tomb_ok t)"
proof -
  from ack_one [OF assms(1,2)] obtain r t where ok1: "db_ok db1" and b: "1 \<le> max_batch cfg" and sc: "scope_of (tk_job tk) = sc"
    and r: "row_get db (tk_job tk) = Some r" "delivery_state (state r)" and t: "row_get db1 (tk_job tk) = Some t"
    "state t = ack_state d" "final_state t = Some (state r)" "delivery_generation t = delivery_generation r"
    "0 < tk_generation tk" "tk_generation tk \<le> delivery_generation r" "tomb_ok t" by blast
  have a: "acked (state t)" "\<not> unfinished (state t)" by (simp_all add: t(2) ack_state_def split: Disposition.splits)
  from js.run_ev [OF assms(3) ok1 t(1)] obtain t2 where g2: "row_get db2 (tk_job tk) = Some t2" and ev: "jf t t2" by blast
  have "t2 = t" using ev a(1) by (simp add: jf_def)
  moreover have "(if state t = Accepted then D_Accepted else D_Discarded) = d"
    by (cases d) (simp_all add: t(2) ack_state_def)
  ultimately have "ack_loop e sc [(tk, d')] db2 = Inr ([AlreadyAcked d], db2)"
    using g2 sc a t(4-6) by (simp add: get_Inr [THEN iffD2])
  then have "do_ack e cfg sc [(tk, d')] db2 = Inr (Resp_Acks [AlreadyAcked d], db2)"
    using b assms(4) sc by (simp add: do_ack_def ensure_def scoped_def)
  with r t g2 \<open>t2 = t\<close> show ?thesis by blast
qed

definition demo_final :: jobs_db where
  "demo_final = demo_run [Enqueue [demo_spec ''a''], Claim [''k''] 1,
     Complete demo_job 1 Succeeded O_Handler (Some [7]) None None, Completions 10 4096]"

lemma demo_final_ok: "db_ok demo_final"
  unfolding demo_final_def by (rule demo_run_ok) simp

theorem ack_first_wins_witness:
  "\<exists>db1. do_ack (demo_env ''j'') JobConfig_default demo_scope [(\<lparr>tk_job = demo_job, tk_generation = 1\<rparr>, D_Accepted)] demo_final =
       Inr (Resp_Acks [Acked D_Accepted], db1) \<and>
     do_ack (demo_env ''j'') JobConfig_default demo_scope [(\<lparr>tk_job = demo_job, tk_generation = 1\<rparr>, D_Discarded)] db1 =
       Inr (Resp_Acks [AlreadyAcked D_Accepted], db1)"
proof -
  let ?o = "do_ack (demo_env ''j'') JobConfig_default demo_scope [(\<lparr>tk_job = demo_job, tk_generation = 1\<rparr>, D_Accepted)] demo_final"
  have "map_sum id fst ?o = Inr (Resp_Acks [Acked D_Accepted])" by code_simp
  then obtain db1 where d: "?o = Inr (Resp_Acks [Acked D_Accepted], db1)" by (cases ?o) (auto simp: prod_eq_iff)
  have "json_acks (cod (demo_env ''j'')) [(\<lparr>tk_job = demo_job, tk_generation = 1\<rparr>, D_Discarded)] \<le> max_page_bytes JobConfig_default"
    by (simp add: demo_env_def demo_codec_def JobConfig_default_def)
  from ack_first_wins [OF demo_final_ok d rtranclp.rtrancl_refl this] d show ?thesis by blast
qed


section \<open>Erasure\<close>

definition gone :: "JobRecord \<Rightarrow> bool" where
  "gone r \<longleftrightarrow> purged r \<or> acked (state r)"

lemma gone_ev: "jf a b \<Longrightarrow> gone a \<Longrightarrow> gone b"
  by (auto simp: gone_def jf_def jkeep_def)

lemma gone_empty: "rec_ok r \<Longrightarrow> gone r \<Longrightarrow> no_copies r \<and> owners r = []"
  by (auto simp: rec_ok_def gone_def tomb_ok_def live_ok_def split: if_splits)

lemma purge_loop_gone:
  assumes "db_ok db" "fresh sc db rs" "\<And>r. r \<in> set rs \<Longrightarrow> \<not> acked (state r)" "purge_loop e cfg now rs db = Inr db'"
    "r \<in> set rs"
  shows "\<exists>r'. row_get db' (job_id r) = Some r' \<and> gone r'"
  using assms
proof (induction rs arbitrary: db)
  case (Cons x rs)
  from Cons.prems(4) obtain x2 db1 where
    c: "(if claimable (erased x) now \<or> state (erased x) \<noteq> Running \<and> state (erased x) \<noteq> Uncertain \<and> \<not> acked (state (erased x))
         then finish e cfg Purged now (erased x) else Inr (erased x)) = Inr x2"
    and sv: "save e x2 db = Inr db1" and rest: "purge_loop e cfg now rs db1 = Inr db'"
    unfolding purge_loop.simps Let_def by (auto simp only: and_then_Inr)
  have na: "\<not> acked (state x)" using Cons.prems(3) by simp
  have f: "row_get db (job_id x) = Some x" "scope_of (job_id x) = sc" using Cons.prems(2) by (simp_all add: fresh_Cons)
  note nx = purge_next [OF unacked_live [OF Cons.prems(1) f(1) na] na c]
  note s = save_fresh [OF Cons.prems(1,2) nx sv]
  have st: "steps sc db1 db'" by (rule purge_loop_steps [OF _ _ _ rest]) (use s Cons.prems(3) in auto)
  show ?case
  proof (cases "r = x")
    case True
    from save_next [OF Cons.prems(1) f nx sv] obtain x' where q: "requant x2 x'" and g: "row_get db1 (job_id x) = Some x'" by auto
    have "purged x2" using c finish_closed [of e cfg Purged now "erased x" x2] by (auto split: if_splits)
    then have "gone x'" by (simp add: gone_def requant_simps [OF q])
    with steps_ev [OF st g] gone_ev True show ?thesis by blast
  next
    case False
    with Cons.IH [OF _ _ _ rest] s Cons.prems(3,5) show ?thesis by auto
  qed
qed simp

lemma purge_loop_new:
  assumes "db_ok db" "fresh sc db rs" "\<And>r. r \<in> set rs \<Longrightarrow> \<not> acked (state r)" "purge_loop e cfg now rs db = Inr db'"
    "row_get db j = None"
  shows "row_get db' j = None"
  using assms
proof (induction rs arbitrary: db)
  case (Cons x rs)
  from Cons.prems(4) obtain x2 db1 where
    c: "(if claimable (erased x) now \<or> state (erased x) \<noteq> Running \<and> state (erased x) \<noteq> Uncertain \<and> \<not> acked (state (erased x))
         then finish e cfg Purged now (erased x) else Inr (erased x)) = Inr x2"
    and sv: "save e x2 db = Inr db1" and rest: "purge_loop e cfg now rs db1 = Inr db'"
    unfolding purge_loop.simps Let_def by (auto simp only: and_then_Inr)
  have na: "\<not> acked (state x)" using Cons.prems(3) by simp
  have f: "row_get db (job_id x) = Some x" "scope_of (job_id x) = sc" using Cons.prems(2) by (simp_all add: fresh_Cons)
  note nx = purge_next [OF unacked_live [OF Cons.prems(1) f(1) na] na c]
  note s = save_fresh [OF Cons.prems(1,2) nx sv]
  have "row_get db1 j = None" using save_next [OF Cons.prems(1) f nx sv] Cons.prems(5) f(1) by auto
  with Cons.IH [OF _ _ _ rest] s Cons.prems(3) show ?case by auto
qed simp

lemma length_filter_cover:
  assumes "\<And>x. x \<in> set xs \<Longrightarrow> P x \<Longrightarrow> A x \<or> B x"
  shows "length (filter P xs) \<le> length (filter A xs) + length (filter B xs)"
  using assms by (induction xs) fastforce+

lemma owner_listed:
  "db_idx db \<Longrightarrow> (scope_of j, ow, ident j) \<in> set (job_owners db) \<longleftrightarrow> (\<exists>r. row_get db j = Some r \<and> ow \<in> set (owners r))"
  by (cases j) (simp add: owner_sync_iff)

lemma owner_rows_complete:
  assumes ok: "db_ok db" and sel: "select_rows e sc (Q_Owner ow) now (live_count sc db) db = Inr rs"
    and r: "row_get db j = Some r" "scope_of j = sc" "ow \<in> set (owners r)"
  shows "r \<in> set rs"
proof -
  note idx = db_okD(1) [OF ok]
  let ?F = "filter (\<lambda>r. scope_of (job_id r) = sc \<and> query_filter e (Q_Owner ow) now db r) (jobs db)"
  have rs: "rs = take (live_count sc db) (sort_key (query_order e (Q_Owner ow)) ?F)"
    using sel by (simp add: select_rows_def and_then_Inr)
  have own: "\<not> acked (state x)" if "x \<in> set (jobs db)" "query_filter e (Q_Owner ow) now db x" for x
  proof
    assume a: "acked (state x)"
    have g: "row_get db (job_id x) = Some x" using that(1) row_get_in [OF idx] by blast
    have "tomb_ok x" using db_okD(2) [OF ok g] a by (simp add: rec_ok_def)
    moreover have "ow \<in> set (owners x)"
      using that(2) owner_listed [OF idx, of "job_id x" ow] g by simp
    ultimately show False by (simp add: tomb_ok_def)
  qed
  have "length ?F \<le> live_count sc db"
    unfolding live_count_def by (rule length_filter_cover) (use own in \<open>auto simp: three_phases\<close>)
  then have "set rs = set ?F" by (simp add: rs)
  moreover have "job_id r = j" by (rule row_get_id [OF r(1)])
  then have "r \<in> set ?F"
    using r row_get_in [OF idx, of j r] owner_listed [OF idx, of j ow] by auto
  ultimately show ?thesis by blast
qed

text \<open>
  C17. Erasing an owner is complete and permanent. After a successful erasure no job of the scope is
  listed under the owner, and every job that was keeps no payload, admission, result or owner,
  in that state and in every later one.
\<close>

theorem purge_erases_owner:
  assumes "db_ok db" and "do_purge_owner e cfg sc now ow db = Inr (resp, db1)" and "job_step\<^sup>*\<^sup>* db1 db2"
  shows "(\<forall>i. (sc, ow, i) \<notin> set (job_owners db1)) \<and>
    (\<forall>j r. row_get db j = Some r \<and> scope_of j = sc \<and> ow \<in> set (owners r) \<longrightarrow>
       (\<exists>r2. row_get db2 j = Some r2 \<and> payload r2 = None \<and> admission r2 = None \<and> job_output r2 = None \<and> owners r2 = []))"
proof -
  from assms(2) obtain rs where sel: "select_rows e sc (Q_Owner ow) now (live_count sc db) db = Inr rs"
    and p: "purge_loop e cfg now rs db = Inr db1"
    by (auto simp: do_purge_owner_def and_then_Inr)
  note st = do_purge_owner_steps [OF assms(1,2)]
  note ok1 = steps_ok [OF st]
  have g1: "\<exists>r1. row_get db1 j = Some r1 \<and> gone r1"
    if "row_get db j = Some r" "scope_of j = sc" "ow \<in> set (owners r)" for j r
    using purge_loop_gone [OF assms(1) select_rows_fresh [OF db_okD(1) [OF assms(1)] sel] owner_rows_live [OF assms(1) sel] p
        owner_rows_complete [OF assms(1) sel that]] row_get_id [OF that(1)] by simp
  have "(sc, ow, i) \<notin> set (job_owners db1)" for i
  proof
    assume "(sc, ow, i) \<in> set (job_owners db1)"
    then obtain r1 where r1: "row_get db1 \<lparr>scope_of = sc, ident = i\<rparr> = Some r1" "ow \<in> set (owners r1)"
      using owner_sync_iff [OF db_okD(1) [OF ok1]] by blast
    let ?j = "\<lparr>scope_of = sc, ident = i\<rparr>"
    show False
    proof (cases "row_get db ?j")
      case (Some r)
      from steps_ev [OF st Some] r1(1) have ev: "jf r r1" by auto
      have "\<not> acked (state r1)" using db_okD(2) [OF ok1 r1(1)] r1(2) by (auto simp: rec_ok_def tomb_ok_def)
      then have "ow \<in> set (owners r)" using ev r1(2) by (auto simp: jf_def jkeep_def)
      from g1 [OF Some _ this] r1 gone_empty [OF db_okD(2) [OF ok1]] show False by auto
    next
      case None
      with purge_loop_new [OF assms(1) select_rows_fresh [OF db_okD(1) [OF assms(1)] sel] owner_rows_live [OF assms(1) sel] p] r1(1)
      show False by simp
    qed
  qed
  moreover have "\<exists>r2. row_get db2 j = Some r2 \<and> payload r2 = None \<and> admission r2 = None \<and> job_output r2 = None \<and> owners r2 = []"
    if "row_get db j = Some r \<and> scope_of j = sc \<and> ow \<in> set (owners r)" for j r
  proof -
    from g1 that obtain r1 where r1: "row_get db1 j = Some r1" "gone r1" by blast
    have "\<exists>r2. row_get db2 j = Some r2 \<and> jf r1 r2 \<and> gone r2"
      by (rule js.run_sticky [where P = gone, OF _ assms(3) ok1 r1]) (rule gone_ev)
    then obtain r2 where r2: "row_get db2 j = Some r2" "gone r2" by blast
    from gone_empty [OF db_okD(2) [OF js.run_ok [OF assms(3) ok1] r2(1)] r2(2)] r2(1) show ?thesis
      by (auto simp: no_copies_def)
  qed
  ultimately show ?thesis by blast
qed

theorem purge_erases_owner_witness:
  "\<exists>db1 r2. do_purge_owner (demo_env ''j'') JobConfig_default demo_scope 110 ''o'' demo_final = Inr (Resp_Changed 1, db1) \<and>
     row_get db1 demo_job = Some r2 \<and> payload r2 = None \<and> job_output r2 = None \<and> owners r2 = []"
proof -
  let ?o = "do_purge_owner (demo_env ''j'') JobConfig_default demo_scope 110 ''o'' demo_final"
  have "map_sum id fst ?o = Inr (Resp_Changed 1)" by code_simp
  then obtain db1 where d: "?o = Inr (Resp_Changed 1, db1)" by (cases ?o) (auto simp: prod_eq_iff)
  have "map_option owners (row_get demo_final demo_job) = Some [''o'']" by code_simp
  then obtain r where r: "row_get demo_final demo_job = Some r" "''o'' \<in> set (owners r)" by auto
  have "scope_of demo_job = demo_scope" by (simp add: demo_job_def)
  with purge_erases_owner [OF demo_final_ok d rtranclp.rtrancl_refl] r d show ?thesis by blast
qed


section \<open>Maintenance\<close>

text \<open>The copies of a scope whose retention has ended and which are still there.\<close>

definition due :: "env \<Rightarrow> JobScope \<Rightarrow> time \<Rightarrow> JobRecord \<Rightarrow> bool" where
  "due e sc now r \<longleftrightarrow> scope_of (job_id r) = sc \<and> delivery_state (state r) \<and> \<not> result_expired r \<and> sql_due e (recovery_until r) now"

definition due_copies :: "env \<Rightarrow> JobScope \<Rightarrow> time \<Rightarrow> jobs_db \<Rightarrow> nat" where
  "due_copies e sc now db = length (filter (due e sc now) (jobs db))"

definition copy_bytes :: "env \<Rightarrow> JobRecord \<Rightarrow> nat" where
  "copy_bytes e r = len (payload r) + len (admission r) + len (job_output r) +
     (case receipt r of None \<Rightarrow> 0 | Some x \<Rightarrow> recovery_len e x)"

definition kept_bytes :: "env \<Rightarrow> jobs_db \<Rightarrow> nat" where
  "kept_bytes e db = sum_list (map (copy_bytes e) (jobs db))"

lemma expired_rows:
  "select_rows e sc Q_Expired now n db = Inr rs \<longleftrightarrow>
     n \<le> i64_max \<and> rs = take n (sort_key (query_order e Q_Expired) (filter (due e sc now) (jobs db)))"
proof -
  have "(\<lambda>r. scope_of (job_id r) = sc \<and> query_filter e Q_Expired now db r) = due e sc now"
    by (rule ext) (simp add: due_def)
  then show ?thesis by (auto simp: select_rows_def and_then_Inr)
qed

lemma row_expire_due:
  assumes "db_ok db" "row_get db (job_id r) = Some r" "due e sc now r"
  shows "Suc (due_copies e sc now (row_expire (job_id r) db)) = due_copies e sc now db"
proof -
  note idx = db_okD(1) [OF assms(1)]
  have m: "r \<in> set (jobs db)" using assms(2) row_get_in [OF idx] by blast
  have u: "x = r" if "x \<in> set (jobs db)" "job_id x = job_id r" for x
  proof -
    have "row_get db (job_id r) = Some x" using that row_get_in [OF idx] by blast
    then show ?thesis using assms(2) by simp
  qed
  have "jobs (row_expire (job_id r) db) = map (\<lambda>y. if job_id y = job_id r then expired_copy r else y) (jobs db)"
    unfolding row_expire_copy update_row_def using u by auto
  moreover have "\<not> due e sc now (expired_copy r)" by (simp add: due_def expired_copy_def)
  ultimately show ?thesis
    using length_filter_map_update [OF idx_ids [OF idx] m, of "due e sc now" "expired_copy r"] assms(3)
    by (simp add: due_copies_def)
qed

lemma maintain_loop_due:
  assumes "db_ok db" "fresh sc db rs" "\<And>r. r \<in> set rs \<Longrightarrow> due e sc now r" "maintain_loop e cfg c b rs db = Inr (n, db')"
  shows "\<exists>k. n = c + k \<and> k \<le> length rs \<and> due_copies e sc now db' + k = due_copies e sc now db \<and>
    (c = 0 \<and> rs \<noteq> [] \<longrightarrow> 0 < k)"
  using assms
proof (induction rs arbitrary: db c b)
  case (Cons r rs)
  have f: "row_get db (job_id r) = Some r" "scope_of (job_id r) = sc" "job_id r \<notin> job_id ` set rs" "fresh sc db rs"
    using Cons.prems(2) by (simp_all add: fresh_Cons)
  have d: "due e sc now r" using Cons.prems(3) by simp
  then have "delivery_state (state r)" by (simp add: due_def)
  note s = row_expire_steps [OF Cons.prems(1) f(1) this]
  have fr: "fresh sc (row_expire (job_id r) db) rs" by (rule fresh_other [OF f(4,3)]) (use s in simp)
  note e1 = row_expire_due [OF Cons.prems(1) f(1) d]
  from Cons.prems(4) consider (stop) "db' = db" "n = c" "0 < c" | (last) "db' = row_expire (job_id r) db" "n = Suc c"
    | (go) req where "maintain_loop e cfg (Suc c) req rs (row_expire (job_id r) db) = Inr (n, db')"
    by (auto simp: and_then_Inr Let_def split: if_splits)
  then show ?case
  proof cases
    case last
    with e1 show ?thesis by (intro exI [of _ 1]) simp
  next
    case go
    from Cons.IH [OF steps_ok fr _ go] s Cons.prems(3) obtain k where
      "n = Suc c + k" "k \<le> length rs" "due_copies e sc now db' + k = due_copies e sc now (row_expire (job_id r) db)"
      by (meson list.set_intros(2))
    with e1 show ?thesis by (intro exI [of _ "Suc k"]) simp
  qed (auto intro: exI [of _ 0])
qed auto

lemma do_maintain_due:
  assumes "db_ok db" and "do_maintain e cfg sc now db = Inr (resp, db')"
  shows "\<exists>n. resp = Resp_Changed n \<and> n \<le> maintenance_batch cfg \<and>
    due_copies e sc now db' + n = due_copies e sc now db \<and>
    (0 < maintenance_batch cfg \<and> 0 < due_copies e sc now db \<longrightarrow> 0 < n)"
proof -
  from assms(2) obtain rs n where sel: "select_rows e sc Q_Expired now (maintenance_batch cfg) db = Inr rs"
    and l: "maintain_loop e cfg 0 0 rs db = Inr (n, db')" and resp: "resp = Resp_Changed n"
    by (auto simp: do_maintain_def and_then_Inr)
  have rs: "rs = take (maintenance_batch cfg) (sort_key (query_order e Q_Expired) (filter (due e sc now) (jobs db)))"
    using sel by (simp add: expired_rows)
  have mem: "due e sc now r" if "r \<in> set rs" for r
  proof -
    have "r \<in> set (sort_key (query_order e Q_Expired) (filter (due e sc now) (jobs db)))"
      using that unfolding rs by (rule in_set_takeD)
    then show ?thesis by simp
  qed
  from maintain_loop_due [OF assms(1) select_rows_fresh [OF db_okD(1) [OF assms(1)] sel] mem l]
  have k: "n \<le> length rs" "due_copies e sc now db' + n = due_copies e sc now db" "rs \<noteq> [] \<longrightarrow> 0 < n" by auto
  have len: "length rs = min (due_copies e sc now db) (maintenance_batch cfg)" by (simp add: rs due_copies_def)
  have "n \<le> maintenance_batch cfg" using k(1) len by simp
  moreover have "0 < n" if "0 < maintenance_batch cfg" "0 < due_copies e sc now db"
  proof -
    have "0 < length rs" using that len by simp
    with k(3) show ?thesis by simp
  qed
  ultimately show ?thesis using k(2) resp by (intro exI [of _ n] conjI impI) simp_all
qed

lemma maintain_loop_total:
  assumes "db_ok db" "fresh sc db rs" "\<And>r. r \<in> set rs \<Longrightarrow> delivery_state (state r)"
    "b + sum_list (map (copy_bytes e) rs) \<le> u64_max"
  shows "\<exists>x. maintain_loop e cfg c b rs db = Inr x"
  using assms
proof (induction rs arbitrary: db c b)
  case (Cons r rs)
  have f: "row_get db (job_id r) = Some r" "job_id r \<notin> job_id ` set rs" "fresh sc db rs"
    using Cons.prems(2) by (simp_all add: fresh_Cons)
  have "delivery_state (state r)" using Cons.prems(3) by simp
  note s = row_expire_steps [OF Cons.prems(1) f(1) this]
  have fr: "fresh sc (row_expire (job_id r) db) rs" by (rule fresh_other [OF f(3,2)]) (use s in simp)
  have "\<exists>x. maintain_loop e cfg (Suc c) (b + copy_bytes e r) rs (row_expire (job_id r) db) = Inr x"
    by (rule Cons.IH [OF _ fr]) (use s steps_ok Cons.prems(3,4) in \<open>auto simp: ac_simps\<close>)
  moreover have "recovery_bytes e (job_id r) db = Inr (copy_bytes e r)" using f(1) by (simp add: recovery_bytes_def copy_bytes_def)
  moreover have "checked_sum Storage b (copy_bytes e r) = Inr (b + copy_bytes e r)"
    using Cons.prems(4) by (simp add: checked_sum_Inr)
  ultimately show ?case by (auto simp: Let_def)
qed auto


lemma do_maintain_total:
  assumes "db_ok db" and "maintenance_batch cfg \<le> i64_max" and "kept_bytes e db \<le> u64_max"
  shows "\<exists>resp db'. do_maintain e cfg sc now db = Inr (resp, db')"
proof -
  let ?rs = "take (maintenance_batch cfg) (sort_key (query_order e Q_Expired) (filter (due e sc now) (jobs db)))"
  have sel: "select_rows e sc Q_Expired now (maintenance_batch cfg) db = Inr ?rs"
    using assms(2) by (simp add: expired_rows)
  have d: "delivery_state (state r)" if "r \<in> set ?rs" for r
    using select_rows_mem [OF sel that] by simp
  have "sum_list (map (copy_bytes e) ?rs) \<le> sum_list (map (copy_bytes e) (filter (due e sc now) (jobs db)))"
  proof -
    have "sum_list (map (copy_bytes e) ?rs) \<le> sum_list (map (copy_bytes e) (sort_key (query_order e Q_Expired) (filter (due e sc now) (jobs db))))"
      by (subst append_take_drop_id [symmetric, of _ "maintenance_batch cfg"]) (simp only: map_append sum_list_append)
    also have "\<dots> = sum_list (map (copy_bytes e) (filter (due e sc now) (jobs db)))"
      by (metis mset_map mset_sort sum_mset_sum_list)
    finally show ?thesis .
  qed
  also have "\<dots> \<le> kept_bytes e db" unfolding kept_bytes_def by (rule sum_list_filter_le_nat)
  finally have "0 + sum_list (map (copy_bytes e) ?rs) \<le> u64_max" using assms(3) by simp
  from maintain_loop_total [OF assms(1) select_rows_fresh [OF db_okD(1) [OF assms(1)] sel] d this, of cfg 0]
  show ?thesis using sel by (auto simp: do_maintain_def)
qed


lemma row_expire_kept: "kept_bytes e (row_expire j db) \<le> kept_bytes e db"
proof -
  have "copy_bytes e (if job_id r = j then expired_copy r else r) \<le> copy_bytes e r" for r
    by (simp add: copy_bytes_def expired_copy_def len_def)
  then show ?thesis
    by (simp add: kept_bytes_def row_expire_copy update_row_def comp_def sum_list_mono)
qed

lemma maintain_loop_kept: "maintain_loop e cfg c b rs db = Inr (n, db') \<Longrightarrow> kept_bytes e db' \<le> kept_bytes e db"
proof (induction rs arbitrary: c b db)
  case (Cons r rs)
  from Cons.prems consider "db' = db" | "db' = row_expire (job_id r) db"
    | k req where "maintain_loop e cfg k req rs (row_expire (job_id r) db) = Inr (n, db')"
    by (auto simp: and_then_Inr Let_def split: if_splits)
  then show ?case using row_expire_kept [of e "job_id r" db] Cons.IH by cases (auto intro: order_trans)
qed simp

lemma do_maintain_kept: "do_maintain e cfg sc now db = Inr (resp, db') \<Longrightarrow> kept_bytes e db' \<le> kept_bytes e db"
  by (auto simp: do_maintain_def and_then_Inr dest: maintain_loop_kept)

text \<open>
  One maintenance pass deletes the expired copies it counts, no more than a batch, and at least
  one when one is due, even one that is larger than the byte budget of the pass; every other
  job stays due or not as it was.
\<close>

theorem maintain_makes_progress:
  assumes "db_ok db" and "do_maintain e cfg sc now db = Inr (resp, db')"
  shows "\<exists>n. resp = Resp_Changed n \<and> n \<le> maintenance_batch cfg \<and>
    due_copies e sc now db' + n = due_copies e sc now db \<and>
    (0 < maintenance_batch cfg \<and> 0 < due_copies e sc now db \<longrightarrow> 0 < n)"
  by (rule do_maintain_due [OF assms])

theorem maintain_makes_progress_witness:
  "\<exists>resp db'. do_maintain (demo_env ''j'') JobConfig_default demo_scope 1000000 demo_final = Inr (resp, db') \<and>
     due_copies (demo_env ''j'') demo_scope 1000000 demo_final = 1 \<and> resp = Resp_Changed 1 \<and>
     due_copies (demo_env ''j'') demo_scope 1000000 db' = 0"
proof -
  let ?o = "do_maintain (demo_env ''j'') JobConfig_default demo_scope 1000000 demo_final"
  have "map_sum id fst ?o = Inr (Resp_Changed 1)" by code_simp
  then obtain db' where d: "?o = Inr (Resp_Changed 1, db')" by (cases ?o) (auto simp: prod_eq_iff)
  have "due_copies (demo_env ''j'') demo_scope 1000000 demo_final = 1" by code_simp
  with maintain_makes_progress [OF demo_final_ok d] d show ?thesis by auto
qed

fun maintain_passes :: "env \<Rightarrow> JobConfig \<Rightarrow> JobScope \<Rightarrow> time \<Rightarrow> nat \<Rightarrow> jobs_db \<Rightarrow> JobError + jobs_db" where
  "maintain_passes e cfg sc now 0 db = Inr db"
| "maintain_passes e cfg sc now (Suc k) db =
     and_then (do_maintain e cfg sc now db) (\<lambda>(_, db1). maintain_passes e cfg sc now k db1)"

lemma maintain_passes_drain:
  assumes "0 < maintenance_batch cfg" "maintenance_batch cfg \<le> i64_max"
    "db_ok db" "kept_bytes e db \<le> u64_max" "due_copies e sc now db \<le> k"
  shows "\<exists>db'. maintain_passes e cfg sc now k db = Inr db' \<and> due_copies e sc now db' = 0"
  using assms(3-5)
proof (induction k arbitrary: db)
  case (Suc k)
  from do_maintain_total [OF Suc.prems(1) assms(2) Suc.prems(2)] obtain resp db1 where
    m: "do_maintain e cfg sc now db = Inr (resp, db1)" by blast
  from do_maintain_due [OF Suc.prems(1) m] obtain n where
    n: "due_copies e sc now db1 + n = due_copies e sc now db" "0 < due_copies e sc now db \<longrightarrow> 0 < n"
    using assms(1) by blast
  have "due_copies e sc now db1 \<le> k" using n Suc.prems(3) by linarith
  moreover have "db_ok db1" by (rule steps_ok [OF do_maintain_steps [OF Suc.prems(1) m]])
  moreover have "kept_bytes e db1 \<le> u64_max" using do_maintain_kept [OF m] Suc.prems(2) by simp
  ultimately show ?case using Suc.IH m by simp
qed simp

text \<open>
  C15. Maintenance drains. Whatever the budget of a pass, as many passes as there are due copies
  succeed and leave none, provided the batch is positive and fits SQLite's integers and the
  retained bytes fit the machine integers they are counted in.
\<close>

theorem maintenance_drains:
  assumes "db_ok db" and "0 < maintenance_batch cfg" and "maintenance_batch cfg \<le> i64_max"
    and "kept_bytes e db \<le> u64_max"
  shows "\<exists>db'. maintain_passes e cfg sc now (due_copies e sc now db) db = Inr db' \<and> due_copies e sc now db' = 0"
  by (rule maintain_passes_drain [OF assms(2,3,1,4) order_refl])

theorem maintenance_drains_witness:
  "\<exists>db'. maintain_passes (demo_env ''j'') JobConfig_default demo_scope 1000000 1 demo_final = Inr db' \<and>
     due_copies (demo_env ''j'') demo_scope 1000000 db' = 0"
proof -
  have d: "due_copies (demo_env ''j'') demo_scope 1000000 demo_final = 1" by code_simp
  have "kept_bytes (demo_env ''j'') demo_final \<le> u64_max" by code_simp
  moreover have "0 < maintenance_batch JobConfig_default" "maintenance_batch JobConfig_default \<le> i64_max"
    by (simp_all add: JobConfig_default_def i64_max_def)
  ultimately show ?thesis using maintenance_drains [OF demo_final_ok, of JobConfig_default "demo_env ''j''" demo_scope 1000000] d
    by simp
qed

section \<open>The life of a job as an abstract machine\<close>

text \<open>
  The specification a client of the store relies on: a key is absent, open, final or confirmed
  with a disposition, and a job moves through these phases in this order only.
\<close>

datatype phase = Absent | Open | Final | Confirmed Disposition

definition phase_of :: "JobRecord option \<Rightarrow> phase" where
  "phase_of r = (case r of
      None \<Rightarrow> Absent
    | Some r \<Rightarrow> if unfinished (state r) then Open
                else if state r = Accepted then Confirmed D_Accepted
                else if state r = Discarded then Confirmed D_Discarded
                else Final)"

inductive phase_step :: "phase \<Rightarrow> phase \<Rightarrow> bool" where
  stay: "phase_step p p"
| enter: "phase_step Absent Open"
| close: "phase_step Open Final"
| confirm: "phase_step Final (Confirmed d)"

inductive_simps phase_step_simps: "phase_step p q"

lemma phase_confirm:
  "delivery_state (state r) \<Longrightarrow> acked (state r') \<Longrightarrow> phase_step (phase_of (Some r)) (phase_of (Some r'))"
  by (cases "state r"; cases "state r'") (auto simp: phase_of_def phase_step_simps)

lemma phase_calm:
  "jf r r' \<Longrightarrow> (acked (state r') \<Longrightarrow> acked (state r)) \<Longrightarrow> phase_step (phase_of (Some r)) (phase_of (Some r'))"
  using finished_ev [of r r']
  by (cases "state r"; cases "state r'") (auto simp: phase_of_def phase_step_simps jf_def)

lemma phase_moves:
  assumes m: "moves sc db db'" and c: "calm db db' \<or> acks db db' \<or> enters db db'"
  shows "phase_step (phase_of (row_get db j)) (phase_of (row_get db' j))"
  using c
proof (elim disjE)
  assume calm: "calm db db'"
  show ?thesis
  proof (cases "row_get db' j")
    case None
    then have "row_get db j = None" using moves_ev [OF m, of j] by (cases "row_get db j") auto
    then show ?thesis using None by (simp add: phase_step.stay)
  next
    case (Some r')
    from calm Some obtain r where r: "row_get db j = Some r" and a: "acked (state r') \<longrightarrow> acked (state r)"
      unfolding calm_def by blast
    with moves_ev [OF m r] Some phase_calm [of r r'] show ?thesis by auto
  qed
next
  assume "acks db db'"
  then show ?thesis
    using phase_confirm phase_step.stay unfolding acks_def by metis
next
  assume "enters db db'"
  then have "row_get db' j = row_get db j \<or>
      row_get db j = None \<and> (\<exists>r'. row_get db' j = Some r' \<and> unfinished (state r'))"
    by (simp add: enters_def)
  then show ?thesis by (auto simp: phase_step.stay phase_of_def phase_step.enter)
qed

text \<open>
  C14. Every transaction of the store refines the abstract machine: seen through its identity, a job
  stays in its phase or moves to the next one, from absent to open, from open to final, from final to
  confirmed. No transaction skips a phase: none inserts a job that is already final or confirmed,
  none confirms a job that was not final before it, a final job is never opened again and a
  confirmed one keeps its disposition.
\<close>

theorem job_store_refines_phases:
  assumes "db_ok db" and "job_step db db'"
  shows "phase_step (phase_of (row_get db j)) (phase_of (row_get db' j))"
  using assms(2)
proof (elim job_stepE)
  fix e sc rq cfg clock res
  assume "env_ok e sc rq db" and "jobs_in_transaction e cfg sc clock rq db = (res, db')"
  from transaction_moves [OF assms(1) this] show ?thesis using phase_moves by blast
qed

theorem job_store_refines_phases_witness:
  "job_step (demo_run [Enqueue [demo_spec ''a'']]) (demo_run [Enqueue [demo_spec ''a''], Cancel (Ids [demo_job])]) \<and>
   phase_of (row_get (demo_run [Enqueue [demo_spec ''a'']]) demo_job) = Open \<and>
   phase_of (row_get (demo_run [Enqueue [demo_spec ''a''], Cancel (Ids [demo_job])]) demo_job) = Final \<and>
   phase_step Open Final"
proof -
  let ?db = "demo_run [Enqueue [demo_spec ''a'']]"
  let ?db' = "demo_run [Enqueue [demo_spec ''a''], Cancel (Ids [demo_job])]"
  have "env_ok (demo_env ''j'') demo_scope (Cancel (Ids [demo_job])) ?db" by (simp add: env_ok_def demo_restored)
  then have "job_step ?db (snd (jobs_in_transaction (demo_env ''j'') JobConfig_default demo_scope 101 (Cancel (Ids [demo_job])) ?db))"
    by (rule request) (rule prod.collapse [symmetric])
  then have st: "job_step ?db ?db'" by (simp add: demo_run_def)
  have p: "phase_of (row_get ?db demo_job) = Open" "phase_of (row_get ?db' demo_job) = Final" by code_simp+
  have "db_ok ?db" by (rule demo_run_ok) simp
  from job_store_refines_phases [OF this st, of demo_job] st p show ?thesis by simp
qed

end
