(* ===== verification/Queue_Types.thy ===== *)
theory Queue_Types
  imports Core_Vocab
begin

text \<open>
  Crate \<^verbatim>\<open>symbiotic-queue\<close>, file \<^verbatim>\<open>lib.rs\<close>: the vocabulary of the durable queue (statuses,
  items, requests, failures, errors) and the latency telemetry. The payload
  (\<^verbatim>\<open>serde_json::Value\<close>) is never inspected by a queue; it is its JSON text here.
  The lemmas at the end give the reference meaning of the nearest-rank percentile.
\<close>

section \<open>Vocabulary\<close>

datatype QueueStatus = Pending | Running | Succeeded | Failed | Dead | Stopped

type_synonym json = string

record EnqueueRequest =
  rq_queue_id :: QueueId
  rq_kind :: string
  rq_payload :: json
  rq_idempotency_key :: "string option"
  rq_run_after :: "time option"
  rq_max_attempts :: "nat option"
  rq_force :: bool

datatype EnqueueDisposition = Inserted | ActiveDuplicate | TerminalDuplicate

record QueueItem =
  item_id :: QueueItemId
  queue_id :: QueueId
  kind :: string
  payload :: json
  status :: QueueStatus
  attempt :: nat
  max_attempts :: nat
  run_after :: time
  lease_owner :: "string option"
  lease_until :: "time option"
  idempotency_key :: "string option"
  last_error :: "DiagnosticCode option"
  last_error_class :: "FailureClass option"
  created_at :: time
  updated_at :: time

record EnqueueOutcome =
  out_item :: QueueItem
  disposition :: EnqueueDisposition

record ClaimRequest =
  cl_queue_id :: QueueId
  cl_worker_id :: string
  cl_limit :: nat
  cl_lease_seconds :: nat
  cl_max_in_flight :: "nat option"

record Failure =
  fl_error :: DiagnosticCode
  fl_error_class :: "FailureClass option"
  fl_run_after :: "time option"

datatype FailOutcome = RetryScheduled | MovedToDead | FailStopped

datatype QueueError =
    NotFound DiagnosticCode
  | LeaseMismatch DiagnosticCode
  | NotRunning DiagnosticCode
  | Unavailable DiagnosticCode
  | InvalidRequest DiagnosticCode
  | Storage DiagnosticCode

fun queue_error_code :: "QueueError \<Rightarrow> DiagnosticCode" where
  "queue_error_code (NotFound c) = c"
| "queue_error_code (LeaseMismatch c) = c"
| "queue_error_code (NotRunning c) = c"
| "queue_error_code (Unavailable c) = c"
| "queue_error_code (InvalidRequest c) = c"
| "queue_error_code (Storage c) = c"

text \<open>The result of a call: a value, a returned error, or a panic of the called code.\<close>

datatype 'a outcome = Ok 'a | Err QueueError | Panic

definition is_active :: "QueueStatus \<Rightarrow> bool" where
  "is_active s \<longleftrightarrow> s = Pending \<or> s = Running \<or> s = Failed"

definition is_terminal :: "QueueStatus \<Rightarrow> bool" where
  "is_terminal s \<longleftrightarrow> s = Succeeded \<or> s = Dead \<or> s = Stopped"

definition is_waiting :: "QueueStatus \<Rightarrow> bool" where
  "is_waiting s \<longleftrightarrow> s = Pending \<or> s = Failed"

lemma is_terminal_iff: "is_terminal s \<longleftrightarrow> \<not> is_active s"
  by (cases s) (auto simp: is_active_def is_terminal_def)

lemma is_active_iff: "is_active s \<longleftrightarrow> is_waiting s \<or> s = Running"
  by (auto simp: is_active_def is_waiting_def)

lemma is_active_simps [simp]:
  "is_active Pending" "is_active Running" "is_active Failed"
  "\<not> is_active Succeeded" "\<not> is_active Dead" "\<not> is_active Stopped"
  by (auto simp: is_active_def)

lemma is_terminal_simps [simp]:
  "\<not> is_terminal Pending" "\<not> is_terminal Running" "\<not> is_terminal Failed"
  "is_terminal Succeeded" "is_terminal Dead" "is_terminal Stopped"
  by (auto simp: is_terminal_def)

lemma is_waiting_simps [simp]:
  "is_waiting Pending" "is_waiting Failed"
  "\<not> is_waiting Running" "\<not> is_waiting Succeeded" "\<not> is_waiting Dead" "\<not> is_waiting Stopped"
  by (auto simp: is_waiting_def)

text \<open>
  A lease deadline: at least one second, refused when the number of seconds does not fit
  \<^verbatim>\<open>i64\<close> or the sum is outside the calendar. Both backends define the same function.
\<close>

definition lease_deadline :: "chrono \<Rightarrow> time \<Rightarrow> nat \<Rightarrow> QueueError + time" where
  "lease_deadline ch now seconds =
     (let n = max seconds 1 in
      if n \<le> i64_max then
        (case checked_add_secs ch now (int n) of
           Some t \<Rightarrow> Inr t
         | None \<Rightarrow> Inl (InvalidRequest InvalidConfiguration))
      else Inl (InvalidRequest InvalidConfiguration))"

lemma lease_deadline_after:
  "chrono_forward ch \<Longrightarrow> lease_deadline ch now secs = Inr t \<Longrightarrow> now < t"
  by (auto simp: lease_deadline_def Let_def chrono_forward_def split: if_splits option.splits)

section \<open>Latency telemetry\<close>

record LatencyStats =
  ls_count :: nat
  p50_ms :: nat
  p95_ms :: nat
  max_ms :: nat

definition LatencyStats_default :: LatencyStats where
  "LatencyStats_default = \<lparr>ls_count = 0, p50_ms = 0, p95_ms = 0, max_ms = 0\<rparr>"

definition div_ceil :: "nat \<Rightarrow> nat \<Rightarrow> nat" where
  "div_ceil a b = (if a mod b = 0 then a div b else Suc (a div b))"

definition nearest_rank :: "nat list \<Rightarrow> nat \<Rightarrow> nat" where
  "nearest_rank srt percentile =
     (let rank = max (div_ceil (percentile * length srt) 100) 1 in srt ! (rank - 1))"

definition from_samples :: "nat list \<Rightarrow> LatencyStats" where
  "from_samples samples =
     (if samples = [] then LatencyStats_default
      else let srt = sort samples in
        \<lparr>ls_count = length srt,
         p50_ms = nearest_rank srt 50,
         p95_ms = nearest_rank srt 95,
         max_ms = last srt\<rparr>)"

record QueueTelemetrySummary =
  ts_queue_id :: string
  queue_wait :: LatencyStats
  throttle_wait :: LatencyStats
  provider_lat :: LatencyStats

record QueueTelemetrySamples =
  queue_wait_ms :: "nat list"
  throttle_wait_ms :: "nat list"
  provider_ms :: "nat list"

definition samples_default :: QueueTelemetrySamples where
  "samples_default = \<lparr>queue_wait_ms = [], throttle_wait_ms = [], provider_ms = []\<rparr>"

text \<open>The accumulator is a B-tree map: an association list kept sorted by key.\<close>

type_synonym QueueTelemetryAccumulator = "(string \<times> QueueTelemetrySamples) list"

fun entry_modify ::
  "string \<Rightarrow> (QueueTelemetrySamples \<Rightarrow> QueueTelemetrySamples) \<Rightarrow> QueueTelemetryAccumulator
    \<Rightarrow> QueueTelemetryAccumulator" where
  "entry_modify k f [] = [(k, f samples_default)]"
| "entry_modify k f ((k', v) # xs) =
     (if k < k' then (k, f samples_default) # (k', v) # xs
      else if k = k' then (k', f v) # xs
      else (k', v) # entry_modify k f xs)"

definition observe_queue_wait ::
  "string \<Rightarrow> nat \<Rightarrow> QueueTelemetryAccumulator \<Rightarrow> QueueTelemetryAccumulator" where
  "observe_queue_wait q ms = entry_modify q (\<lambda>s. s\<lparr>queue_wait_ms := queue_wait_ms s @ [ms]\<rparr>)"

definition observe_throttle_wait ::
  "string \<Rightarrow> nat \<Rightarrow> QueueTelemetryAccumulator \<Rightarrow> QueueTelemetryAccumulator" where
  "observe_throttle_wait q ms =
     entry_modify q (\<lambda>s. s\<lparr>throttle_wait_ms := throttle_wait_ms s @ [ms]\<rparr>)"

definition observe_provider ::
  "string \<Rightarrow> nat \<Rightarrow> QueueTelemetryAccumulator \<Rightarrow> QueueTelemetryAccumulator" where
  "observe_provider q ms = entry_modify q (\<lambda>s. s\<lparr>provider_ms := provider_ms s @ [ms]\<rparr>)"

definition summaries :: "QueueTelemetryAccumulator \<Rightarrow> QueueTelemetrySummary list" where
  "summaries acc =
     map (\<lambda>(q, s).
       \<lparr>ts_queue_id = q,
        queue_wait = from_samples (queue_wait_ms s),
        throttle_wait = from_samples (throttle_wait_ms s),
        provider_lat = from_samples (provider_ms s)\<rparr>) acc"

section \<open>Meaning of the percentile\<close>

lemma div_ceil_bounds:
  assumes "0 < b"
  shows "a \<le> b * div_ceil a b" and "0 < a \<Longrightarrow> b * (div_ceil a b - 1) < a"
proof -
  have split: "a = b * (a div b) + a mod b" by simp
  have "a mod b < b" using assms by simp
  then have "a \<le> b + b * (a div b)" using split by linarith
  then show "a \<le> b * div_ceil a b"
    using split by (auto simp: div_ceil_def)
  show "b * (div_ceil a b - 1) < a" if "0 < a"
  proof (cases "a mod b = 0")
    case True
    with split that have "0 < a div b" by (metis gr0I mult_is_0 add.right_neutral)
    with True split assms that show ?thesis by (simp add: div_ceil_def right_diff_distrib')
  next
    case False
    with split have "b * (a div b) < a" by linarith
    with False show ?thesis by (simp add: div_ceil_def)
  qed
qed

lemma rank_in_range:
  assumes "xs \<noteq> []" and "p \<le> 100"
  shows "max (div_ceil (p * length xs) 100) 1 - 1 < length xs"
proof -
  have "100 * (div_ceil (p * length xs) 100 - 1) < p * length xs" if "0 < p * length xs"
    using div_ceil_bounds(2) [of 100 "p * length xs"] that by simp
  moreover have "p * length xs \<le> 100 * length xs" using assms(2) by simp
  ultimately show ?thesis using assms(1)
    by (cases "p * length xs") (auto simp: div_ceil_def max_def)
qed

lemma sorted_prefix_count:
  assumes "sorted xs" and "i < length xs"
  shows "Suc i \<le> length (filter (\<lambda>x. x \<le> xs ! i) xs)"
    and "length (filter (\<lambda>x. x < xs ! i) xs) \<le> i"
proof -
  have "\<forall>x \<in> set (take (Suc i) xs). x \<le> xs ! i"
    using assms by (auto simp: in_set_conv_nth sorted_iff_nth_mono)
  then have "filter (\<lambda>x. x \<le> xs ! i) (take (Suc i) xs) = take (Suc i) xs"
    by (simp add: filter_id_conv)
  then have "length (filter (\<lambda>x. x \<le> xs ! i) (take (Suc i) xs)) = Suc i"
    using assms by simp
  moreover have "length (filter (\<lambda>x. x \<le> xs ! i) (take (Suc i) xs @ drop (Suc i) xs))
      \<ge> length (filter (\<lambda>x. x \<le> xs ! i) (take (Suc i) xs))"
    by (simp only: filter_append length_append)
  ultimately show "Suc i \<le> length (filter (\<lambda>x. x \<le> xs ! i) xs)" by simp
  have "\<forall>x \<in> set (drop i xs). \<not> x < xs ! i"
    using assms by (auto simp: in_set_conv_nth sorted_iff_nth_mono not_less)
  then have "filter (\<lambda>x. x < xs ! i) (drop i xs) = []"
    by (simp add: filter_empty_conv)
  moreover have "length (filter (\<lambda>x. x < xs ! i) (take i xs)) \<le> i"
    by (rule order_trans [OF length_filter_le]) simp
  moreover have "filter (\<lambda>x. x < xs ! i) xs
      = filter (\<lambda>x. x < xs ! i) (take i xs) @ filter (\<lambda>x. x < xs ! i) (drop i xs)"
    by (metis append_take_drop_id filter_append)
  ultimately show "length (filter (\<lambda>x. x < xs ! i) xs) \<le> i" by simp
qed

lemma keys_entry_modify: "fst ` set (entry_modify k f acc) = insert k (fst ` set acc)"
  by (induction k f acc rule: entry_modify.induct) auto

lemma sorted_entry_modify:
  "sorted_wrt (<) (map fst acc) \<Longrightarrow> sorted_wrt (<) (map fst (entry_modify k f acc))"
proof (induction k f acc rule: entry_modify.induct)
  case (2 k f k' v xs)
  then show ?case
    using keys_entry_modify [of k f xs] by (auto simp: image_iff)
qed simp

lemma map_of_entry_modify:
  "map_of (entry_modify k f acc) =
     (map_of acc)(k \<mapsto> f (case map_of acc k of None \<Rightarrow> samples_default | Some v \<Rightarrow> v))"
  if "sorted_wrt (<) (map fst acc)"
  using that
proof (induction k f acc rule: entry_modify.induct)
  case (2 k f k' v xs)
  have "k < k' \<Longrightarrow> map_of xs k = None"
    using "2.prems" by (auto simp: map_of_eq_None_iff dest: less_trans)
  with 2 show ?case by (auto simp: fun_eq_iff)
qed (simp add: fun_eq_iff)

end
