(* ===== verification/Memory_Queue.thy ===== *)
theory Memory_Queue
  imports Queue_Types
begin

text \<open>
  Crate \<^verbatim>\<open>symbiotic-queue\<close>, file \<^verbatim>\<open>memory.rs\<close>: the in-process queue backend.

  The state is the record \<open>mq\<close> (\<^verbatim>\<open>struct State\<close>) with two fields more: \<open>poisoned\<close> is the
  poison flag of the mutex that guards it (set when code panics while holding the lock) and
  \<open>emitted\<close> lists what the event sink has been handed. Every operation is a function from
  the state to a result and the new state, because an error does not undo what the
  operation did before. Clock readings, the new item identity and the iteration order of a
  hash set are arguments. A panic inside the lock (\<^verbatim>\<open>items[id]\<close>, \<^verbatim>\<open>expect\<close>, an overflowing
  \<^verbatim>\<open>+\<close> on instants) is the result \<open>Panic\<close> and poisons the lock.
\<close>

section \<open>State\<close>

record mq =
  items :: "(string \<times> QueueItem) list"
  idempotency :: "((string \<times> string) \<times> string) list"
  running :: "(string \<times> string list) list"
  terminal :: "string list"
  retain_terminal :: nat
  cooldowns :: "(string \<times> time) list"
  poisoned :: bool
  emitted :: "(QueueItem \<times> DiagnosticCode option) list"

abbreviation item_at :: "mq \<Rightarrow> string \<Rightarrow> QueueItem option" where
  "item_at s iid \<equiv> map_of (items s) iid"

definition put_item :: "string \<Rightarrow> QueueItem \<Rightarrow> mq \<Rightarrow> mq" where
  "put_item iid it s = s\<lparr>items := AList.update iid it (items s)\<rparr>"

definition with_terminal_retention :: "nat \<Rightarrow> mq" where
  "with_terminal_retention retain =
     \<lparr>items = [], idempotency = [], running = [], terminal = [],
      retain_terminal = max retain 1, cooldowns = [], poisoned = False, emitted = []\<rparr>"

definition DEFAULT_RETAINED_TERMINAL_ITEMS :: nat where
  "DEFAULT_RETAINED_TERMINAL_ITEMS = 10000"

definition mq_new :: mq where
  "mq_new = with_terminal_retention DEFAULT_RETAINED_TERMINAL_ITEMS"

definition mq_len :: "mq \<Rightarrow> nat" where
  "mq_len s = (if poisoned s then 0 else length (items s))"

definition mq_is_empty :: "mq \<Rightarrow> bool" where
  "mq_is_empty s \<longleftrightarrow> mq_len s = 0"

text \<open>Code that runs under the lock: \<open>None\<close> is a panic, which poisons the lock.\<close>

definition locked ::
  "(mq \<Rightarrow> ((QueueError + 'a) \<times> mq) option) \<Rightarrow> mq \<Rightarrow> 'a outcome \<times> mq" where
  "locked body s =
     (if poisoned s then (Err (Unavailable MemoryQueueLockPoisoned), s)
      else case body s of
        None \<Rightarrow> (Panic, s\<lparr>poisoned := True\<rparr>)
      | Some (Inl e, s') \<Rightarrow> (Err e, s')
      | Some (Inr a, s') \<Rightarrow> (Ok a, s'))"

definition emit :: "(QueueItem \<times> DiagnosticCode option) list \<Rightarrow> mq \<Rightarrow> mq" where
  "emit evs s = s\<lparr>emitted := emitted s @ evs\<rparr>"

definition lease_events :: "QueueItem list \<Rightarrow> (QueueItem \<times> DiagnosticCode option) list" where
  "lease_events its = map (\<lambda>it. (it, Some LeaseExpired)) its"

section \<open>Index maintenance\<close>

definition running_count :: "mq \<Rightarrow> string \<Rightarrow> nat" where
  "running_count s q = (case map_of (running s) q of None \<Rightarrow> 0 | Some ids \<Rightarrow> length ids)"

definition evict_one :: "string \<Rightarrow> mq \<Rightarrow> mq" where
  "evict_one evicted s =
     (case item_at s evicted of
        None \<Rightarrow> s
      | Some it \<Rightarrow>
          let s1 = s\<lparr>items := AList.delete evicted (items s)\<rparr> in
          (case idempotency_key it of
             None \<Rightarrow> s1
           | Some key \<Rightarrow>
               if map_of (idempotency s1) (queue_id it, key) = Some evicted
               then s1\<lparr>idempotency := AList.delete (queue_id it, key) (idempotency s1)\<rparr>
               else s1))"

function evict_terminal :: "mq \<Rightarrow> mq" where
  "evict_terminal s =
     (if retain_terminal s < length (terminal s)
      then (case terminal s of
              [] \<Rightarrow> s
            | evicted # rest \<Rightarrow> evict_terminal (evict_one evicted (s\<lparr>terminal := rest\<rparr>)))
      else s)"
  by pat_completeness auto

lemma terminal_evict_one [simp]: "terminal (evict_one x s) = terminal s"
  by (auto simp: evict_one_def Let_def split: option.splits)

termination evict_terminal
  by (relation "measure (\<lambda>s. length (terminal s))") (auto split: option.splits)

declare evict_terminal.simps [simp del]

definition set_status :: "string \<Rightarrow> QueueStatus \<Rightarrow> mq \<Rightarrow> mq" where
  "set_status iid st s =
     (case item_at s iid of
        None \<Rightarrow> s
      | Some it \<Rightarrow>
          let previous = status it;
              q = queue_id it;
              s1 = put_item iid (it\<lparr>status := st\<rparr>) s;
              s2 = (if previous = Running \<and> st \<noteq> Running then
                      (case map_of (running s1) q of
                         None \<Rightarrow> s1
                       | Some ids \<Rightarrow>
                           let ids' = removeAll iid ids in
                           if ids' = [] then s1\<lparr>running := AList.delete q (running s1)\<rparr>
                           else s1\<lparr>running := AList.update q ids' (running s1)\<rparr>)
                    else s1);
              s3 = (if st = Running \<and> previous \<noteq> Running then
                      s2\<lparr>running := AList.update q
                          (List.insert iid (case map_of (running s2) q of None \<Rightarrow> [] | Some ids \<Rightarrow> ids))
                          (running s2)\<rparr>
                    else s2)
          in if is_terminal st then evict_terminal (s3\<lparr>terminal := terminal s3 @ [iid]\<rparr>) else s3)"

section \<open>Leases\<close>

definition lapsed :: "time \<Rightarrow> QueueItem \<Rightarrow> bool" where
  "lapsed now it = (case lease_until it of None \<Rightarrow> False | Some until \<Rightarrow> until < now)"

definition reclaim_fields :: "time \<Rightarrow> QueueItem \<Rightarrow> QueueItem" where
  "reclaim_fields now it =
     it\<lparr>lease_owner := None, lease_until := None, updated_at := now,
        last_error := Some LeaseExpired, last_error_class := Some FC_Queue\<rparr>"

fun reclaim_loop :: "time \<Rightarrow> string list \<Rightarrow> mq \<Rightarrow> (QueueItem list \<times> mq) option" where
  "reclaim_loop now [] s = Some ([], s)"
| "reclaim_loop now (iid # ids) s =
     (case item_at s iid of
        None \<Rightarrow> None
      | Some it \<Rightarrow>
          let st = (if max_attempts it \<le> attempt it then Dead else Failed);
              s1 = set_status iid st s
          in case item_at s1 iid of
               None \<Rightarrow> None
             | Some it1 \<Rightarrow>
                 let it2 = reclaim_fields now it1 in
                 (case reclaim_loop now ids (put_item iid it2 s1) of
                    None \<Rightarrow> None
                  | Some (rs, s2) \<Rightarrow> Some (it2 # rs, s2)))"

text \<open>\<open>order\<close> is the order in which the hash set of running identities is iterated.\<close>

definition reclaim_expired ::
  "(string list \<Rightarrow> string list) \<Rightarrow> string \<Rightarrow> time \<Rightarrow> mq \<Rightarrow> (QueueItem list \<times> mq) option" where
  "reclaim_expired order q now s =
     (let ids = (case map_of (running s) q of None \<Rightarrow> [] | Some ids \<Rightarrow> order ids) in
      if list_ex (\<lambda>iid. item_at s iid = None) ids then None
      else reclaim_loop now
             (filter (\<lambda>iid. case item_at s iid of None \<Rightarrow> False | Some it \<Rightarrow> lapsed now it) ids) s)"

definition retire_if_exhausted :: "string \<Rightarrow> time \<Rightarrow> mq \<Rightarrow> QueueItem option \<times> mq" where
  "retire_if_exhausted iid now s =
     (case item_at s iid of
        None \<Rightarrow> (None, s)
      | Some it \<Rightarrow>
          if \<not> is_waiting (status it) \<or> attempt it < max_attempts it then (None, s)
          else
            let it1 = it\<lparr>updated_at := now,
                  last_error := (case last_error it of None \<Rightarrow> Some AttemptBudgetExhausted | e \<Rightarrow> e)\<rparr>;
                s1 = set_status iid Dead (put_item iid it1 s)
            in (item_at s1 iid, s1))"

definition lease :: "string \<Rightarrow> string \<Rightarrow> time \<Rightarrow> time \<Rightarrow> mq \<Rightarrow> mq option" where
  "lease iid worker until now s =
     (let s1 = set_status iid Running s in
      case item_at s1 iid of
        None \<Rightarrow> None
      | Some it \<Rightarrow>
          Some (put_item iid
            (it\<lparr>attempt := saturating_add_u32 (attempt it) 1, lease_owner := Some worker,
               lease_until := Some until, updated_at := now\<rparr>) s1))"

fun lease_all :: "string list \<Rightarrow> string \<Rightarrow> time \<Rightarrow> time \<Rightarrow> mq \<Rightarrow> (QueueItem list \<times> mq) option" where
  "lease_all [] worker until now s = Some ([], s)"
| "lease_all (iid # ids) worker until now s =
     (case lease iid worker until now s of
        None \<Rightarrow> None
      | Some s1 \<Rightarrow>
          (case item_at s1 iid of
             None \<Rightarrow> None
           | Some it \<Rightarrow>
               (case lease_all ids worker until now s1 of
                  None \<Rightarrow> None
                | Some (its, s2) \<Rightarrow> Some (it # its, s2))))"

section \<open>Enqueue\<close>

definition new_item :: "EnqueueRequest \<Rightarrow> string \<Rightarrow> time \<Rightarrow> QueueItem" where
  "new_item rq iid now =
     \<lparr>item_id = iid, queue_id = rq_queue_id rq, kind = rq_kind rq, payload = rq_payload rq,
      status = Pending, attempt = 0,
      max_attempts = max (case rq_max_attempts rq of None \<Rightarrow> 3 | Some m \<Rightarrow> m) 1,
      run_after = (case rq_run_after rq of None \<Rightarrow> now | Some t \<Rightarrow> t),
      lease_owner = None, lease_until = None, idempotency_key = rq_idempotency_key rq,
      last_error = None, last_error_class = None, created_at = now, updated_at = now\<rparr>"

definition existing_for :: "EnqueueRequest \<Rightarrow> mq \<Rightarrow> QueueItem option" where
  "existing_for rq s =
     (case rq_idempotency_key rq of
        None \<Rightarrow> None
      | Some key \<Rightarrow>
          (case map_of (idempotency s) (rq_queue_id rq, key) of
             None \<Rightarrow> None
           | Some iid \<Rightarrow> item_at s iid))"

text \<open>Whether the existing item answers the request instead of a new one.\<close>

definition deduplicates :: "EnqueueRequest \<Rightarrow> string option \<Rightarrow> QueueItem \<Rightarrow> bool" where
  "deduplicates rq replacing ex =
     (let active = is_active (status ex);
          superseded = (case replacing of None \<Rightarrow> False | Some current \<Rightarrow> item_id ex \<noteq> current);
          reclaimed = (replacing \<noteq> None \<and> status ex = Failed \<and> last_error ex = Some LeaseExpired)
      in active \<and> \<not> reclaimed \<or> \<not> rq_force rq \<or> superseded)"

definition stop_replaced :: "string option \<Rightarrow> mq \<Rightarrow> mq" where
  "stop_replaced replacing s =
     (case replacing of
        None \<Rightarrow> s
      | Some current \<Rightarrow>
          (case item_at s current of
             None \<Rightarrow> s
           | Some it \<Rightarrow>
               if status it = Failed then
                 let s1 = set_status current Stopped s in
                 (case item_at s1 current of
                    None \<Rightarrow> s1
                  | Some it1 \<Rightarrow> put_item current (it1\<lparr>last_error_class := Some FC_Queue\<rparr>) s1)
               else s))"

definition insert_item :: "QueueItem \<Rightarrow> mq \<Rightarrow> mq" where
  "insert_item it s =
     put_item (item_id it) it
       (case idempotency_key it of
          None \<Rightarrow> s
        | Some key \<Rightarrow> s\<lparr>idempotency := AList.update (queue_id it, key) (item_id it) (idempotency s)\<rparr>)"

definition enqueue_inner ::
  "EnqueueRequest \<Rightarrow> string option \<Rightarrow> string \<Rightarrow> time \<Rightarrow> mq \<Rightarrow> EnqueueOutcome outcome \<times> mq" where
  "enqueue_inner rq replacing new_id now s =
     (if blank (rq_kind rq) then (Err (InvalidRequest QueueItemKindMustNotBeEmpty), s)
      else locked (\<lambda>s.
        case existing_for rq s of
          Some ex \<Rightarrow>
            if deduplicates rq replacing ex then
              Some (Inr \<lparr>out_item = ex,
                disposition = (if is_active (status ex) then ActiveDuplicate else TerminalDuplicate)\<rparr>, s)
            else
              (let it = new_item rq new_id now in
               Some (Inr \<lparr>out_item = it, disposition = Inserted\<rparr>,
                 emit [(it, None)] (insert_item it (stop_replaced replacing s))))
        | None \<Rightarrow>
            (let it = new_item rq new_id now in
             Some (Inr \<lparr>out_item = it, disposition = Inserted\<rparr>,
               emit [(it, None)] (insert_item it (stop_replaced replacing s))))) s)"

definition enqueue :: "EnqueueRequest \<Rightarrow> string \<Rightarrow> time \<Rightarrow> mq \<Rightarrow> EnqueueOutcome outcome \<times> mq" where
  "enqueue rq new_id now s = enqueue_inner rq None new_id now s"

definition enqueue_replacing ::
  "EnqueueRequest \<Rightarrow> string \<Rightarrow> string \<Rightarrow> time \<Rightarrow> mq \<Rightarrow> EnqueueOutcome outcome \<times> mq" where
  "enqueue_replacing rq current new_id now s =
     enqueue_inner (rq\<lparr>rq_force := True\<rparr>) (Some current) new_id now s"

section \<open>Claim\<close>

definition ready_items :: "string \<Rightarrow> time \<Rightarrow> mq \<Rightarrow> QueueItem list" where
  "ready_items q now s =
     sort_key (\<lambda>it. (run_after it, created_at it, item_id it))
       (filter (\<lambda>it. queue_id it = q \<and> is_waiting (status it) \<and> attempt it < max_attempts it \<and>
                     run_after it \<le> now) (map snd (items s)))"

definition claim_limit :: "ClaimRequest \<Rightarrow> mq \<Rightarrow> nat" where
  "claim_limit rq s =
     (let limit = max (cl_limit rq) 1 in
      case cl_max_in_flight rq of
        None \<Rightarrow> limit
      | Some cap \<Rightarrow> min limit (cap - running_count s (cl_queue_id rq)))"

text \<open>\<open>now\<close> is read before the lock is taken, \<open>now2\<close> inside it, for the cooldown.\<close>

definition claim ::
  "chrono \<Rightarrow> (string list \<Rightarrow> string list) \<Rightarrow> ClaimRequest \<Rightarrow> time \<Rightarrow> time \<Rightarrow> mq
    \<Rightarrow> QueueItem list outcome \<times> mq" where
  "claim ch order rq now now2 s =
     (if blank (cl_worker_id rq) then (Err (InvalidRequest WorkerIdMustNotBeEmpty), s)
      else case lease_deadline ch now (cl_lease_seconds rq) of
        Inl e \<Rightarrow> (Err e, s)
      | Inr until \<Rightarrow> locked (\<lambda>s.
          let q = cl_queue_id rq in
          if (case map_of (cooldowns s) q of None \<Rightarrow> False | Some u \<Rightarrow> now2 < u)
          then Some (Inr [], s)
          else case reclaim_expired order q now s of
            None \<Rightarrow> None
          | Some (reclaimed, s1) \<Rightarrow>
              (let ids = map item_id (take (claim_limit rq s1) (ready_items q now s1)) in
               case lease_all ids (cl_worker_id rq) until now s1 of
                 None \<Rightarrow> None
               | Some (claimed, s2) \<Rightarrow>
                   Some (Inr claimed,
                     emit (lease_events reclaimed @ map (\<lambda>it. (it, None)) claimed) s2))) s)"

definition claim_item ::
  "chrono \<Rightarrow> (string list \<Rightarrow> string list) \<Rightarrow> string \<Rightarrow> string \<Rightarrow> nat \<Rightarrow> nat option \<Rightarrow> time \<Rightarrow> time
    \<Rightarrow> mq \<Rightarrow> QueueItem option outcome \<times> mq" where
  "claim_item ch order iid worker secs max_in_flight now now2 s =
     (if blank worker then (Err (InvalidRequest WorkerIdMustNotBeEmpty), s)
      else case lease_deadline ch now secs of
        Inl e \<Rightarrow> (Err e, s)
      | Inr until \<Rightarrow> locked (\<lambda>s.
          case item_at s iid of
            None \<Rightarrow> Some (Inl (NotFound InvalidConfiguration), s)
          | Some it0 \<Rightarrow>
              (case reclaim_expired order (queue_id it0) now s of
                 None \<Rightarrow> None
               | Some (reclaimed, s1) \<Rightarrow>
                   if item_at s1 iid = None then
                     Some (Inl (NotFound InvalidConfiguration), emit (lease_events reclaimed) s1)
                   else
                     let (retired, s2) = retire_if_exhausted iid now s1;
                         retired_events = (case retired of None \<Rightarrow> [] | Some it \<Rightarrow> [(it, last_error it)])
                     in case item_at s2 iid of
                          None \<Rightarrow> None
                        | Some current \<Rightarrow>
                            if is_waiting (status current) \<and> run_after current \<le> now \<and>
                               (case map_of (cooldowns s2) (queue_id it0) of None \<Rightarrow> True | Some u \<Rightarrow> u \<le> now2) \<and>
                               (case max_in_flight of None \<Rightarrow> True
                                | Some cap \<Rightarrow> running_count s2 (queue_id it0) < cap)
                            then (case lease iid worker until now s2 of
                                    None \<Rightarrow> None
                                  | Some s3 \<Rightarrow>
                                      (case item_at s3 iid of
                                         None \<Rightarrow> None
                                       | Some claimed \<Rightarrow>
                                           Some (Inr (Some claimed),
                                             emit (lease_events reclaimed @ retired_events @ [(claimed, None)]) s3)))
                            else Some (Inr None, emit (lease_events reclaimed @ retired_events) s2))) s)"

definition get_item :: "string \<Rightarrow> mq \<Rightarrow> QueueItem option outcome \<times> mq" where
  "get_item iid s = locked (\<lambda>s. Some (Inr (item_at s iid), s)) s"

section \<open>Fenced updates\<close>

text \<open>
  \<open>update_running\<close> runs \<open>upd\<close> only for the worker that holds a live lease. \<open>upd\<close> receives
  the item; it returns an error, a panic (\<open>None\<close>) or the new item and its new status.
\<close>

definition update_running ::
  "string \<Rightarrow> string \<Rightarrow> time \<Rightarrow> (QueueItem \<Rightarrow> (QueueError + (QueueItem \<times> QueueStatus)) option)
    \<Rightarrow> mq \<Rightarrow> ((QueueError + QueueItem) \<times> mq) option" where
  "update_running iid worker now upd s =
     (case item_at s iid of
        None \<Rightarrow> Some (Inl (NotFound InvalidConfiguration), s)
      | Some current \<Rightarrow>
          if status current \<noteq> Running then Some (Inl (NotRunning InvalidConfiguration), s)
          else if lease_owner current \<noteq> Some worker then Some (Inl (LeaseMismatch InvalidConfiguration), s)
          else if (case lease_until current of None \<Rightarrow> True | Some until \<Rightarrow> until < now)
          then Some (Inl (LeaseMismatch InvalidConfiguration), s)
          else (case upd current of
            None \<Rightarrow> None
          | Some (Inl e) \<Rightarrow> Some (Inl e, s)
          | Some (Inr (it1, st)) \<Rightarrow>
              (let s1 = set_status iid st (put_item iid it1 s) in
               case item_at s1 iid of None \<Rightarrow> None | Some it2 \<Rightarrow> Some (Inr it2, s1))))"

definition emit_result ::
  "DiagnosticCode option \<Rightarrow> (QueueItem \<Rightarrow> 'a) \<Rightarrow> ((QueueError + QueueItem) \<times> mq) option
    \<Rightarrow> ((QueueError + 'a) \<times> mq) option" where
  "emit_result err f r =
     (case r of
        None \<Rightarrow> None
      | Some (Inl e, s) \<Rightarrow> Some (Inl e, s)
      | Some (Inr it, s) \<Rightarrow> Some (Inr (f it), emit [(it, err)] s))"

definition heartbeat :: "chrono \<Rightarrow> string \<Rightarrow> string \<Rightarrow> nat \<Rightarrow> time \<Rightarrow> mq \<Rightarrow> unit outcome \<times> mq" where
  "heartbeat ch iid worker secs now s =
     locked (\<lambda>s. emit_result None (\<lambda>_. ())
       (update_running iid worker now
         (\<lambda>it. Some (case lease_deadline ch now secs of
                  Inl e \<Rightarrow> Inl e
                | Inr until \<Rightarrow> Inr (it\<lparr>lease_until := Some until, updated_at := now\<rparr>, Running))) s)) s"

definition complete :: "string \<Rightarrow> string \<Rightarrow> time \<Rightarrow> mq \<Rightarrow> unit outcome \<times> mq" where
  "complete iid worker now s =
     locked (\<lambda>s. emit_result None (\<lambda>_. ())
       (update_running iid worker now
         (\<lambda>it. Some (Inr (it\<lparr>lease_owner := None, lease_until := None, last_error := None,
                  last_error_class := None, updated_at := now\<rparr>, Succeeded))) s)) s"

definition fail_status :: "Failure \<Rightarrow> QueueItem \<Rightarrow> QueueStatus" where
  "fail_status f it =
     (if fl_run_after f = None then Stopped
      else if max_attempts it \<le> attempt it then Dead else Failed)"

definition fail_outcome :: "QueueStatus \<Rightarrow> FailOutcome" where
  "fail_outcome st = (if st = Stopped then FailStopped else if st = Dead then MovedToDead else RetryScheduled)"

definition fail_with ::
  "chrono \<Rightarrow> string \<Rightarrow> string \<Rightarrow> Failure \<Rightarrow> time \<Rightarrow> mq \<Rightarrow> FailOutcome outcome \<times> mq" where
  "fail_with ch iid worker f now s =
     locked (\<lambda>s. emit_result (Some (fl_error f)) (\<lambda>it. fail_outcome (status it))
       (update_running iid worker now
         (\<lambda>it. case (case fl_run_after f of Some t \<Rightarrow> Some t | None \<Rightarrow> checked_add_secs ch now 1) of
                  None \<Rightarrow> None
                | Some t \<Rightarrow>
                    Some (Inr (it\<lparr>run_after := t, lease_owner := None, lease_until := None,
                      last_error := Some (fl_error f), last_error_class := fl_error_class f,
                      updated_at := now\<rparr>, fail_status f it))) s)) s"

text \<open>
  \<open>fail\<close> computes the deadline before it takes the lock: \<^verbatim>\<open>as i64\<close> wraps, and a sum outside
  the calendar panics without poisoning the lock.
\<close>

definition fail ::
  "chrono \<Rightarrow> string \<Rightarrow> string \<Rightarrow> DiagnosticCode \<Rightarrow> nat option \<Rightarrow> time \<Rightarrow> time \<Rightarrow> mq
    \<Rightarrow> FailOutcome outcome \<times> mq" where
  "fail ch iid worker err retry now0 now s =
     (case checked_add_secs ch now0 (as_i64 (case retry of None \<Rightarrow> 1 | Some n \<Rightarrow> n)) of
        None \<Rightarrow> (Panic, s)
      | Some t \<Rightarrow>
          fail_with ch iid worker \<lparr>fl_error = err, fl_error_class = None, fl_run_after = Some t\<rparr> now s)"

section \<open>Maintenance\<close>

definition reclaim_expired_leases ::
  "(string list \<Rightarrow> string list) \<Rightarrow> string \<Rightarrow> time \<Rightarrow> mq \<Rightarrow> nat outcome \<times> mq" where
  "reclaim_expired_leases order q now s =
     locked (\<lambda>s. case reclaim_expired order q now s of
        None \<Rightarrow> None
      | Some (reclaimed, s1) \<Rightarrow> Some (Inr (length reclaimed), emit (lease_events reclaimed) s1)) s"

definition cooldown_until :: "string \<Rightarrow> mq \<Rightarrow> time option outcome \<times> mq" where
  "cooldown_until q s = locked (\<lambda>s. Some (Inr (map_of (cooldowns s) q), s)) s"

definition note_cooldown :: "string \<Rightarrow> time \<Rightarrow> mq \<Rightarrow> unit outcome \<times> mq" where
  "note_cooldown q until s =
     locked (\<lambda>s.
       let current = (case map_of (cooldowns s) q of None \<Rightarrow> until | Some u \<Rightarrow> u) in
       Some (Inr (), s\<lparr>cooldowns := AList.update q (if current < until then until else current) (cooldowns s)\<rparr>)) s"

end
