(* ===== verification/Memory_Queue_Inv.thy ===== *)
theory Memory_Queue_Inv
  imports Memory_Queue
begin

text \<open>
  The in-process queue keeps its indexes consistent and never panics under its lock.

  \<open>idx_inv\<close> relates the three indexes (idempotency keys, running sets, terminal window) to
  the items; \<open>item_ok\<close> is the well-formedness of one item (attempts within budget, a lease
  exactly while running). Both together are \<open>mq_inv\<close>. The lemmas go from the index
  operations (\<open>set_status\<close>, \<open>put_item\<close>, eviction) through the loops to the operations of
  the backend; \<open>mq_step\<close> is the transition relation of the whole backend.
\<close>

section \<open>Invariant\<close>

definition runset :: "mq \<Rightarrow> string \<Rightarrow> string set" where
  "runset s q = (case map_of (running s) q of None \<Rightarrow> {} | Some ids \<Rightarrow> set ids)"

definition idx_core :: "mq \<Rightarrow> bool" where
  "idx_core s \<longleftrightarrow>
     distinct (map fst (items s)) \<and>
     (\<forall>iid it. item_at s iid = Some it \<longrightarrow> item_id it = iid) \<and>
     (\<forall>q ids. map_of (running s) q = Some ids \<longrightarrow> distinct ids) \<and>
     (\<forall>q iid. iid \<in> runset s q \<longleftrightarrow>
        (\<exists>it. item_at s iid = Some it \<and> queue_id it = q \<and> status it = Running)) \<and>
     distinct (terminal s) \<and>
     (\<forall>iid. iid \<in> set (terminal s) \<longleftrightarrow> (\<exists>it. item_at s iid = Some it \<and> is_terminal (status it))) \<and>
     (\<forall>q k iid. map_of (idempotency s) (q, k) = Some iid \<longrightarrow>
        (\<exists>it. item_at s iid = Some it \<and> queue_id it = q \<and> idempotency_key it = Some k)) \<and>
     (\<forall>iid it k. item_at s iid = Some it \<and> idempotency_key it = Some k \<and> is_active (status it) \<longrightarrow>
        map_of (idempotency s) (queue_id it, k) = Some iid)"

definition idx_inv :: "mq \<Rightarrow> bool" where
  "idx_inv s \<longleftrightarrow> idx_core s \<and> length (terminal s) \<le> retain_terminal s \<and> 1 \<le> retain_terminal s"

definition item_ok :: "QueueItem \<Rightarrow> bool" where
  "item_ok it \<longleftrightarrow>
     attempt it \<le> max_attempts it \<and> attempt it \<le> u32_max \<and> 1 \<le> max_attempts it \<and>
     (status it = Running \<longleftrightarrow> lease_owner it \<noteq> None) \<and>
     (status it = Running \<longleftrightarrow> lease_until it \<noteq> None) \<and>
     (status it = Running \<longrightarrow> 1 \<le> attempt it)"

definition mq_inv :: "mq \<Rightarrow> bool" where
  "mq_inv s \<longleftrightarrow> idx_inv s \<and> (\<forall>iid it. item_at s iid = Some it \<longrightarrow> item_ok it)"

text \<open>What an index operation on \<open>iid\<close> may do to the items: only finished ones disappear.\<close>

definition evolves :: "mq \<Rightarrow> mq \<Rightarrow> string \<Rightarrow> QueueItem \<Rightarrow> bool" where
  "evolves s s' iid it' \<longleftrightarrow>
     item_at s' iid = Some it' \<and>
     (\<forall>j. j \<noteq> iid \<longrightarrow> item_at s' j = item_at s j \<or>
        item_at s' j = None \<and> (\<exists>x. item_at s j = Some x \<and> is_terminal (status x)))"

lemma idx_invD:
  assumes "idx_inv s"
  shows idx_distinct: "distinct (map fst (items s))"
    and idx_item_id: "item_at s iid = Some it \<Longrightarrow> item_id it = iid"
    and idx_running_distinct: "map_of (running s) q = Some ids \<Longrightarrow> distinct ids"
    and idx_runset: "iid \<in> runset s q \<longleftrightarrow>
          (\<exists>it. item_at s iid = Some it \<and> queue_id it = q \<and> status it = Running)"
    and idx_terminal_distinct: "distinct (terminal s)"
    and idx_terminal: "iid \<in> set (terminal s) \<longleftrightarrow>
          (\<exists>it. item_at s iid = Some it \<and> is_terminal (status it))"
    and idx_terminal_bound: "length (terminal s) \<le> retain_terminal s"
    and idx_retain: "1 \<le> retain_terminal s"
    and idx_key_item: "map_of (idempotency s) (q, k) = Some iid \<Longrightarrow>
          \<exists>it. item_at s iid = Some it \<and> queue_id it = q \<and> idempotency_key it = Some k"
    and idx_active_key: "item_at s iid = Some it \<Longrightarrow> idempotency_key it = Some k \<Longrightarrow>
          is_active (status it) \<Longrightarrow> map_of (idempotency s) (queue_id it, k) = Some iid"
  using assms unfolding idx_inv_def idx_core_def by blast+

section \<open>Frames\<close>

lemma evict_one_frame [simp]:
  "running (evict_one x s) = running s"
  "retain_terminal (evict_one x s) = retain_terminal s"
  "cooldowns (evict_one x s) = cooldowns s"
  "poisoned (evict_one x s) = poisoned s"
  "emitted (evict_one x s) = emitted s"
  by (auto simp: evict_one_def Let_def split: option.splits)

lemma evict_one_items [simp]: "items (evict_one x s) = AList.delete x (items s)"
  by (auto simp: evict_one_def Let_def split: option.splits
      intro!: delete_idem [symmetric] simp: map_of_eq_None_iff)

lemma evict_terminal_frame [simp]:
  "running (evict_terminal s) = running s"
  "retain_terminal (evict_terminal s) = retain_terminal s"
  "cooldowns (evict_terminal s) = cooldowns s"
  "poisoned (evict_terminal s) = poisoned s"
  "emitted (evict_terminal s) = emitted s"
proof (induction s rule: evict_terminal.induct)
  case (1 s)
  {
    case 1
    then show ?case by (subst evict_terminal.simps) (auto split: list.splits simp: "1.IH")
  next
    case 2
    then show ?case by (subst evict_terminal.simps) (auto split: list.splits simp: "1.IH")
  next
    case 3
    then show ?case by (subst evict_terminal.simps) (auto split: list.splits simp: "1.IH")
  next
    case 4
    then show ?case by (subst evict_terminal.simps) (auto split: list.splits simp: "1.IH")
  next
    case 5
    then show ?case by (subst evict_terminal.simps) (auto split: list.splits simp: "1.IH")
  }
qed

lemma put_item_frame [simp]:
  "idempotency (put_item i it s) = idempotency s"
  "running (put_item i it s) = running s"
  "terminal (put_item i it s) = terminal s"
  "retain_terminal (put_item i it s) = retain_terminal s"
  "cooldowns (put_item i it s) = cooldowns s"
  "poisoned (put_item i it s) = poisoned s"
  "emitted (put_item i it s) = emitted s"
  "items (put_item i it s) = AList.update i it (items s)"
  by (simp_all add: put_item_def)

lemma emit_frame [simp]:
  "items (emit evs s) = items s"
  "idempotency (emit evs s) = idempotency s"
  "running (emit evs s) = running s"
  "terminal (emit evs s) = terminal s"
  "retain_terminal (emit evs s) = retain_terminal s"
  "cooldowns (emit evs s) = cooldowns s"
  "poisoned (emit evs s) = poisoned s"
  "emitted (emit evs s) = emitted s @ evs"
  by (simp_all add: emit_def)

lemma set_status_frame [simp]:
  "retain_terminal (set_status i st s) = retain_terminal s"
  "cooldowns (set_status i st s) = cooldowns s"
  "poisoned (set_status i st s) = poisoned s"
  "emitted (set_status i st s) = emitted s"
  by (auto simp: set_status_def Let_def split: option.splits)

lemma idx_core_frame [simp]:
  "idx_core (emit evs s) = idx_core s"
  "idx_core (s\<lparr>retain_terminal := n\<rparr>) = idx_core s"
  "idx_core (s\<lparr>cooldowns := c\<rparr>) = idx_core s"
  by (simp_all add: idx_core_def runset_def)

lemma idx_inv_emit [simp]: "idx_inv (emit evs s) = idx_inv s"
  by (simp add: idx_inv_def)

lemma mq_inv_emit [simp]: "mq_inv (emit evs s) = mq_inv s"
  by (simp add: mq_inv_def)

section \<open>Changing a status\<close>

text \<open>Under the invariant at most one item is evicted, the oldest.\<close>

lemma evict_terminal_once:
  assumes "length (terminal s) \<le> Suc (retain_terminal s)" and "1 \<le> retain_terminal s"
  shows "evict_terminal s =
    (if retain_terminal s < length (terminal s)
     then evict_one (hd (terminal s)) (s\<lparr>terminal := tl (terminal s)\<rparr>) else s)"
proof (cases "retain_terminal s < length (terminal s)")
  case True
  then obtain x xs where t: "terminal s = x # xs" by (cases "terminal s") auto
  let ?s = "evict_one x (s\<lparr>terminal := xs\<rparr>)"
  have "\<not> retain_terminal ?s < length (terminal ?s)" using assms t by simp
  then have "evict_terminal ?s = ?s" by (subst evict_terminal.simps) simp
  with True t show ?thesis by (subst evict_terminal.simps) simp
next
  case False
  then show ?thesis by (subst evict_terminal.simps) simp
qed

definition unindex_running :: "string \<Rightarrow> QueueItem \<Rightarrow> QueueStatus \<Rightarrow> mq \<Rightarrow> (string \<times> string list) list" where
  "unindex_running iid it st s =
     (if status it = Running \<and> st \<noteq> Running then
        (case map_of (running s) (queue_id it) of
           None \<Rightarrow> running s
         | Some ids \<Rightarrow>
             if removeAll iid ids = [] then AList.delete (queue_id it) (running s)
             else AList.update (queue_id it) (removeAll iid ids) (running s))
      else if st = Running \<and> status it \<noteq> Running then
        AList.update (queue_id it)
          (List.insert iid (case map_of (running s) (queue_id it) of None \<Rightarrow> [] | Some ids \<Rightarrow> ids))
          (running s)
      else running s)"

lemma set_status_alt:
  assumes "item_at s iid = Some it"
  shows "set_status iid st s =
    (let s1 = s\<lparr>items := AList.update iid (it\<lparr>status := st\<rparr>) (items s),
               running := unindex_running iid it st s\<rparr> in
     if is_terminal st then evict_terminal (s1\<lparr>terminal := terminal s @ [iid]\<rparr>) else s1)"
  using assms
  by (auto simp: set_status_def unindex_running_def Let_def put_item_def split: option.splits)

lemma runset_update:
  assumes "idx_inv s" and "item_at s iid = Some it"
  shows "(case map_of (unindex_running iid it st s) q of None \<Rightarrow> {} | Some ids \<Rightarrow> set ids) =
    (if q = queue_id it then (if st = Running then insert iid (runset s q) else runset s q - {iid})
     else runset s q)"
proof -
  have nrun: "status it \<noteq> Running \<Longrightarrow> iid \<notin> runset s q" for q
    using assms idx_runset [OF assms(1)] by auto
  have run: "status it = Running \<Longrightarrow> iid \<in> runset s (queue_id it)"
    using assms idx_runset [OF assms(1)] by auto
  show ?thesis
  proof (cases "q = queue_id it")
    case False
    then show ?thesis by (auto simp: unindex_running_def runset_def split: option.split)
  next
    case True
    show ?thesis
    proof (cases "status it = Running")
      case r: True
      with run obtain ids where ids: "map_of (running s) q = Some ids" "iid \<in> set ids"
        using True by (auto simp: runset_def split: option.splits)
      have "removeAll iid ids = [] \<longleftrightarrow> set ids - {iid} = {}"
        by (metis set_removeAll set_empty)
      with True r ids show ?thesis
        by (auto simp: unindex_running_def runset_def)
    next
      case False
      with True nrun [of q] show ?thesis
        by (auto simp: unindex_running_def runset_def split: option.split)
    qed
  qed
qed

lemma distinct_running_update:
  assumes "idx_inv s" and "map_of (unindex_running iid it st s) q = Some ids"
  shows "distinct ids"
proof -
  note d = idx_running_distinct [OF assms(1)]
  show ?thesis
    using assms(2)
    by (auto simp: unindex_running_def distinct_removeAll split: option.splits if_splits dest: d)
qed

lemma idx_restatus:
  assumes inv: "idx_inv s" and it: "item_at s iid = Some it" and act: "is_active (status it)"
    and t: "t = (if is_terminal st then terminal s @ [iid] else terminal s)"
    and r: "length t \<le> r" "1 \<le> r"
  shows "idx_inv (s\<lparr>items := AList.update iid (it\<lparr>status := st\<rparr>) (items s),
    running := unindex_running iid it st s, terminal := t, retain_terminal := r\<rparr>)"
    (is "idx_inv ?s")
proof -
  note D = idx_invD [OF inv]
  have items: "item_at ?s j = (if j = iid then Some (it\<lparr>status := st\<rparr>) else item_at s j)" for j
    by simp
  have id: "item_id it = iid" using D(2) it by blast
  have rs: "runset ?s q = (if q = queue_id it
      then (if st = Running then insert iid (runset s q) else runset s q - {iid}) else runset s q)" for q
    using runset_update [OF inv it, of st q] by (simp add: runset_def)
  have run: "j \<in> runset ?s q \<longleftrightarrow>
      (\<exists>x. item_at ?s j = Some x \<and> queue_id x = q \<and> status x = Running)" for j q
    unfolding rs items using D(4) it by auto
  have nt: "iid \<notin> set (terminal s)"
    using D(6) it act by (auto simp: is_terminal_iff)
  have trm: "j \<in> set t \<longleftrightarrow> (\<exists>x. item_at ?s j = Some x \<and> is_terminal (status x))" for j
    unfolding t items using D(6) it nt by auto
  have key: "map_of (idempotency s) (q, k) = Some j \<Longrightarrow>
      \<exists>x. item_at ?s j = Some x \<and> queue_id x = q \<and> idempotency_key x = Some k" for q k j
    unfolding items using D(9) [of q k j] it by auto
  have akey: "item_at ?s j = Some x \<Longrightarrow> idempotency_key x = Some k \<Longrightarrow> is_active (status x) \<Longrightarrow>
      map_of (idempotency s) (queue_id x, k) = Some j" for j x k
    unfolding items using D(10) it act by (auto split: if_splits)
  show ?thesis
    unfolding idx_inv_def idx_core_def
  proof (intro conjI allI impI)
    show "distinct (map fst (items ?s))" using D(1) by simp
    show "item_id x = j" if "item_at ?s j = Some x" for j x
      using that D(2) [of j x] id unfolding items by (auto split: if_splits)
    show "distinct ids" if "map_of (running ?s) q = Some ids" for q ids
      using that distinct_running_update [OF inv, of iid it st q ids] by simp
    show "distinct (terminal ?s)" using D(5) nt by (simp add: t)
  qed (use run trm key akey r in auto)
qed

lemma idx_evict:
  assumes inv: "idx_inv (s\<lparr>retain_terminal := Suc (retain_terminal s)\<rparr>)" and r: "1 \<le> retain_terminal s"
  shows "idx_inv (evict_terminal s)"
proof -
  let ?u = "s\<lparr>retain_terminal := Suc (retain_terminal s)\<rparr>"
  note D = idx_invD [OF inv, simplified]
  have rs: "runset ?u = runset s" by (simp add: runset_def fun_eq_iff)
  have len: "length (terminal s) \<le> Suc (retain_terminal s)" using D(7) by simp
  show ?thesis
  proof (cases "retain_terminal s < length (terminal s)")
    case False
    then have "evict_terminal s = s" using evict_terminal_once [OF len r] by simp
    with inv r False show ?thesis by (simp add: idx_inv_def)
  next
    case True
    then obtain x xs where t: "terminal s = x # xs" by (cases "terminal s") auto
    let ?v = "evict_one x (s\<lparr>terminal := xs\<rparr>)"
    have ev: "evict_terminal s = ?v" using evict_terminal_once [OF len r] True t by simp
    obtain it where it: "item_at s x = Some it" "is_terminal (status it)"
      using D(6) [of x] t by auto
    have items: "item_at ?v j = (if j = x then None else item_at s j)" for j by simp
    have idem: "map_of (idempotency ?v) (q, k) = Some j \<longleftrightarrow>
        map_of (idempotency s) (q, k) = Some j \<and> j \<noteq> x" for q k j
    proof -
      have kx: "q = queue_id it \<and> idempotency_key it = Some k"
        if "map_of (idempotency s) (q, k) = Some x" for q k
        using D(9) [OF that] it by auto
      show ?thesis
      proof (cases "idempotency_key it")
        case None
        then show ?thesis using kx [of q k] it(1) by (auto simp: evict_one_def)
      next
        case (Some key)
        show ?thesis
        proof (cases "(q, k) = (queue_id it, key)")
          case True
          with Some it(1) show ?thesis by (auto simp: evict_one_def Let_def)
        next
          case False
          with kx Some have "map_of (idempotency s) (q, k) \<noteq> Some x" by auto
          with False Some it(1) show ?thesis by (auto simp: evict_one_def Let_def)
        qed
      qed
    qed
    have rv: "runset ?v = runset s" by (simp add: runset_def fun_eq_iff)
    have nr: "x \<notin> runset s q" for q using D(4) [of x q] it by (auto simp: rs)
    have nx: "x \<notin> set xs" and dxs: "distinct xs" using D(5) t by auto
    show ?thesis
      unfolding ev idx_inv_def idx_core_def
    proof (intro conjI allI impI)
      show "distinct (map fst (items ?v))" using D(1) by simp
      show "item_id y = j" if "item_at ?v j = Some y" for j y
        using that D(2) [of j y] unfolding items by (auto split: if_splits)
      show "distinct ids" if "map_of (running ?v) q = Some ids" for q ids
        using that D(3) [of q ids] by simp
      show "(j \<in> runset ?v q) = (\<exists>y. item_at ?v j = Some y \<and> queue_id y = q \<and> status y = Running)" for j q
        unfolding items rv using D(4) [of j q] nr [of q] by (auto simp: rs)
      show "distinct (terminal ?v)" using dxs by simp
      show "(j \<in> set (terminal ?v)) = (\<exists>y. item_at ?v j = Some y \<and> is_terminal (status y))" for j
        unfolding items using D(6) [of j] t nx by auto
      show "length (terminal ?v) \<le> retain_terminal ?v" using len t by simp
      show "1 \<le> retain_terminal ?v" using r by simp
      show "\<exists>y. item_at ?v j = Some y \<and> queue_id y = q \<and> idempotency_key y = Some k"
        if "map_of (idempotency ?v) (q, k) = Some j" for q k j
        using that D(9) [of q k j] unfolding items idem by auto
      show "map_of (idempotency ?v) (queue_id y, k) = Some j"
        if "item_at ?v j = Some y \<and> idempotency_key y = Some k \<and> is_active (status y)" for j y k
        using that D(10) [of j y k] unfolding items idem by (auto split: if_splits)
    qed
  qed
qed

lemma idx_set_status:
  assumes "idx_inv s" and "item_at s iid = Some it" and "is_active (status it)"
  shows "idx_inv (set_status iid st s)"
proof (cases "is_terminal st")
  case True
  note R = idx_restatus [OF assms refl, of st "Suc (retain_terminal s)"]
  show ?thesis
    unfolding set_status_alt [OF assms(2)] Let_def if_P [OF True]
    by (rule idx_evict) (use R True idx_invD(7,8) [OF assms(1)] in auto)
next
  case False
  then show ?thesis
    using idx_restatus [OF assms refl, of st "retain_terminal s"] idx_invD(7,8) [OF assms(1)]
    by (simp add: set_status_alt [OF assms(2)] Let_def)
qed

lemma evolves_set_status:
  assumes inv: "idx_inv s" and it: "item_at s iid = Some it" and act: "is_active (status it)"
  shows "evolves s (set_status iid st s) iid (it\<lparr>status := st\<rparr>)"
proof (cases "is_terminal st")
  case False
  then show ?thesis by (auto simp: set_status_alt [OF it] Let_def evolves_def)
next
  case True
  let ?s = "s\<lparr>items := AList.update iid (it\<lparr>status := st\<rparr>) (items s),
     running := unindex_running iid it st s, terminal := terminal s @ [iid]\<rparr>"
  note D = idx_invD [OF inv]
  have hd: "terminal s \<noteq> [] \<Longrightarrow> \<exists>x. item_at s (hd (terminal s)) = Some x \<and> is_terminal (status x)"
    using D(6) [of "hd (terminal s)"] by simp
  have ne: "terminal s \<noteq> [] \<Longrightarrow> hd (terminal s) \<noteq> iid"
    using hd it act by (auto simp: is_terminal_iff)
  have "evict_terminal ?s = (if retain_terminal s < Suc (length (terminal s))
      then evict_one (hd (terminal s @ [iid])) (?s\<lparr>terminal := tl (terminal s @ [iid])\<rparr>) else ?s)"
    using evict_terminal_once [of ?s] D(7,8) by simp
  then show ?thesis
    using hd ne D(8) True
    by (auto simp: set_status_alt [OF it] Let_def evolves_def hd_append)
qed

section \<open>Steps of one item\<close>

text \<open>\<open>s'\<close> holds the items of \<open>m\<close>, except finished ones that were evicted.\<close>

definition modulo_evict :: "(string \<Rightarrow> QueueItem option) \<Rightarrow> mq \<Rightarrow> bool" where
  "modulo_evict m s' \<longleftrightarrow>
     (\<forall>j. item_at s' j = m j \<or> item_at s' j = None \<and> (\<exists>x. m j = Some x \<and> is_terminal (status x)))"

definition same_frame :: "mq \<Rightarrow> mq \<Rightarrow> bool" where
  "same_frame s s' \<longleftrightarrow>
     retain_terminal s' = retain_terminal s \<and> cooldowns s' = cooldowns s \<and>
     poisoned s' = poisoned s \<and> emitted s' = emitted s"

definition same_index :: "QueueItem \<Rightarrow> QueueItem \<Rightarrow> bool" where
  "same_index it it' \<longleftrightarrow>
     item_id it' = item_id it \<and> queue_id it' = queue_id it \<and>
     idempotency_key it' = idempotency_key it \<and> status it' = status it"

lemma modulo_evict_refl [simp]: "modulo_evict (item_at s) s"
  by (simp add: modulo_evict_def)

lemma same_frame_refl [simp]: "same_frame s s"
  by (simp add: same_frame_def)

lemma same_frame_trans: "same_frame s t \<Longrightarrow> same_frame t u \<Longrightarrow> same_frame s u"
  by (simp add: same_frame_def)

lemma same_frame_ops [simp]:
  "same_frame s (put_item i x t) = same_frame s t"
  "same_frame s (set_status i st t) = same_frame s t"
  by (simp_all add: same_frame_def)

lemma modulo_evict_active:
  "modulo_evict m s \<Longrightarrow> m j = Some x \<Longrightarrow> is_active (status x) \<Longrightarrow> item_at s j = Some x"
  unfolding modulo_evict_def is_terminal_iff by (metis option.inject)

lemma modulo_evict_Some: "modulo_evict m s \<Longrightarrow> item_at s j = Some x \<Longrightarrow> m j = Some x"
  unfolding modulo_evict_def by (metis option.distinct(1))

lemma modulo_evict_evolves:
  assumes "modulo_evict m s" and "evolves s s' iid it'"
  shows "modulo_evict (m(iid \<mapsto> it')) s'"
proof -
  have "item_at s' j = m j \<or> item_at s' j = None \<and> (\<exists>x. m j = Some x \<and> is_terminal (status x))"
    if "j \<noteq> iid" for j
    using that assms unfolding modulo_evict_def evolves_def by metis
  with assms(2) show ?thesis by (auto simp: modulo_evict_def evolves_def)
qed

lemma idx_put_item:
  assumes inv: "idx_inv s" and it: "item_at s iid = Some it" and same: "same_index it it'"
  shows "idx_inv (put_item iid it' s)"
proof -
  let ?s = "put_item iid it' s"
  note D = idx_invD [OF inv]
  have items: "item_at ?s j = (if j = iid then Some it' else item_at s j)" for j by simp
  have rs: "runset ?s = runset s" by (simp add: runset_def fun_eq_iff)
  show ?thesis
    unfolding idx_inv_def idx_core_def rs
  proof (intro conjI allI impI)
    show "distinct (map fst (items ?s))" using D(1) by simp
    show "item_id x = j" if "item_at ?s j = Some x" for j x
      using that D(2) [of j x] D(2) [OF it] same unfolding items
      by (auto simp: same_index_def split: if_splits)
    show "(j \<in> runset s q) = (\<exists>x. item_at ?s j = Some x \<and> queue_id x = q \<and> status x = Running)" for j q
      unfolding items using D(4) [of j q] it same by (auto simp: same_index_def)
    show "(j \<in> set (terminal ?s)) = (\<exists>x. item_at ?s j = Some x \<and> is_terminal (status x))" for j
      unfolding items using D(6) [of j] it same by (auto simp: same_index_def)
    show "\<exists>x. item_at ?s j = Some x \<and> queue_id x = q \<and> idempotency_key x = Some k"
      if "map_of (idempotency ?s) (q, k) = Some j" for q k j
      unfolding items using that D(9) [of q k j] it same by (auto simp: same_index_def)
    show "map_of (idempotency ?s) (queue_id x, k) = Some j"
      if "item_at ?s j = Some x \<and> idempotency_key x = Some k \<and> is_active (status x)" for j x k
      using that D(10) [of j x k] D(10) [OF it, of k] same unfolding items
      by (auto simp: same_index_def split: if_splits)
    show "distinct ids" if "map_of (running ?s) q = Some ids" for q ids
      using that D(3) [of q ids] by simp
  qed (use D(5,7,8) in simp_all)
qed

lemma mq_invD:
  assumes "mq_inv s"
  shows mq_idx: "idx_inv s" and mq_item_ok: "item_at s j = Some x \<Longrightarrow> item_ok x"
  using assms by (auto simp: mq_inv_def)

lemma mq_inv_evolves:
  assumes "mq_inv s" and "idx_inv s'" and "evolves s s' iid it'" and "item_ok it'"
  shows "mq_inv s'"
proof -
  have "item_ok x" if x: "item_at s' j = Some x" for j x
  proof (cases "j = iid")
    case True
    with x assms(3,4) show ?thesis by (simp add: evolves_def)
  next
    case False
    with x assms(3) have "item_at s j = Some x" unfolding evolves_def by (metis option.distinct(1))
    with assms(1) show ?thesis by (rule mq_item_ok)
  qed
  with assms(2) show ?thesis by (auto simp: mq_inv_def)
qed

lemma evolves_put:
  "evolves (put_item iid it0 s) s' iid it' \<longleftrightarrow> evolves s s' iid it'"
  by (auto simp: evolves_def)

lemma put_evolves:
  "evolves s s' iid it' \<Longrightarrow> evolves s (put_item iid it'' s') iid it''"
  by (auto simp: evolves_def)

text \<open>Both orders in which the code writes an item and its status.\<close>

lemma transition_put_first:
  assumes "mq_inv s" and "item_at s iid = Some it" and "is_active (status it)"
    and "same_index it it'" and "item_ok (it'\<lparr>status := st\<rparr>)"
  shows "mq_inv (set_status iid st (put_item iid it' s))"
    and "evolves s (set_status iid st (put_item iid it' s)) iid (it'\<lparr>status := st\<rparr>)"
proof -
  let ?p = "put_item iid it' s"
  have p: "idx_inv ?p" using idx_put_item mq_idx assms(1,2,4) by blast
  have a: "item_at ?p iid = Some it'" "is_active (status it')"
    using assms(3,4) by (simp_all add: same_index_def)
  show e: "evolves s (set_status iid st ?p) iid (it'\<lparr>status := st\<rparr>)"
    using evolves_set_status [OF p a] by (simp add: evolves_put)
  show "mq_inv (set_status iid st ?p)"
    using mq_inv_evolves [OF assms(1) idx_set_status [OF p a] e assms(5)] .
qed

lemma transition_status_first:
  assumes "mq_inv s" and "item_at s iid = Some it" and "is_active (status it)"
    and "same_index (it\<lparr>status := st\<rparr>) it'" and "item_ok it'"
  shows "mq_inv (put_item iid it' (set_status iid st s))"
    and "evolves s (put_item iid it' (set_status iid st s)) iid it'"
proof -
  let ?p = "set_status iid st s"
  have e0: "evolves s ?p iid (it\<lparr>status := st\<rparr>)"
    by (rule evolves_set_status [OF mq_idx [OF assms(1)] assms(2,3)])
  then have a: "item_at ?p iid = Some (it\<lparr>status := st\<rparr>)" by (simp add: evolves_def)
  show e: "evolves s (put_item iid it' ?p) iid it'" by (rule put_evolves [OF e0])
  have "idx_inv (put_item iid it' ?p)"
    by (rule idx_put_item [OF idx_set_status [OF mq_idx [OF assms(1)] assms(2,3)] a assms(4)])
  then show "mq_inv (put_item iid it' ?p)"
    using mq_inv_evolves [OF assms(1) _ e assms(5)] by blast
qed

section \<open>Reclaiming leases\<close>

definition reclaimed_item :: "time \<Rightarrow> QueueItem \<Rightarrow> QueueItem" where
  "reclaimed_item now it =
     reclaim_fields now (it\<lparr>status := (if max_attempts it \<le> attempt it then Dead else Failed)\<rparr>)"

lemma reclaimed_item_simps [simp]:
  "item_id (reclaimed_item now it) = item_id it"
  "queue_id (reclaimed_item now it) = queue_id it"
  "attempt (reclaimed_item now it) = attempt it"
  "max_attempts (reclaimed_item now it) = max_attempts it"
  "status (reclaimed_item now it) = (if max_attempts it \<le> attempt it then Dead else Failed)"
  "lease_owner (reclaimed_item now it) = None"
  "lease_until (reclaimed_item now it) = None"
  "last_error (reclaimed_item now it) = Some LeaseExpired"
  "run_after (reclaimed_item now it) = run_after it"
  "idempotency_key (reclaimed_item now it) = idempotency_key it"
  by (simp_all add: reclaimed_item_def reclaim_fields_def)

lemma reclaimed_item_ok: "item_ok it \<Longrightarrow> item_ok (reclaimed_item now it)"
  by (simp add: item_ok_def)

lemma reclaim_loop_ok:
  assumes "mq_inv s" and "distinct ids"
    and "\<And>i. i \<in> set ids \<Longrightarrow> \<exists>it. item_at s i = Some it \<and> status it = Running"
  shows "\<exists>s'. reclaim_loop now ids s =
            Some (map (\<lambda>i. reclaimed_item now (the (item_at s i))) ids, s') \<and>
          mq_inv s' \<and> same_frame s s' \<and>
          modulo_evict (\<lambda>j. if j \<in> set ids then map_option (reclaimed_item now) (item_at s j)
                            else item_at s j) s'"
  using assms
proof (induction ids arbitrary: s)
  case Nil
  then show ?case by simp
next
  case (Cons i ids)
  from Cons.prems(3) obtain it where it: "item_at s i = Some it" "status it = Running" by auto
  let ?st = "if max_attempts it \<le> attempt it then Dead else Failed"
  let ?s1 = "put_item i (reclaimed_item now it) (set_status i ?st s)"
  have ok: "item_ok (reclaimed_item now it)"
    by (rule reclaimed_item_ok [OF mq_item_ok [OF Cons.prems(1) it(1)]])
  have "same_index (it\<lparr>status := ?st\<rparr>) (reclaimed_item now it)" by (simp add: same_index_def)
  note T = transition_status_first [OF Cons.prems(1) it(1) _ this ok]
  have inv1: "mq_inv ?s1" and e: "evolves s ?s1 i (reclaimed_item now it)" using T it(2) by auto
  have set1: "item_at (set_status i ?st s) i = Some (it\<lparr>status := ?st\<rparr>)"
    using evolves_set_status [OF mq_idx [OF Cons.prems(1)] it(1)] it(2) by (simp add: evolves_def)
  have keep: "item_at ?s1 j = Some x" if "item_at s j = Some x" "status x = Running" "j \<noteq> i" for j x
    using that e unfolding evolves_def by (auto simp: is_terminal_iff)
  have "\<And>j. j \<in> set ids \<Longrightarrow> \<exists>it. item_at ?s1 j = Some it \<and> status it = Running"
    using Cons.prems(2,3) keep by (metis distinct.simps(2) list.set_intros(2))
  from Cons.IH [OF inv1 _ this] Cons.prems(2) obtain s' where
    loop: "reclaim_loop now ids ?s1 =
       Some (map (\<lambda>i. reclaimed_item now (the (item_at ?s1 i))) ids, s')"
    and s': "mq_inv s'" "same_frame ?s1 s'"
    and me: "modulo_evict (\<lambda>j. if j \<in> set ids then map_option (reclaimed_item now) (item_at ?s1 j)
                              else item_at ?s1 j) s'"
    by auto
  have same: "item_at ?s1 j = item_at s j" if "j \<in> set ids" for j
    using that Cons.prems(2,3) keep by (metis distinct.simps(2) list.set_intros(2))
  have rs: "map (\<lambda>i. reclaimed_item now (the (item_at ?s1 i))) ids
      = map (\<lambda>i. reclaimed_item now (the (item_at s i))) ids"
    using same by simp
  have ds: "same_frame s s'" using s'(2) by (simp add: same_frame_def)
  let ?m = "\<lambda>j. if j \<in> set (i # ids) then map_option (reclaimed_item now) (item_at s j) else item_at s j"
  let ?m1 = "\<lambda>j. if j \<in> set ids then map_option (reclaimed_item now) (item_at ?s1 j) else item_at ?s1 j"
  have "?m1 j = ?m j \<or> ?m1 j = None \<and> (\<exists>x. ?m j = Some x \<and> is_terminal (status x))" for j
  proof (cases "j \<in> set ids")
    case True
    then show ?thesis using same [OF True] by simp
  next
    case False
    then show ?thesis using e it(1) unfolding evolves_def by auto
  qed
  then have "modulo_evict ?m s'"
    using me unfolding modulo_evict_def by metis
  moreover have "reclaim_loop now (i # ids) s =
      Some (map (\<lambda>i. reclaimed_item now (the (item_at s i))) (i # ids), s')"
    using it(1) set1 loop rs by (simp add: Let_def reclaimed_item_def)
  ultimately show ?case using s'(1) ds by blast
qed

text \<open>A hash set may be iterated in any order; each element comes once.\<close>

definition iter_order :: "(string list \<Rightarrow> string list) \<Rightarrow> bool" where
  "iter_order order \<longleftrightarrow> (\<forall>xs. mset (order xs) = mset xs)"

lemma iter_orderD:
  assumes "iter_order order"
  shows "set (order xs) = set xs" and "distinct (order xs) = distinct xs"
  using assms unfolding iter_order_def by (metis set_mset_mset, metis mset_eq_imp_distinct_iff)

definition due :: "string \<Rightarrow> time \<Rightarrow> QueueItem \<Rightarrow> bool" where
  "due q now it \<longleftrightarrow> queue_id it = q \<and> status it = Running \<and> lapsed now it"

definition reclaim_map :: "string \<Rightarrow> time \<Rightarrow> mq \<Rightarrow> string \<Rightarrow> QueueItem option" where
  "reclaim_map q now s j =
     map_option (\<lambda>it. if due q now it then reclaimed_item now it else it) (item_at s j)"

lemma reclaim_expired_ok:
  assumes inv: "mq_inv s" and ord: "iter_order order"
  shows "\<exists>ids s'. reclaim_expired order q now s =
            Some (map (\<lambda>i. reclaimed_item now (the (item_at s i))) ids, s') \<and>
          distinct ids \<and> set ids = {i. \<exists>it. item_at s i = Some it \<and> due q now it} \<and>
          mq_inv s' \<and> same_frame s s' \<and> modulo_evict (reclaim_map q now s) s'"
proof -
  note D = idx_invD [OF mq_idx [OF inv]]
  define all where "all = (case map_of (running s) q of None \<Rightarrow> [] | Some ids \<Rightarrow> order ids)"
  define ids where "ids = filter (\<lambda>i. case item_at s i of None \<Rightarrow> False | Some it \<Rightarrow> lapsed now it) all"
  have "set all = runset s q"
    using iter_orderD(1) [OF ord] by (auto simp: all_def runset_def split: option.splits)
  then have all: "i \<in> set all \<longleftrightarrow> (\<exists>it. item_at s i = Some it \<and> queue_id it = q \<and> status it = Running)" for i
    using D(4) [of i q] by simp
  have "distinct all"
  proof (cases "map_of (running s) q")
    case None
    then show ?thesis by (simp add: all_def)
  next
    case (Some xs)
    with D(3) [OF Some] iter_orderD(2) [OF ord] show ?thesis by (simp add: all_def)
  qed
  then have d: "distinct ids" by (simp add: ids_def)
  have sids: "set ids = {i. \<exists>it. item_at s i = Some it \<and> due q now it}"
    by (auto simp: ids_def all due_def split: option.splits)
  have "\<And>i. i \<in> set ids \<Longrightarrow> \<exists>it. item_at s i = Some it \<and> status it = Running"
    unfolding sids due_def by auto
  from reclaim_loop_ok [OF inv d this, of now] obtain s' where
    loop: "reclaim_loop now ids s = Some (map (\<lambda>i. reclaimed_item now (the (item_at s i))) ids, s')"
    and s': "mq_inv s'" "same_frame s s'"
    and me: "modulo_evict (\<lambda>j. if j \<in> set ids then map_option (reclaimed_item now) (item_at s j)
                              else item_at s j) s'"
    by blast
  have "(\<lambda>j. if j \<in> set ids then map_option (reclaimed_item now) (item_at s j) else item_at s j)
      = reclaim_map q now s"
  proof
    show "(if j \<in> set ids then map_option (reclaimed_item now) (item_at s j) else item_at s j)
        = reclaim_map q now s j" for j
      unfolding sids by (cases "item_at s j") (auto simp: reclaim_map_def)
  qed
  moreover have "\<not> list_ex (\<lambda>i. item_at s i = None) all" using all by (auto simp: list_ex_iff)
  then have "reclaim_expired order q now s = reclaim_loop now ids s"
    unfolding reclaim_expired_def Let_def all_def [symmetric] ids_def by simp
  ultimately show ?thesis using loop s' me d sids by auto
qed

section \<open>Leasing\<close>

definition leased :: "string \<Rightarrow> time \<Rightarrow> time \<Rightarrow> QueueItem \<Rightarrow> QueueItem" where
  "leased worker until now it =
     it\<lparr>status := Running, attempt := saturating_add_u32 (attempt it) 1, lease_owner := Some worker,
        lease_until := Some until, updated_at := now\<rparr>"

definition due_item :: "QueueItem \<Rightarrow> bool" where
  "due_item it \<longleftrightarrow> is_waiting (status it) \<and> attempt it < max_attempts it"

lemma leased_simps [simp]:
  "item_id (leased w u now it) = item_id it"
  "queue_id (leased w u now it) = queue_id it"
  "status (leased w u now it) = Running"
  "lease_owner (leased w u now it) = Some w"
  "lease_until (leased w u now it) = Some u"
  "max_attempts (leased w u now it) = max_attempts it"
  "attempt (leased w u now it) = saturating_add_u32 (attempt it) 1"
  "idempotency_key (leased w u now it) = idempotency_key it"
  "run_after (leased w u now it) = run_after it"
  by (simp_all add: leased_def)

lemma leased_ok: "item_ok it \<Longrightarrow> due_item it \<Longrightarrow> item_ok (leased w u now it)"
  by (auto simp: item_ok_def due_item_def saturating_add_u32_def u32_max_def)

lemma lease_ok:
  assumes inv: "mq_inv s" and it: "item_at s iid = Some it" and c: "due_item it"
  shows "\<exists>s'. lease iid w u now s = Some s' \<and> mq_inv s' \<and> same_frame s s' \<and> terminal s' = terminal s \<and>
    item_at s' = (item_at s)(iid \<mapsto> leased w u now it)"
proof -
  have act: "is_active (status it)" using c by (auto simp: due_item_def is_active_iff)
  let ?s1 = "set_status iid Running s"
  have items: "item_at ?s1 = (item_at s)(iid \<mapsto> it\<lparr>status := Running\<rparr>)"
    and t: "terminal ?s1 = terminal s"
    by (auto simp: set_status_alt [OF it] Let_def fun_eq_iff)
  have eq: "(it\<lparr>status := Running\<rparr>)\<lparr>attempt := saturating_add_u32 (attempt it) 1,
      lease_owner := Some w, lease_until := Some u, updated_at := now\<rparr> = leased w u now it"
    by (simp add: leased_def)
  have si: "same_index (it\<lparr>status := Running\<rparr>) (leased w u now it)" by (simp add: same_index_def)
  note T = transition_status_first [OF inv it act si leased_ok [OF mq_item_ok [OF inv it] c]]
  have "lease iid w u now s = Some (put_item iid (leased w u now it) ?s1)"
    using items eq by (simp add: lease_def Let_def)
  with T(1) items t show ?thesis by (auto simp: fun_eq_iff)
qed

lemma lease_all_ok:
  assumes "mq_inv s" and "distinct ids"
    and "\<And>i. i \<in> set ids \<Longrightarrow> \<exists>it. item_at s i = Some it \<and> due_item it"
  shows "\<exists>s'. lease_all ids w u now s = Some (map (\<lambda>i. leased w u now (the (item_at s i))) ids, s') \<and>
    mq_inv s' \<and> same_frame s s' \<and> terminal s' = terminal s \<and>
    item_at s' = (\<lambda>j. if j \<in> set ids then map_option (leased w u now) (item_at s j) else item_at s j)"
  using assms
proof (induction ids arbitrary: s)
  case Nil
  then show ?case by simp
next
  case (Cons i ids)
  from Cons.prems(3) obtain it where it: "item_at s i = Some it" "due_item it" by auto
  from lease_ok [OF Cons.prems(1) it, of w u now] obtain s1 where
    s1: "lease i w u now s = Some s1" "mq_inv s1" "same_frame s s1" "terminal s1 = terminal s"
    and items1: "item_at s1 = (item_at s)(i \<mapsto> leased w u now it)"
    by blast
  have same: "item_at s1 j = item_at s j" if "j \<in> set ids" for j
    using that Cons.prems(2) by (auto simp: items1)
  have "\<And>j. j \<in> set ids \<Longrightarrow> \<exists>it. item_at s1 j = Some it \<and> due_item it"
    using Cons.prems(3) same by auto
  from Cons.IH [OF s1(2) _ this] Cons.prems(2) obtain s' where
    rest: "lease_all ids w u now s1 = Some (map (\<lambda>i. leased w u now (the (item_at s1 i))) ids, s')"
      "mq_inv s'" "same_frame s1 s'" "terminal s' = terminal s1"
      "item_at s' = (\<lambda>j. if j \<in> set ids then map_option (leased w u now) (item_at s1 j) else item_at s1 j)"
    by auto
  have "map (\<lambda>i. leased w u now (the (item_at s1 i))) ids = map (\<lambda>i. leased w u now (the (item_at s i))) ids"
    using same by simp
  moreover have "item_at s' = (\<lambda>j. if j \<in> set (i # ids) then map_option (leased w u now) (item_at s j)
      else item_at s j)"
    using rest(5) it(1) Cons.prems(2) by (auto simp: items1 fun_eq_iff)
  moreover have "same_frame s s'" by (rule same_frame_trans [OF s1(3) rest(3)])
  ultimately show ?case
    using s1 rest it(1) items1 by simp
qed

lemma retire_ok:
  assumes inv: "mq_inv s" and it: "item_at s iid = Some it"
  shows "\<exists>r s' it'. retire_if_exhausted iid now s = (r, s') \<and> mq_inv s' \<and> same_frame s s' \<and>
    evolves s s' iid it' \<and> (is_waiting (status it') \<longrightarrow> due_item it' \<and> it' = it \<and> s' = s)"
proof (cases "\<not> is_waiting (status it) \<or> attempt it < max_attempts it")
  case True
  then have "retire_if_exhausted iid now s = (None, s)" using it by (simp add: retire_if_exhausted_def)
  moreover have "evolves s s iid it" using it by (simp add: evolves_def)
  ultimately show ?thesis using inv True by (auto simp: due_item_def)
next
  case False
  let ?it1 = "it\<lparr>updated_at := now,
     last_error := (case last_error it of None \<Rightarrow> Some AttemptBudgetExhausted | e \<Rightarrow> e)\<rparr>"
  let ?s1 = "set_status iid Dead (put_item iid ?it1 s)"
  have si: "same_index it ?it1" by (simp add: same_index_def)
  have ok: "item_ok (?it1\<lparr>status := Dead\<rparr>)"
    using mq_item_ok [OF inv it] False by (auto simp: item_ok_def)
  have act: "is_active (status it)" using False by (simp add: is_active_iff)
  note T = transition_put_first [OF inv it act si ok]
  have "retire_if_exhausted iid now s = (item_at ?s1 iid, ?s1)"
    using it False by (simp add: retire_if_exhausted_def Let_def)
  moreover have "same_frame s ?s1" by simp
  ultimately show ?thesis using T by (intro exI conjI) auto
qed

section \<open>Enqueue keeps the invariant\<close>

lemma mq_inv_insert:
  assumes inv: "mq_inv s" and fresh: "item_at s (item_id it) = None" and p: "status it = Pending"
    and ok: "item_ok it"
    and key: "\<And>k j x. idempotency_key it = Some k \<Longrightarrow> item_at s j = Some x \<Longrightarrow>
       queue_id x = queue_id it \<Longrightarrow> idempotency_key x = Some k \<Longrightarrow> \<not> is_active (status x)"
  shows "mq_inv (insert_item it s)"
proof -
  let ?s = "insert_item it s"
  note D = idx_invD [OF mq_idx [OF inv]]
  have items: "item_at ?s j = (if j = item_id it then Some it else item_at s j)" for j
    by (simp add: insert_item_def split: option.split)
  have frame: "running ?s = running s" "terminal ?s = terminal s" "retain_terminal ?s = retain_terminal s"
    by (simp_all add: insert_item_def split: option.split)
  have idem: "map_of (idempotency ?s) (q, k) =
      (if q = queue_id it \<and> idempotency_key it = Some k then Some (item_id it)
       else map_of (idempotency s) (q, k))" for q k
    by (auto simp: insert_item_def split: option.split)
  have rs: "runset ?s = runset s" by (simp add: runset_def fun_eq_iff frame)
  have "idx_inv ?s"
    unfolding idx_inv_def idx_core_def rs
  proof (intro conjI allI impI)
    show "distinct (map fst (items ?s))" using D(1) by (simp add: insert_item_def split: option.split)
    show "item_id x = j" if "item_at ?s j = Some x" for j x
      using that D(2) [of j x] unfolding items by (auto split: if_splits)
    show "(j \<in> runset s q) = (\<exists>x. item_at ?s j = Some x \<and> queue_id x = q \<and> status x = Running)" for j q
      unfolding items using D(4) [of j q] fresh p by auto
    show "(j \<in> set (terminal ?s)) = (\<exists>x. item_at ?s j = Some x \<and> is_terminal (status x))" for j
      unfolding items frame using D(6) [of j] fresh p by auto
    show "\<exists>x. item_at ?s j = Some x \<and> queue_id x = q \<and> idempotency_key x = Some k"
      if "map_of (idempotency ?s) (q, k) = Some j" for q k j
      using that D(9) [of q k j] fresh unfolding items idem by (auto split: if_splits)
    show "map_of (idempotency ?s) (queue_id x, k) = Some j"
      if "item_at ?s j = Some x \<and> idempotency_key x = Some k \<and> is_active (status x)" for j x k
    proof (cases "j = item_id it")
      case True
      with that show ?thesis unfolding items idem by auto
    next
      case False
      with that have x: "item_at s j = Some x" unfolding items by simp
      with that key [of k j x] have "\<not> (queue_id x = queue_id it \<and> idempotency_key it = Some k)" by blast
      with that D(10) [OF x] show ?thesis unfolding idem by auto
    qed
    show "distinct ids" if "map_of (running ?s) q = Some ids" for q ids
      using that D(3) [of q ids] by (simp add: frame)
  qed (use D(5,7,8) frame in simp_all)
  moreover have "item_ok x" if "item_at ?s j = Some x" for j x
    using that ok mq_item_ok [OF inv, of j x] unfolding items by (auto split: if_splits)
  ultimately show ?thesis by (auto simp: mq_inv_def)
qed

definition stopped_map :: "string option \<Rightarrow> mq \<Rightarrow> string \<Rightarrow> QueueItem option" where
  "stopped_map replacing s j =
     map_option (\<lambda>it. if replacing = Some j \<and> status it = Failed
       then it\<lparr>status := Stopped, last_error_class := Some FC_Queue\<rparr> else it) (item_at s j)"

lemma stop_replaced_evolves:
  assumes inv: "mq_inv s" and it: "item_at s c = Some it" and f: "status it = Failed"
  shows "mq_inv (stop_replaced (Some c) s)" and "same_frame s (stop_replaced (Some c) s)"
    and "evolves s (stop_replaced (Some c) s) c (it\<lparr>status := Stopped, last_error_class := Some FC_Queue\<rparr>)"
proof -
  let ?s1 = "set_status c Stopped s"
  let ?it = "it\<lparr>status := Stopped, last_error_class := Some FC_Queue\<rparr>"
  have act: "is_active (status it)" using f by simp
  have "item_at ?s1 c = Some (it\<lparr>status := Stopped\<rparr>)"
    using evolves_set_status [OF mq_idx [OF inv] it act] by (simp add: evolves_def)
  then have eq: "stop_replaced (Some c) s = put_item c ?it ?s1"
    using it f by (simp add: stop_replaced_def Let_def)
  have si: "same_index (it\<lparr>status := Stopped\<rparr>) ?it" by (simp add: same_index_def)
  have ok: "item_ok ?it" using mq_item_ok [OF inv it] f by (auto simp: item_ok_def)
  note T = transition_status_first [OF inv it act si ok]
  show "mq_inv (stop_replaced (Some c) s)" and "same_frame s (stop_replaced (Some c) s)"
    and "evolves s (stop_replaced (Some c) s) c ?it"
    using T eq by simp_all
qed

lemma stop_replaced_same:
  "\<not> (\<exists>c it. r = Some c \<and> item_at s c = Some it \<and> status it = Failed) \<Longrightarrow> stop_replaced r s = s"
  by (auto simp: stop_replaced_def split: option.splits)

lemma stop_replaced_conj:
  assumes inv: "mq_inv s"
  shows "mq_inv (stop_replaced r s) \<and> same_frame s (stop_replaced r s) \<and>
    modulo_evict (stopped_map r s) (stop_replaced r s)"
proof (cases "\<exists>c it. r = Some c \<and> item_at s c = Some it \<and> status it = Failed")
  case False
  have "stopped_map r s = item_at s"
    using False by (auto simp: stopped_map_def fun_eq_iff map_option_case split: option.split)
  then show ?thesis using inv stop_replaced_same [OF False] by simp
next
  case True
  then obtain c it where c: "r = Some c" and it: "item_at s c = Some it" and f: "status it = Failed" by blast
  note T = stop_replaced_evolves [OF inv it f]
  have "stopped_map r s = (item_at s)(c \<mapsto> it\<lparr>status := Stopped, last_error_class := Some FC_Queue\<rparr>)"
    using c it f by (auto simp: stopped_map_def fun_eq_iff map_option_case split: option.split)
  then show ?thesis
    using T modulo_evict_evolves [OF modulo_evict_refl T(3)] c by simp
qed

lemma stop_replaced_ok:
  assumes "mq_inv s"
  shows "mq_inv (stop_replaced r s)" and "same_frame s (stop_replaced r s)"
    and "modulo_evict (stopped_map r s) (stop_replaced r s)"
  using stop_replaced_conj [OF assms] by blast+

lemma existing_for_key:
  assumes inv: "mq_inv s" and k: "rq_idempotency_key rq = Some k"
    and x: "item_at s j = Some x" "queue_id x = rq_queue_id rq" "idempotency_key x = Some k"
      "is_active (status x)"
  shows "existing_for rq s = Some x"
proof -
  have "map_of (idempotency s) (queue_id x, k) = Some j"
    using idx_active_key [OF mq_idx [OF inv] x(1,3,4)] .
  with k x show ?thesis by (simp add: existing_for_def)
qed

text \<open>The new item of an accepted enqueue.\<close>

lemma insert_after_stop:
  assumes inv: "mq_inv s" and fresh: "item_at s nid = None"
    and go: "\<And>ex. existing_for rq s = Some ex \<Longrightarrow> \<not> deduplicates rq r ex"
  shows "mq_inv (insert_item (new_item rq nid now) (stop_replaced r s))"
proof (rule mq_inv_insert [OF stop_replaced_ok(1) [OF inv]])
  note me = stop_replaced_ok(3) [OF inv, of r]
  show "item_at (stop_replaced r s) (item_id (new_item rq nid now)) = None"
  proof (cases "item_at (stop_replaced r s) nid")
    case (Some x)
    with modulo_evict_Some [OF me Some] fresh show ?thesis by (simp add: stopped_map_def)
  qed (simp add: new_item_def)
  show "item_ok (new_item rq nid now)" by (simp add: item_ok_def new_item_def)
  fix k j x
  assume k: "idempotency_key (new_item rq nid now) = Some k"
    and x: "item_at (stop_replaced r s) j = Some x" "queue_id x = queue_id (new_item rq nid now)"
      "idempotency_key x = Some k"
  from k x(2) have k': "rq_idempotency_key rq = Some k" and q: "queue_id x = rq_queue_id rq"
    by (simp_all add: new_item_def)
  from modulo_evict_Some [OF me x(1)] obtain y where y: "item_at s j = Some y"
    and xy: "x = (if r = Some j \<and> status y = Failed
       then y\<lparr>status := Stopped, last_error_class := Some FC_Queue\<rparr> else y)"
    by (auto simp: stopped_map_def)
  show "\<not> is_active (status x)"
  proof
    assume act: "is_active (status x)"
    with xy have nf: "\<not> (r = Some j \<and> status y = Failed)" by auto
    with xy have "x = y" by simp
    with y q x(3) act have ex: "existing_for rq s = Some y"
      using existing_for_key [OF inv k' y] by simp
    have "item_id y = j" using idx_item_id [OF mq_idx [OF inv] y] .
    with go [OF ex] act nf \<open>x = y\<close> show False
      by (auto simp: deduplicates_def Let_def split: option.splits)
  qed
qed (simp add: new_item_def)

definition mq_good :: "mq \<Rightarrow> bool" where
  "mq_good s \<longleftrightarrow> mq_inv s \<and> \<not> poisoned s"

lemma enqueue_inner_good:
  assumes "mq_good s" and "item_at s nid = None"
  shows "mq_good (snd (enqueue_inner rq r nid now s))"
    and "fst (enqueue_inner rq r nid now s) \<noteq> Panic"
proof -
  have np: "\<not> poisoned (stop_replaced r s)"
    using assms stop_replaced_ok(2) [of s r] by (simp add: mq_good_def same_frame_def)
  have ins: "\<And>it t. poisoned (insert_item it t) = poisoned t"
    by (simp add: insert_item_def split: option.split)
  show "mq_good (snd (enqueue_inner rq r nid now s))" "fst (enqueue_inner rq r nid now s) \<noteq> Panic"
    using assms insert_after_stop [of s nid rq r now] np
    by (auto simp: mq_good_def enqueue_inner_def locked_def Let_def ins split: option.splits)
qed

section \<open>Fenced updates keep the invariant\<close>

definition live_lease :: "mq \<Rightarrow> string \<Rightarrow> string \<Rightarrow> time \<Rightarrow> bool" where
  "live_lease s iid worker now \<longleftrightarrow>
     (case item_at s iid of
        None \<Rightarrow> False
      | Some it \<Rightarrow> status it = Running \<and> lease_owner it = Some worker \<and>
          (case lease_until it of None \<Rightarrow> False | Some until \<Rightarrow> now \<le> until))"

definition fence_error :: "mq \<Rightarrow> string \<Rightarrow> QueueError" where
  "fence_error s iid =
     (case item_at s iid of
        None \<Rightarrow> NotFound InvalidConfiguration
      | Some it \<Rightarrow> if status it \<noteq> Running then NotRunning InvalidConfiguration
                   else LeaseMismatch InvalidConfiguration)"

lemma update_running_fenced:
  "\<not> live_lease s iid worker now \<Longrightarrow>
     update_running iid worker now upd s = Some (Inl (fence_error s iid), s)"
  by (auto simp: update_running_def live_lease_def fence_error_def not_le split: option.splits)

lemma update_running_live:
  assumes "mq_inv s" and live: "live_lease s iid worker now" and it: "item_at s iid = Some it"
    and upd: "upd it = Some (Inr (it1, st))" and si: "same_index it it1"
    and ok: "item_ok (it1\<lparr>status := st\<rparr>)"
  shows "update_running iid worker now upd s =
      Some (Inr (it1\<lparr>status := st\<rparr>), set_status iid st (put_item iid it1 s))"
proof -
  have act: "is_active (status it)" using live it by (simp add: live_lease_def)
  note T = transition_put_first [OF assms(1) it act si ok]
  from T(2) have "item_at (set_status iid st (put_item iid it1 s)) iid = Some (it1\<lparr>status := st\<rparr>)"
    by (simp add: evolves_def)
  with live it upd show ?thesis
    by (auto simp: update_running_def live_lease_def Let_def split: option.splits)
qed

lemma update_running_good:
  assumes good: "mq_good s"
    and upd: "\<And>it. status it = Running \<Longrightarrow> item_ok it \<Longrightarrow>
       (\<exists>e. upd it = Some (Inl e)) \<or>
       (\<exists>it1 st. upd it = Some (Inr (it1, st)) \<and> same_index it it1 \<and> item_ok (it1\<lparr>status := st\<rparr>))"
  shows "mq_good (snd (locked (\<lambda>s. emit_result err f (update_running iid worker now upd s)) s))"
    and "fst (locked (\<lambda>s. emit_result err f (update_running iid worker now upd s)) s) \<noteq> Panic"
proof -
  let ?r = "update_running iid worker now upd s"
  have inv: "mq_inv s" and np: "\<not> poisoned s" using good by (auto simp: mq_good_def)
  have r: "(\<exists>e. ?r = Some (Inl e, s)) \<or> (\<exists>it s'. ?r = Some (Inr it, s') \<and> mq_inv s' \<and> \<not> poisoned s')"
  proof (cases "live_lease s iid worker now")
    case False
    then show ?thesis using update_running_fenced by blast
  next
    case True
    then obtain it where it: "item_at s iid = Some it" by (auto simp: live_lease_def split: option.splits)
    from True it have "status it = Running" by (simp add: live_lease_def)
    from upd [OF this mq_item_ok [OF inv it]] show ?thesis
    proof (elim disjE exE conjE)
      fix e assume "upd it = Some (Inl e)"
      then have "?r = Some (Inl e, s)"
        using True it by (auto simp: update_running_def live_lease_def split: option.splits)
      then show ?thesis by blast
    next
      fix it1 st assume u: "upd it = Some (Inr (it1, st))" "same_index it it1" "item_ok (it1\<lparr>status := st\<rparr>)"
      have act: "is_active (status it)" using True it by (simp add: live_lease_def)
      from update_running_live [where upd = upd, OF inv True it u] transition_put_first(1) [OF inv it act u(2,3)] np
      show ?thesis by simp
    qed
  qed
  then show "mq_good (snd (locked (\<lambda>s. emit_result err f (update_running iid worker now upd s)) s))"
    "fst (locked (\<lambda>s. emit_result err f (update_running iid worker now upd s)) s) \<noteq> Panic"
    using inv np by (auto simp: locked_def emit_result_def mq_good_def)
qed

lemma heartbeat_good:
  assumes "mq_good s"
  shows "mq_good (snd (heartbeat ch iid w secs now s))" and "fst (heartbeat ch iid w secs now s) \<noteq> Panic"
  unfolding heartbeat_def
  by (rule update_running_good [OF assms]; auto simp: same_index_def item_ok_def split: sum.splits)+

lemma complete_good:
  assumes "mq_good s"
  shows "mq_good (snd (complete iid w now s))" and "fst (complete iid w now s) \<noteq> Panic"
  unfolding complete_def
  by (rule update_running_good [OF assms]; auto simp: same_index_def item_ok_def)+

lemma fail_with_good:
  assumes "mq_good s" and "fl_run_after f = None \<Longrightarrow> checked_add_secs ch now 1 \<noteq> None"
  shows "mq_good (snd (fail_with ch iid w f now s))" and "fst (fail_with ch iid w f now s) \<noteq> Panic"
  unfolding fail_with_def
  by (rule update_running_good [OF assms(1)];
      use assms(2) in \<open>auto simp: same_index_def item_ok_def fail_status_def split: option.splits\<close>)+

section \<open>Claims keep the invariant\<close>

lemma ready_items_due_item:
  assumes "mq_inv s" and "it \<in> set (ready_items q now s)"
  shows "item_at s (item_id it) = Some it" and "due_item it" and "queue_id it = q" and "run_after it \<le> now"
proof -
  note D = idx_invD [OF mq_idx [OF assms(1)]]
  from assms(2) have it: "it \<in> set (map snd (items s))" and *: "queue_id it = q" "due_item it" "run_after it \<le> now"
    by (auto simp: ready_items_def due_item_def)
  from it obtain j where j: "item_at s j = Some it" using map_of_in_values [OF D(1)] by blast
  with D(2) [OF j] show "item_at s (item_id it) = Some it" by simp
  show "due_item it" "queue_id it = q" "run_after it \<le> now" using * by auto
qed

lemma distinct_item_ids:
  assumes "idx_inv s"
  shows "distinct (map item_id (map snd (items s)))"
proof -
  note D = idx_invD [OF assms]
  have "map item_id (map snd (items s)) = map fst (items s)"
    using D(2) by (auto simp: map_of_eq_Some_iff [OF D(1)])
  with D(1) show ?thesis by (simp only:)
qed

lemma distinct_map_sort_key: "distinct (map g xs) \<Longrightarrow> distinct (map g (sort_key f xs))"
  by (metis mset_map mset_sort mset_eq_imp_distinct_iff)

lemma distinct_ready_ids:
  assumes "idx_inv s"
  shows "distinct (map item_id (ready_items q now s))"
  unfolding ready_items_def
  by (intro distinct_map_sort_key distinct_map_filter distinct_item_ids [OF assms])

lemma claim_body_ok:
  assumes inv: "mq_inv s" and ids: "ids = map item_id (take n (ready_items q now s))"
  shows "\<exists>s'. lease_all ids w u now s =
      Some (map (leased w u now) (take n (ready_items q now s)), s') \<and>
    mq_inv s' \<and> same_frame s s' \<and> terminal s' = terminal s \<and>
    item_at s' = (\<lambda>j. if j \<in> set ids then map_option (leased w u now) (item_at s j) else item_at s j)"
proof -
  have d: "distinct ids"
    using distinct_ready_ids [OF mq_idx [OF inv], of q now] unfolding ids
    by (simp add: take_map [symmetric] del: distinct_map)
  have R: "item_at s (item_id it) = Some it" "due_item it" if "it \<in> set (take n (ready_items q now s))" for it
    using ready_items_due_item [OF inv in_set_takeD [OF that]] by blast+
  have c: "\<And>i. i \<in> set ids \<Longrightarrow> \<exists>it. item_at s i = Some it \<and> due_item it"
    unfolding ids using R by auto
  have "map (\<lambda>i. leased w u now (the (item_at s i))) ids
      = map (leased w u now) (take n (ready_items q now s))"
    unfolding ids using R by simp
  with lease_all_ok [OF inv d c, of w u now] show ?thesis by auto
qed

lemma mq_good_frame: "mq_inv s' \<Longrightarrow> same_frame s s' \<Longrightarrow> \<not> poisoned s \<Longrightarrow> mq_good s'"
  by (simp add: mq_good_def same_frame_def)

lemma mq_good_emit [simp]: "mq_good (emit evs s) = mq_good s"
  by (simp add: mq_good_def)

text \<open>The body of a claim, once the worker and the lease are accepted and no cooldown holds.\<close>

lemma claim_ok:
  assumes good: "mq_good s" and ord: "iter_order order" and w: "\<not> blank (cl_worker_id rq)"
    and dl: "lease_deadline ch now (cl_lease_seconds rq) = Inr u"
    and cd: "\<not> (\<exists>c. map_of (cooldowns s) (cl_queue_id rq) = Some c \<and> now2 < c)"
  shows "\<exists>s1 s2 rs. reclaim_expired order (cl_queue_id rq) now s = Some (rs, s1) \<and>
      mq_good s1 \<and> modulo_evict (reclaim_map (cl_queue_id rq) now s) s1 \<and>
      claim ch order rq now now2 s =
        (Ok (map (leased (cl_worker_id rq) u now)
               (take (claim_limit rq s1) (ready_items (cl_queue_id rq) now s1))), s2) \<and>
      mq_good s2 \<and> cooldowns s2 = cooldowns s \<and> terminal s2 = terminal s1 \<and>
      item_at s2 = (\<lambda>j. if j \<in> item_id ` set (take (claim_limit rq s1) (ready_items (cl_queue_id rq) now s1))
        then map_option (leased (cl_worker_id rq) u now) (item_at s1 j) else item_at s1 j)"
proof -
  have inv: "mq_inv s" and np: "\<not> poisoned s" using good by (auto simp: mq_good_def)
  let ?q = "cl_queue_id rq"
  from reclaim_expired_ok [OF inv ord, of ?q now] obtain ids s1 where
    r: "reclaim_expired order ?q now s = Some (map (\<lambda>i. reclaimed_item now (the (item_at s i))) ids, s1)"
    and s1: "mq_inv s1" "same_frame s s1" and me: "modulo_evict (reclaim_map ?q now s) s1"
    by blast
  let ?ready = "take (claim_limit rq s1) (ready_items ?q now s1)"
  from claim_body_ok [OF s1(1) refl, of "claim_limit rq s1" ?q now "cl_worker_id rq" u] obtain s2 where
    l: "lease_all (map item_id ?ready) (cl_worker_id rq) u now s1 =
        Some (map (leased (cl_worker_id rq) u now) ?ready, s2)"
    and s2: "mq_inv s2" "same_frame s1 s2" "terminal s2 = terminal s1"
    and items: "item_at s2 = (\<lambda>j. if j \<in> set (map item_id ?ready)
        then map_option (leased (cl_worker_id rq) u now) (item_at s1 j) else item_at s1 j)"
    by blast
  have np1: "\<not> poisoned s1" and g1: "mq_good s1" using s1 np by (auto simp: same_frame_def mq_good_def)
  have g2: "mq_good s2" using mq_good_frame [OF s2(1,2) np1] .
  have cds: "cooldowns s2 = cooldowns s" using s1(2) s2(2) by (simp add: same_frame_def)
  have nc: "(case map_of (cooldowns s) ?q of None \<Rightarrow> False | Some c \<Rightarrow> now2 < c) = False"
    using cd by (auto split: option.splits)
  show ?thesis
    using w dl np nc r l g1 g2 me cds s2(3) items by (auto simp: claim_def locked_def Let_def)
qed

lemma claim_good:
  assumes good: "mq_good s" and ord: "iter_order order"
  shows "mq_good (snd (claim ch order rq now now2 s))" and "fst (claim ch order rq now now2 s) \<noteq> Panic"
proof -
  consider "blank (cl_worker_id rq)" | e where "lease_deadline ch now (cl_lease_seconds rq) = Inl e"
    | c where "map_of (cooldowns s) (cl_queue_id rq) = Some c" "now2 < c"
    | u where "\<not> blank (cl_worker_id rq)" "lease_deadline ch now (cl_lease_seconds rq) = Inr u"
        "\<not> (\<exists>c. map_of (cooldowns s) (cl_queue_id rq) = Some c \<and> now2 < c)"
    by (cases "lease_deadline ch now (cl_lease_seconds rq)") auto
  then have "mq_good (snd (claim ch order rq now now2 s)) \<and> fst (claim ch order rq now now2 s) \<noteq> Panic"
  proof cases
    case (4 u)
    with claim_ok [OF good ord 4] show ?thesis by auto
  qed (use good in \<open>auto simp: claim_def locked_def mq_good_def split: sum.split\<close>)
  then show "mq_good (snd (claim ch order rq now now2 s))" "fst (claim ch order rq now now2 s) \<noteq> Panic"
    by blast+
qed

lemma reclaim_expired_leases_good:
  assumes good: "mq_good s" and ord: "iter_order order"
  shows "mq_good (snd (reclaim_expired_leases order q now s))"
    and "fst (reclaim_expired_leases order q now s) \<noteq> Panic"
proof -
  have inv: "mq_inv s" and np: "\<not> poisoned s" using good by (auto simp: mq_good_def)
  from reclaim_expired_ok [OF inv ord, of q now] np
  show "mq_good (snd (reclaim_expired_leases order q now s))"
    "fst (reclaim_expired_leases order q now s) \<noteq> Panic"
    by (auto simp: reclaim_expired_leases_def locked_def intro: mq_good_frame)
qed

lemma note_cooldown_good:
  assumes "mq_good s"
  shows "mq_good (snd (note_cooldown q until s))" and "fst (note_cooldown q until s) \<noteq> Panic"
  using assms by (auto simp: note_cooldown_def locked_def mq_good_def mq_inv_def idx_inv_def Let_def)

lemma claim_item_good:
  assumes good: "mq_good s" and ord: "iter_order order"
  shows "mq_good (snd (claim_item ch order iid w secs cap now now2 s)) \<and>
    fst (claim_item ch order iid w secs cap now now2 s) \<noteq> Panic"
proof (cases "blank w \<or> (\<exists>e. lease_deadline ch now secs = Inl e) \<or> item_at s iid = None")
  case True
  then show ?thesis using good by (auto simp: claim_item_def locked_def mq_good_def split: sum.split)
next
  case False
  then obtain u it where w: "\<not> blank w" and u: "lease_deadline ch now secs = Inr u"
    and it: "item_at s iid = Some it"
    by (cases "lease_deadline ch now secs") auto
  have inv: "mq_inv s" and np: "\<not> poisoned s" using good by (auto simp: mq_good_def)
  from reclaim_expired_ok [OF inv ord, of "queue_id it" now] obtain rs s1 where
    r: "reclaim_expired order (queue_id it) now s = Some (rs, s1)" and s1: "mq_inv s1" "same_frame s s1"
    by blast
  have g1: "mq_good s1" using mq_good_frame [OF s1 np] .
  show ?thesis
  proof (cases "item_at s1 iid")
    case None
    then show ?thesis using w u it np r g1 by (simp add: claim_item_def locked_def)
  next
    case (Some it1)
    from retire_ok [OF s1(1) Some, of now] obtain rt s2 it2 where
      rt: "retire_if_exhausted iid now s1 = (rt, s2)" and s2: "mq_inv s2" "same_frame s1 s2"
      and e: "evolves s1 s2 iid it2" and wait: "is_waiting (status it2) \<Longrightarrow> due_item it2"
      by blast
    have it2: "item_at s2 iid = Some it2" using e by (simp add: evolves_def)
    have g2: "mq_good s2" using mq_good_frame [OF s2] g1 by (simp add: mq_good_def)
    show ?thesis
    proof (cases "is_waiting (status it2)")
      case False
      then show ?thesis using w u it np r Some rt it2 g2 by (simp add: claim_item_def locked_def Let_def)
    next
      case True
      from lease_ok [OF s2(1) it2 wait [OF True], of w u now] obtain s3 where
        l: "lease iid w u now s2 = Some s3" "mq_inv s3" "same_frame s2 s3"
          "item_at s3 = (item_at s2)(iid \<mapsto> leased w u now it2)"
        by blast
      have g3: "mq_good s3" using mq_good_frame [OF l(2,3)] g2 by (simp add: mq_good_def)
      have i3: "item_at s3 iid = Some (leased w u now it2)" using l(4) by (simp add: fun_eq_iff)
      show ?thesis
        using w u it np r Some rt it2 g2 l(1) g3 i3 by (simp add: claim_item_def locked_def Let_def)
    qed
  qed
qed

section \<open>The backend as a transition system\<close>

text \<open>
  One rule per call of the backend. The premises state what the environment guarantees: a
  new identity is unused, a hash set is iterated in some order of its elements, and one
  second after the present is a representable instant.
\<close>

inductive mq_step :: "chrono \<Rightarrow> mq \<Rightarrow> mq \<Rightarrow> bool" for ch where
  enqueue: "item_at s nid = None \<Longrightarrow> mq_step ch s (snd (enqueue rq nid now s))"
| enqueue_replacing: "item_at s nid = None \<Longrightarrow> mq_step ch s (snd (enqueue_replacing rq cur nid now s))"
| claim: "iter_order order \<Longrightarrow> mq_step ch s (snd (claim ch order rq now now2 s))"
| claim_item: "iter_order order \<Longrightarrow> mq_step ch s (snd (claim_item ch order iid w secs cap now now2 s))"
| heartbeat: "mq_step ch s (snd (heartbeat ch iid w secs now s))"
| complete: "mq_step ch s (snd (complete iid w now s))"
| fail: "mq_step ch s (snd (fail ch iid w err retry now0 now s))"
| fail_with: "checked_add_secs ch now 1 \<noteq> None \<Longrightarrow> mq_step ch s (snd (fail_with ch iid w f now s))"
| reclaim: "iter_order order \<Longrightarrow> mq_step ch s (snd (reclaim_expired_leases order q now s))"
| note_cooldown: "mq_step ch s (snd (note_cooldown q until s))"

inductive mq_reach :: "chrono \<Rightarrow> mq \<Rightarrow> bool" for ch where
  start: "mq_reach ch (with_terminal_retention n)"
| step: "mq_reach ch s \<Longrightarrow> mq_step ch s s' \<Longrightarrow> mq_reach ch s'"

lemma mq_good_start: "mq_good (with_terminal_retention n)"
  by (auto simp: mq_good_def with_terminal_retention_def mq_inv_def idx_inv_def idx_core_def runset_def)

lemma fail_good:
  assumes "mq_good s"
  shows "mq_good (snd (fail ch iid w err retry now0 now s))"
proof (cases "checked_add_secs ch now0 (as_i64 (case retry of None \<Rightarrow> 1 | Some n \<Rightarrow> n))")
  case None
  then show ?thesis using assms by (simp add: fail_def)
next
  case (Some t)
  then show ?thesis
    using fail_with_good(1) [OF assms, of "\<lparr>fl_error = err, fl_error_class = None, fl_run_after = Some t\<rparr>"]
    by (simp add: fail_def)
qed

lemma mq_step_good: "mq_step ch s s' \<Longrightarrow> mq_good s \<Longrightarrow> mq_good s'"
  by (induction rule: mq_step.induct)
    (simp_all add: enqueue_def enqueue_replacing_def enqueue_inner_good(1) claim_good(1)
      claim_item_good heartbeat_good(1) complete_good(1) fail_good fail_with_good(1)
      reclaim_expired_leases_good(1) note_cooldown_good(1))

lemma mq_reach_good: "mq_reach ch s \<Longrightarrow> mq_good s"
  by (induction rule: mq_reach.induct) (auto simp: mq_good_start intro: mq_step_good)

end
