(* ===== verification/Queue_Contract.thy ===== *)
theory Queue_Contract
  imports Queue_Types
begin

text \<open>
  The contract of the trait \<^verbatim>\<open>QueueBackend\<close> (crate \<^verbatim>\<open>symbiotic-queue\<close>, file \<^verbatim>\<open>lib.rs\<close>) as
  locales, and what a client may conclude from it.

  \<^item> \<open>fenced_store\<close>: the three calls a worker makes on an item it was leased. Each goes
    through only while the worker's lease is live, and is otherwise refused with no effect.
  \<^item> \<open>lease_queue\<close>: leasing one item on top of that.
  \<^item> \<open>keyed_queue\<close>: enqueueing under an idempotency key.

  The theories \<open>Memory_Queue_Contract\<close> and \<open>Sqlite_Queue_Props\<close> interpret all of them on the
  two backends.
\<close>

section \<open>Vocabulary of the contract\<close>

definition holds_lease :: "QueueItem option \<Rightarrow> string \<Rightarrow> time \<Rightarrow> bool" where
  "holds_lease x worker now \<longleftrightarrow>
     (case x of
        None \<Rightarrow> False
      | Some it \<Rightarrow> status it = Running \<and> lease_owner it = Some worker \<and>
          (case lease_until it of None \<Rightarrow> False | Some until \<Rightarrow> now \<le> until))"

definition refusal :: "QueueItem option \<Rightarrow> QueueError" where
  "refusal x =
     (case x of
        None \<Rightarrow> NotFound InvalidConfiguration
      | Some it \<Rightarrow> if status it \<noteq> Running then NotRunning InvalidConfiguration
                   else LeaseMismatch InvalidConfiguration)"

definition completed :: "time \<Rightarrow> QueueItem \<Rightarrow> QueueItem" where
  "completed now it =
     it\<lparr>status := Succeeded, lease_owner := None, lease_until := None, last_error := None,
        last_error_class := None, updated_at := now\<rparr>"

text \<open>
  A failure is retried while attempts remain, moved to the dead letters when they are spent
  and stopped when the failure carries no deadline.
\<close>

definition failed_status :: "Failure \<Rightarrow> QueueItem \<Rightarrow> QueueStatus" where
  "failed_status f it =
     (case fl_run_after f of
        None \<Rightarrow> Stopped
      | Some _ \<Rightarrow> if attempt it < max_attempts it then Failed else Dead)"

definition failed_outcome :: "Failure \<Rightarrow> QueueItem \<Rightarrow> FailOutcome" where
  "failed_outcome f it =
     (case fl_run_after f of
        None \<Rightarrow> FailStopped
      | Some _ \<Rightarrow> if attempt it < max_attempts it then RetryScheduled else MovedToDead)"

definition failed_at :: "Failure \<Rightarrow> time \<Rightarrow> time \<Rightarrow> QueueItem \<Rightarrow> QueueItem" where
  "failed_at f t now it =
     it\<lparr>status := failed_status f it, run_after := t, lease_owner := None, lease_until := None,
        last_error := Some (fl_error f), last_error_class := fl_error_class f, updated_at := now\<rparr>"

definition renewed :: "time \<Rightarrow> time \<Rightarrow> QueueItem \<Rightarrow> QueueItem" where
  "renewed until now it = it\<lparr>lease_until := Some until, updated_at := now\<rparr>"

definition leased_to :: "string \<Rightarrow> time \<Rightarrow> QueueItem \<Rightarrow> QueueItem \<Rightarrow> bool" where
  "leased_to worker until it0 it \<longleftrightarrow>
     status it = Running \<and> lease_owner it = Some worker \<and> lease_until it = Some until \<and>
     item_id it = item_id it0 \<and> queue_id it = queue_id it0 \<and> payload it = payload it0 \<and>
     max_attempts it = max_attempts it0 \<and> attempt it0 < max_attempts it0 \<and>
     attempt it \<le> max_attempts it"

lemma holds_lease_None [simp]: "\<not> holds_lease None w now"
  by (simp add: holds_lease_def)

lemma holds_lease_Some:
  "holds_lease (Some it) w now \<longleftrightarrow>
     status it = Running \<and> lease_owner it = Some w \<and> (\<exists>u. lease_until it = Some u \<and> now \<le> u)"
  by (auto simp: holds_lease_def split: option.split)

lemma holds_leaseE:
  assumes "holds_lease x w now"
  obtains it u where "x = Some it" "status it = Running" "lease_owner it = Some w"
    "lease_until it = Some u" "now \<le> u"
  using assms by (auto simp: holds_lease_def split: option.splits)

lemma completed_final [simp]:
  "status (completed now it) = Succeeded" "item_id (completed now it) = item_id it"
  by (simp_all add: completed_def)

lemma failed_at_not_running [simp]:
  "status (failed_at f t now it) = failed_status f it" "failed_status f it \<noteq> Running"
  by (simp_all add: failed_at_def failed_status_def split: option.split)

lemma not_running_fenced:
  "status it \<noteq> Running \<Longrightarrow> \<not> holds_lease (Some it) w now"
  "status it \<noteq> Running \<Longrightarrow> refusal (Some it) = NotRunning InvalidConfiguration"
  by (auto simp: holds_lease_Some refusal_def)

lemma one_holder: "holds_lease x w now \<Longrightarrow> holds_lease x w' now' \<Longrightarrow> w = w'"
  by (auto elim!: holds_leaseE)

section \<open>Acknowledging under a lease\<close>

text \<open>
  \<open>good\<close> is the backend's invariant and \<open>look\<close> its view of one item. Each call receives the
  instant it records (\<open>now\<close>) and the one it checks the lease against (\<open>chk\<close>).
\<close>

locale fenced_store =
  fixes good :: "'s \<Rightarrow> bool"
    and look :: "'s \<Rightarrow> string \<Rightarrow> QueueItem option"
    and ack :: "string \<Rightarrow> string \<Rightarrow> time \<Rightarrow> time \<Rightarrow> 's \<Rightarrow> unit outcome \<times> 's"
    and nack :: "string \<Rightarrow> string \<Rightarrow> Failure \<Rightarrow> time \<Rightarrow> time \<Rightarrow> 's \<Rightarrow> FailOutcome outcome \<times> 's"
  assumes ack_live: "good s \<Longrightarrow> look s i = Some it \<Longrightarrow> holds_lease (Some it) w chk \<Longrightarrow> now \<le> chk \<Longrightarrow>
      \<exists>s'. ack i w now chk s = (Ok (), s') \<and> good s' \<and> (\<exists>t. look s' i = Some (completed t it)) \<and>
        (\<forall>j x. j \<noteq> i \<longrightarrow> look s j = Some x \<longrightarrow> is_active (status x) \<longrightarrow> look s' j = Some x)"
    and ack_fenced: "good s \<Longrightarrow> \<not> holds_lease (look s i) w chk \<Longrightarrow>
      ack i w now chk s = (Err (refusal (look s i)), s)"
    and nack_live: "good s \<Longrightarrow> look s i = Some it \<Longrightarrow> holds_lease (Some it) w chk \<Longrightarrow>
      fl_run_after f \<noteq> None \<Longrightarrow>
      \<exists>s'. nack i w f now chk s = (Ok (failed_outcome f it), s') \<and> good s' \<and>
        (\<exists>t. look s' i = Some (failed_at f (the (fl_run_after f)) t it)) \<and>
        (\<forall>j x. j \<noteq> i \<longrightarrow> look s j = Some x \<longrightarrow> is_active (status x) \<longrightarrow> look s' j = Some x)"
    and nack_fenced: "good s \<Longrightarrow> fl_run_after f \<noteq> None \<Longrightarrow> \<not> holds_lease (look s i) w chk \<Longrightarrow>
      nack i w f now chk s = (Err (refusal (look s i)), s)"
begin

lemma ack_iff_lease:
  "good s \<Longrightarrow> now \<le> chk \<Longrightarrow> fst (ack i w now chk s) = Ok () \<longleftrightarrow> holds_lease (look s i) w chk"
  using ack_live [of s i] ack_fenced [of s i w chk now]
  by (cases "look s i"; cases "holds_lease (look s i) w chk") force+

lemma acked_is_final:
  assumes "good s" and "now \<le> chk" and "fst (ack i w now chk s) = Ok ()"
  shows "ack i w' now' chk' (snd (ack i w now chk s)) =
      (Err (NotRunning InvalidConfiguration), snd (ack i w now chk s))"
    and "fl_run_after f \<noteq> None \<Longrightarrow> nack i w' f now' chk' (snd (ack i w now chk s)) =
      (Err (NotRunning InvalidConfiguration), snd (ack i w now chk s))"
proof -
  have "holds_lease (look s i) w chk" using assms ack_iff_lease by blast
  then obtain it where it: "look s i = Some it" "holds_lease (Some it) w chk"
    by (metis holds_leaseE)
  obtain s' t where s': "ack i w now chk s = (Ok (), s')" "good s'" "look s' i = Some (completed t it)"
    using ack_live [OF assms(1) it assms(2)] by blast
  note nr = not_running_fenced [of "completed t it", simplified]
  show "ack i w' now' chk' (snd (ack i w now chk s)) =
      (Err (NotRunning InvalidConfiguration), snd (ack i w now chk s))"
    using ack_fenced [of s' i w' chk' now'] s' nr by simp
  show "nack i w' f now' chk' (snd (ack i w now chk s)) =
      (Err (NotRunning InvalidConfiguration), snd (ack i w now chk s))" if "fl_run_after f \<noteq> None"
    using nack_fenced [OF _ that, of s' i w' chk' now'] s' nr by simp
qed

lemma nacked_releases:
  assumes "good s" and "fl_run_after f \<noteq> None" and "fst (nack i w f now chk s) = Ok r"
  shows "ack i w' now' chk' (snd (nack i w f now chk s)) =
      (Err (NotRunning InvalidConfiguration), snd (nack i w f now chk s))"
proof -
  have h: "holds_lease (look s i) w chk" using assms nack_fenced [OF assms(1,2), of i w chk now] by force
  then obtain it where it: "look s i = Some it" "holds_lease (Some it) w chk" by (metis holds_leaseE)
  obtain s' t where s': "nack i w f now chk s = (Ok (failed_outcome f it), s')" "good s'"
      "look s' i = Some (failed_at f (the (fl_run_after f)) t it)"
    using nack_live [OF assms(1) it assms(2)] by blast
  note nr = not_running_fenced [of "failed_at f (the (fl_run_after f)) t it", simplified]
  show ?thesis using ack_fenced [of s' i w' chk' now'] s' nr by simp
qed

lemma ack_keeps_other_leases:
  assumes "good s" and "now \<le> chk" and "j \<noteq> i" and "holds_lease (look s j) w' t"
  shows "holds_lease (look (snd (ack i w now chk s)) j) w' t"
proof (cases "holds_lease (look s i) w chk")
  case False
  with assms ack_fenced [of s i w chk now] show ?thesis by simp
next
  case True
  then obtain it where it: "look s i = Some it" "holds_lease (Some it) w chk" by (metis holds_leaseE)
  from assms(4) obtain x where x: "look s j = Some x" "status x = Running" by (metis holds_leaseE)
  then have "look (snd (ack i w now chk s)) j = Some x"
    using ack_live [OF assms(1) it assms(2)] assms(3) by auto
  with assms(4) x show ?thesis by simp
qed

end

section \<open>Leasing one item\<close>

text \<open>
  \<open>env now s\<close> is what the backend needs of its environment at a claim: for the in-process
  queue the iteration order of a hash set is a permutation, for SQLite the stored text of
  the leases compares as the instants do.
\<close>

locale lease_queue = fenced_store good look ack nack
  for good :: "'s \<Rightarrow> bool"
    and look :: "'s \<Rightarrow> string \<Rightarrow> QueueItem option"
    and ack :: "string \<Rightarrow> string \<Rightarrow> time \<Rightarrow> time \<Rightarrow> 's \<Rightarrow> unit outcome \<times> 's"
    and nack :: "string \<Rightarrow> string \<Rightarrow> Failure \<Rightarrow> time \<Rightarrow> time \<Rightarrow> 's \<Rightarrow> FailOutcome outcome \<times> 's" +
  fixes ch :: chrono
    and env :: "time \<Rightarrow> 's \<Rightarrow> bool"
    and take_item :: "string \<Rightarrow> string \<Rightarrow> nat \<Rightarrow> nat option \<Rightarrow> time \<Rightarrow> 's \<Rightarrow> QueueItem option outcome \<times> 's"
  assumes take_leases: "good s \<Longrightarrow> env now s \<Longrightarrow> take_item i w secs cap now s = (Ok (Some it), s') \<Longrightarrow>
      good s' \<and> look s' i = Some it \<and>
      (\<exists>it0 until. look s i = Some it0 \<and> lease_deadline ch now secs = Inr until \<and> leased_to w until it0 it)"
    and take_excluded: "good s \<Longrightarrow> env now s \<Longrightarrow> holds_lease (look s i) w' now \<Longrightarrow>
      fst (take_item i w secs cap now s) \<noteq> Ok (Some it)"
begin

lemma taken_holds_lease:
  assumes "good s" and "env now s" and "take_item i w secs cap now s = (Ok (Some it), s')"
    and "lease_deadline ch now secs = Inr until" and "t \<le> until"
  shows "holds_lease (look s' i) w t"
  using take_leases [OF assms(1-3)] assms(4,5) by (auto simp: holds_lease_Some leased_to_def)

lemma taken_can_be_acked:
  assumes "good s" and "env now s" and "take_item i w secs cap now s = (Ok (Some it), s')"
    and "lease_deadline ch now secs = Inr until" and "chk \<le> until" and "done \<le> chk"
  shows "fst (ack i w done chk s') = Ok ()"
  using ack_iff_lease [of s' "done" chk i w] take_leases [OF assms(1-3)] taken_holds_lease [OF assms(1-5)] assms(6)
  by blast

lemma no_double_lease:
  assumes "good s" and "env now s" and "take_item i w secs cap now s = (Ok (Some it), s')"
    and "lease_deadline ch now secs = Inr until" and "now' \<le> until" and "env now' s'"
  shows "fst (take_item i w' secs' cap' now' s') \<noteq> Ok (Some it')"
  using take_excluded [OF _ assms(6) taken_holds_lease [OF assms(1-5)]] take_leases [OF assms(1-3)] by blast

end

section \<open>Enqueueing under a key\<close>

text \<open>
  \<open>env rq now s\<close> is what an insertion needs of its environment: nothing in process, for SQLite
  a clock that reads later than the items stored under the same key.
\<close>

locale keyed_queue =
  fixes good :: "'s \<Rightarrow> bool"
    and look :: "'s \<Rightarrow> string \<Rightarrow> QueueItem option"
    and env :: "EnqueueRequest \<Rightarrow> time \<Rightarrow> 's \<Rightarrow> bool"
    and put :: "EnqueueRequest \<Rightarrow> string \<Rightarrow> time \<Rightarrow> 's \<Rightarrow> EnqueueOutcome outcome \<times> 's"
  assumes put_fresh: "good s \<Longrightarrow> look s nid = None \<Longrightarrow> env rq now s \<Longrightarrow> put rq nid now s = (Ok r, s') \<Longrightarrow>
      disposition r = Inserted \<Longrightarrow>
      good s' \<and> look s' nid = Some (out_item r) \<and> item_id (out_item r) = nid \<and>
      is_active (status (out_item r)) \<and> queue_id (out_item r) = rq_queue_id rq \<and>
      idempotency_key (out_item r) = rq_idempotency_key rq"
    and put_active: "good s \<Longrightarrow> look s i = Some it \<Longrightarrow> is_active (status it) \<Longrightarrow>
      idempotency_key it = Some k \<Longrightarrow> rq_idempotency_key rq = Some k \<Longrightarrow> rq_queue_id rq = queue_id it \<Longrightarrow>
      \<not> blank (rq_kind rq) \<Longrightarrow>
      put rq nid now s = (Ok \<lparr>out_item = it, disposition = ActiveDuplicate\<rparr>, s)"
    and put_refused: "blank (rq_kind rq) \<Longrightarrow>
      put rq nid now s = (Err (InvalidRequest QueueItemKindMustNotBeEmpty), s)"
begin

lemma put_twice:
  assumes "good s" and "look s nid = None" and "env rq now s" and "put rq nid now s = (Ok r, s')"
    and "disposition r = Inserted" and "rq_idempotency_key rq = Some k"
    and "rq_queue_id rq' = rq_queue_id rq" and "rq_idempotency_key rq' = Some k" and "\<not> blank (rq_kind rq')"
  shows "put rq' nid' now' s' = (Ok \<lparr>out_item = out_item r, disposition = ActiveDuplicate\<rparr>, s')"
  using put_fresh [OF assms(1-5)] put_active [of s' nid "out_item r" k rq' nid' now'] assms(6-9) by metis

lemma one_active_per_key:
  assumes "good s" and "look s i = Some x" and "look s j = Some y"
    and "is_active (status x)" and "is_active (status y)"
    and "queue_id x = queue_id y" and "idempotency_key x = Some k" and "idempotency_key y = Some k"
  shows "x = y"
proof -
  define rq where "rq = \<lparr>rq_queue_id = queue_id x, rq_kind = ''k'', rq_payload = payload x,
    rq_idempotency_key = Some k, rq_run_after = None, rq_max_attempts = None, rq_force = False\<rparr>"
  have nb: "\<not> blank (rq_kind rq)" by (simp add: rq_def blank_def)
  show ?thesis
    using put_active [OF assms(1,2,4,7), of rq] put_active [OF assms(1,3,5,8), of rq] nb assms(6)
    by (simp add: rq_def)
qed

end

end
