(* ===== verification/Memory_Queue_Contract.thy ===== *)
theory Memory_Queue_Contract
  imports Memory_Queue_Inv Queue_Contract
begin

text \<open>
  The in-process queue implements the contract of the trait: the locales of \<open>Queue_Contract\<close>
  are interpreted on the operations of \<open>Memory_Queue\<close>, and the properties of this backend
  are stated over them. Each property is followed by an instance at a concrete state.
\<close>

section \<open>Operations on a live lease\<close>

lemma live_lease_holds: "live_lease s i w now = holds_lease (item_at s i) w now"
  by (simp add: live_lease_def holds_lease_def)

lemma fence_error_refusal: "fence_error s i = refusal (item_at s i)"
  by (simp add: fence_error_def refusal_def)

lemma fenced_refused:
  assumes "mq_good s" and "\<not> holds_lease (item_at s i) w now"
  shows "locked (\<lambda>s. emit_result err f (update_running i w now upd s)) s = (Err (refusal (item_at s i)), s)"
  using assms update_running_fenced [of s i w now upd]
  by (simp add: locked_def mq_good_def emit_result_def live_lease_holds fence_error_refusal)

lemma evolves_keeps_active:
  "evolves s s' i it' \<Longrightarrow> j \<noteq> i \<Longrightarrow> item_at s j = Some x \<Longrightarrow> is_active (status x) \<Longrightarrow> item_at s' j = Some x"
  by (auto simp: evolves_def is_terminal_iff)

lemma evolves_view:
  "evolves s s' i it' \<Longrightarrow> item_at s' i = Some it' \<and>
     (\<forall>j x. j \<noteq> i \<longrightarrow> item_at s j = Some x \<longrightarrow> is_active (status x) \<longrightarrow> item_at s' j = Some x)"
  using evolves_keeps_active by (blast intro: conjunct1 [OF evolves_def [THEN iffD1]])

lemma live_update:
  assumes good: "mq_good s" and it: "item_at s i = Some it" and live: "holds_lease (Some it) w now"
    and upd: "upd it = Some (Inr (it1, st))" and si: "same_index it it1"
    and ok: "item_ok (it1\<lparr>status := st\<rparr>)"
  shows "\<exists>s'. locked (\<lambda>s. emit_result err f (update_running i w now upd s)) s = (Ok (f (it1\<lparr>status := st\<rparr>)), s') \<and>
    mq_good s' \<and> evolves s s' i (it1\<lparr>status := st\<rparr>)"
proof -
  have inv: "mq_inv s" and np: "\<not> poisoned s" using good by (auto simp: mq_good_def)
  have run: "is_active (status it)" using live by (auto simp: holds_lease_Some)
  let ?s' = "set_status i st (put_item i it1 s)"
  note T = transition_put_first [OF inv it run si ok]
  have "update_running i w now upd s = Some (Inr (it1\<lparr>status := st\<rparr>), ?s')"
    by (rule update_running_live [where upd = upd, OF inv _ it upd si ok]) (simp add: live_lease_holds it live)
  then have "locked (\<lambda>s. emit_result err f (update_running i w now upd s)) s =
      (Ok (f (it1\<lparr>status := st\<rparr>)), emit [(it1\<lparr>status := st\<rparr>, err)] ?s')"
    using np by (simp add: locked_def emit_result_def)
  moreover have "mq_good (emit [(it1\<lparr>status := st\<rparr>, err)] ?s')" using T(1) np by (simp add: mq_good_def)
  moreover have "evolves s (emit [(it1\<lparr>status := st\<rparr>, err)] ?s') i (it1\<lparr>status := st\<rparr>)"
    using T(2) by (simp add: evolves_def)
  ultimately show ?thesis by blast
qed

lemma complete_live:
  assumes "mq_good s" and it: "item_at s i = Some it" and "holds_lease (Some it) w now"
  shows "\<exists>s'. complete i w now s = (Ok (), s') \<and> mq_good s' \<and> evolves s s' i (completed now it)"
proof -
  let ?it1 = "it\<lparr>lease_owner := None, lease_until := None, last_error := None,
    last_error_class := None, updated_at := now\<rparr>"
  have "mq_inv s" using assms(1) by (simp add: mq_good_def)
  then have "item_ok it" using it by (rule mq_item_ok)
  then have ok: "item_ok (?it1\<lparr>status := Succeeded\<rparr>)" by (simp add: item_ok_def)
  have eq: "?it1\<lparr>status := Succeeded\<rparr> = completed now it" by (simp add: completed_def)
  have si: "same_index it ?it1" by (simp add: same_index_def)
  show ?thesis
    using live_update [where upd = "\<lambda>it. Some (Inr (it\<lparr>lease_owner := None, lease_until := None,
        last_error := None, last_error_class := None, updated_at := now\<rparr>, Succeeded))",
        OF assms refl si ok, of None "\<lambda>_. ()"]
    unfolding complete_def eq .
qed

lemma complete_fenced:
  assumes "mq_good s" and "\<not> holds_lease (item_at s i) w now"
  shows "complete i w now s = (Err (refusal (item_at s i)), s)"
  unfolding complete_def by (rule fenced_refused [OF assms])

lemma failed_ok: "item_ok it \<Longrightarrow> item_ok (failed_at f t now it)"
  by (auto simp: item_ok_def failed_at_def failed_status_def split: option.split)

lemma fail_status_spec: "fail_status f it = failed_status f it"
  by (auto simp: fail_status_def failed_status_def split: option.split)

lemma fail_outcome_spec: "fail_outcome (failed_status f it) = failed_outcome f it"
  by (auto simp: fail_outcome_def failed_status_def failed_outcome_def split: option.split)

lemma fail_with_live:
  assumes "mq_good s" and it: "item_at s i = Some it" and "holds_lease (Some it) w now"
    and t: "(case fl_run_after f of Some t \<Rightarrow> Some t | None \<Rightarrow> checked_add_secs ch now 1) = Some t"
  shows "\<exists>s'. fail_with ch i w f now s = (Ok (failed_outcome f it), s') \<and> mq_good s' \<and>
    evolves s s' i (failed_at f t now it)"
proof -
  let ?it1 = "it\<lparr>run_after := t, lease_owner := None, lease_until := None,
    last_error := Some (fl_error f), last_error_class := fl_error_class f, updated_at := now\<rparr>"
  have eq: "?it1\<lparr>status := failed_status f it\<rparr> = failed_at f t now it" by (simp add: failed_at_def)
  have "mq_inv s" using assms(1) by (simp add: mq_good_def)
  then have ok: "item_ok (?it1\<lparr>status := failed_status f it\<rparr>)"
    unfolding eq using it mq_item_ok failed_ok by blast
  have si: "same_index it ?it1" by (simp add: same_index_def)
  show ?thesis
    using live_update [where upd = "\<lambda>it. case (case fl_run_after f of Some t \<Rightarrow> Some t | None \<Rightarrow> checked_add_secs ch now 1) of
        None \<Rightarrow> None
      | Some t \<Rightarrow> Some (Inr (it\<lparr>run_after := t, lease_owner := None, lease_until := None,
          last_error := Some (fl_error f), last_error_class := fl_error_class f, updated_at := now\<rparr>, fail_status f it))",
        OF assms(1-3) _ si ok, of "Some (fl_error f)" "\<lambda>it. fail_outcome (status it)"]
    unfolding fail_with_def eq by (simp add: t fail_status_spec fail_outcome_spec)
qed

lemma fail_with_fenced:
  assumes "mq_good s" and "\<not> holds_lease (item_at s i) w now"
  shows "fail_with ch i w f now s = (Err (refusal (item_at s i)), s)"
  unfolding fail_with_def by (rule fenced_refused [OF assms])

lemma heartbeat_live:
  assumes "mq_good s" and it: "item_at s i = Some it" and live: "holds_lease (Some it) w now"
    and u: "lease_deadline ch now secs = Inr u"
  shows "\<exists>s'. heartbeat ch i w secs now s = (Ok (), s') \<and> mq_good s' \<and> evolves s s' i (renewed u now it)"
proof -
  have run: "status it = Running" using live by (simp add: holds_lease_Some)
  then have eq: "(it\<lparr>lease_until := Some u, updated_at := now\<rparr>)\<lparr>status := Running\<rparr> = renewed u now it"
    by (simp add: renewed_def)
  have "mq_inv s" using assms(1) by (simp add: mq_good_def)
  then have "item_ok it" using it by (rule mq_item_ok)
  then have ok: "item_ok ((it\<lparr>lease_until := Some u, updated_at := now\<rparr>)\<lparr>status := Running\<rparr>)"
    using run by (simp add: item_ok_def)
  show ?thesis
    using live_update [where upd = "\<lambda>it. Some (case lease_deadline ch now secs of
        Inl e \<Rightarrow> Inl e | Inr until \<Rightarrow> Inr (it\<lparr>lease_until := Some until, updated_at := now\<rparr>, Running))",
        OF assms(1-3) _ _ ok, of None "\<lambda>_. ()"]
    unfolding heartbeat_def eq by (simp add: u same_index_def)
qed

interpretation mq_fence: fenced_store mq_good item_at
  "\<lambda>i w now chk. complete i w chk" "\<lambda>i w f now chk. fail_with ch i w f chk"
proof unfold_locales
  fix s i w and f :: Failure and it :: QueueItem and chk now :: time
  assume g: "mq_good s"
  {
    assume "item_at s i = Some it" "holds_lease (Some it) w chk"
    from complete_live [OF g this] obtain s' where "complete i w chk s = (Ok (), s')" "mq_good s'"
      "evolves s s' i (completed chk it)" by blast
    with evolves_view [OF this(3)] show "\<exists>s'. complete i w chk s = (Ok (), s') \<and> mq_good s' \<and>
        (\<exists>t. item_at s' i = Some (completed t it)) \<and>
        (\<forall>j x. j \<noteq> i \<longrightarrow> item_at s j = Some x \<longrightarrow> is_active (status x) \<longrightarrow> item_at s' j = Some x)"
      by (intro exI [of _ s'] conjI exI [of _ chk]) simp_all
  }
  {
    assume h: "item_at s i = Some it" "holds_lease (Some it) w chk" and r: "fl_run_after f \<noteq> None"
    then have "(case fl_run_after f of Some t \<Rightarrow> Some t | None \<Rightarrow> checked_add_secs ch chk 1) = Some (the (fl_run_after f))"
      by auto
    from fail_with_live [OF g h this] obtain s' where
      "fail_with ch i w f chk s = (Ok (failed_outcome f it), s')" "mq_good s'"
      "evolves s s' i (failed_at f (the (fl_run_after f)) chk it)" by blast
    with evolves_view [OF this(3)]
    show "\<exists>s'. fail_with ch i w f chk s = (Ok (failed_outcome f it), s') \<and> mq_good s' \<and>
        (\<exists>t. item_at s' i = Some (failed_at f (the (fl_run_after f)) t it)) \<and>
        (\<forall>j x. j \<noteq> i \<longrightarrow> item_at s j = Some x \<longrightarrow> is_active (status x) \<longrightarrow> item_at s' j = Some x)"
      by (intro exI [of _ s'] conjI exI [of _ chk]) simp_all
  }
qed (simp_all add: complete_fenced fail_with_fenced)

section \<open>Leasing one item\<close>

lemma claim_item_ok:
  assumes good: "mq_good s" and ord: "iter_order order"
    and cl: "claim_item ch order i w secs cap now now2 s = (Ok (Some x), s')"
  shows "\<exists>it u. item_at s i = Some it \<and> lease_deadline ch now secs = Inr u \<and> mq_good s' \<and>
    due_item (if due (queue_id it) now it then reclaimed_item now it else it) \<and>
    x = leased w u now (if due (queue_id it) now it then reclaimed_item now it else it) \<and> item_at s' i = Some x"
proof -
  have np: "\<not> poisoned s" and inv: "mq_inv s" using good by (auto simp: mq_good_def)
  obtain u it where w: "\<not> blank w" and u: "lease_deadline ch now secs = Inr u" and it: "item_at s i = Some it"
    using cl np by (auto simp: claim_item_def locked_def split: if_splits sum.splits option.splits)
  from reclaim_expired_ok [OF inv ord, of "queue_id it" now] obtain rs s1 where
    r: "reclaim_expired order (queue_id it) now s = Some (rs, s1)" and s1: "mq_inv s1" "same_frame s s1"
    and m1: "modulo_evict (reclaim_map (queue_id it) now s) s1"
    by blast
  obtain it1 where it1: "item_at s1 i = Some it1"
    using cl w u it np r by (cases "item_at s1 i") (auto simp: claim_item_def locked_def)
  have it1': "it1 = (if due (queue_id it) now it then reclaimed_item now it else it)"
    using modulo_evict_Some [OF m1 it1] it by (auto simp: reclaim_map_def)
  from retire_ok [OF s1(1) it1, of now] obtain rt s2 it2 where
    rt: "retire_if_exhausted i now s1 = (rt, s2)" and s2: "mq_inv s2" "same_frame s1 s2"
    and e: "evolves s1 s2 i it2" and wait: "is_waiting (status it2) \<Longrightarrow> due_item it2 \<and> it2 = it1"
    by blast
  have it2: "item_at s2 i = Some it2" using e by (simp add: evolves_def)
  have wt: "is_waiting (status it2)"
    using cl w u it np r it1 rt it2 by (auto simp: claim_item_def locked_def Let_def split: if_splits)
  from lease_ok [OF s2(1) it2 conjunct1 [OF wait [OF wt]], of w u now] obtain s3 where
    l: "lease i w u now s2 = Some s3" "mq_inv s3" "same_frame s2 s3"
      "item_at s3 = (item_at s2)(i \<mapsto> leased w u now it2)"
    by blast
  have i3: "item_at s3 i = Some (leased w u now it2)" using l(4) by (simp add: fun_eq_iff)
  have g3: "mq_good s3"
    using mq_good_frame [OF l(2) same_frame_trans [OF s1(2) same_frame_trans [OF s2(2) l(3)]] np] .
  have "x = leased w u now it2 \<and> (\<exists>evs. s' = emit evs s3)"
    using cl w u it np r it1 rt it2 l(1) i3
    by (auto simp: claim_item_def locked_def Let_def split: if_splits)
  with u it g3 i3 it1' wait [OF wt] show ?thesis by auto
qed

lemma claim_item_leases:
  assumes "mq_good s" and "iter_order order"
    and "claim_item ch order i w secs cap now now2 s = (Ok (Some x), s')"
  shows "mq_good s' \<and> item_at s' i = Some x \<and>
    (\<exists>it until. item_at s i = Some it \<and> lease_deadline ch now secs = Inr until \<and> leased_to w until it x)"
proof -
  from claim_item_ok [OF assms] obtain it u where
    c: "item_at s i = Some it" "lease_deadline ch now secs = Inr u" "mq_good s'"
      "due_item (if due (queue_id it) now it then reclaimed_item now it else it)"
      "x = leased w u now (if due (queue_id it) now it then reclaimed_item now it else it)"
      "item_at s' i = Some x"
    by blast
  have "leased_to w u it x"
    using c(4,5)
    by (auto simp: leased_to_def due_item_def leased_def reclaimed_item_def reclaim_fields_def saturating_add_u32_def
        split: if_splits)
  with c show ?thesis by blast
qed

lemma claim_item_excluded:
  assumes "mq_good s" and "iter_order order" and "holds_lease (item_at s i) w' now"
  shows "fst (claim_item ch order i w secs cap now now2 s) \<noteq> Ok (Some x)"
proof
  assume "fst (claim_item ch order i w secs cap now now2 s) = Ok (Some x)"
  then obtain s' where "claim_item ch order i w secs cap now now2 s = (Ok (Some x), s')"
    by (metis prod.collapse)
  from claim_item_ok [OF assms(1,2) this] assms(3) show False
    by (auto simp: due_def lapsed_def due_item_def elim!: holds_leaseE)
qed

interpretation mq_lease: lease_queue mq_good item_at
  "\<lambda>i w now chk. complete i w chk" "\<lambda>i w f now chk. fail_with ch i w f chk"
  ch "\<lambda>now s. iter_order order" "\<lambda>i w secs cap now s. claim_item ch order i w secs cap now now2 s"
  by unfold_locales (fact claim_item_leases claim_item_excluded)+

section \<open>Enqueueing under a key\<close>

lemma enqueue_active:
  assumes "mq_good s" and "item_at s i = Some it" and "is_active (status it)"
    and "idempotency_key it = Some k" and "rq_idempotency_key rq = Some k" and "rq_queue_id rq = queue_id it"
    and "\<not> blank (rq_kind rq)"
  shows "enqueue rq nid now s = (Ok \<lparr>out_item = it, disposition = ActiveDuplicate\<rparr>, s)"
proof -
  have "mq_inv s" "\<not> poisoned s" using assms(1) by (auto simp: mq_good_def)
  moreover have "existing_for rq s = Some it"
    using existing_for_key [OF \<open>mq_inv s\<close> assms(5,2)] assms(3,4,6) by simp
  ultimately show ?thesis
    using assms(3,7) by (simp add: enqueue_def enqueue_inner_def locked_def deduplicates_def)
qed

lemma enqueue_inserted:
  assumes good: "mq_good s" and fresh: "item_at s nid = None"
    and e: "enqueue_inner rq r nid now s = (Ok out, s')" and d: "disposition out = Inserted"
  shows "mq_good s' \<and> item_at s' nid = Some (new_item rq nid now) \<and> out_item out = new_item rq nid now"
proof -
  have "mq_good s'" using enqueue_inner_good(1) [OF good fresh, of rq r now] e by simp
  moreover have "out_item out = new_item rq nid now \<and>
      s' = emit [(new_item rq nid now, None)] (insert_item (new_item rq nid now) (stop_replaced r s))"
    using e d good
    by (auto simp: enqueue_inner_def locked_def Let_def mq_good_def split: if_splits option.splits)
  moreover have "item_at (insert_item (new_item rq nid now) (stop_replaced r s)) nid = Some (new_item rq nid now)"
    by (simp add: insert_item_def new_item_def split: option.split)
  ultimately show ?thesis by simp
qed

interpretation mq_key: keyed_queue mq_good item_at "\<lambda>rq now s. True" enqueue
proof unfold_locales
  fix s nid rq r s' and now :: time
  assume "mq_good s" "item_at s nid = None" "enqueue rq nid now s = (Ok r, s')" "disposition r = Inserted"
  then have "mq_good s' \<and> item_at s' nid = Some (new_item rq nid now) \<and> out_item r = new_item rq nid now"
    unfolding enqueue_def by (rule enqueue_inserted)
  then show "mq_good s' \<and> item_at s' nid = Some (out_item r) \<and> item_id (out_item r) = nid \<and>
      is_active (status (out_item r)) \<and> queue_id (out_item r) = rq_queue_id rq \<and>
      idempotency_key (out_item r) = rq_idempotency_key rq"
    by (simp add: new_item_def)
qed (simp_all add: enqueue_active, simp add: enqueue_def enqueue_inner_def)

end
