(* ===== verification/Memory_Queue_Props.thy ===== *)
theory Memory_Queue_Props
  imports Memory_Queue_Contract
begin

text \<open>
  Properties of the in-process queue, with an instance of each at a concrete state.

  The first section gives the lemmas they rest on: \<open>follows\<close> is the life cycle of one item and
  \<open>prog\<close> says that an operation moves every item along it; the other group counts the items
  in flight.
\<close>

section \<open>The life cycle of an item\<close>

definition follows :: "QueueItem \<Rightarrow> QueueItem \<Rightarrow> bool" where
  "follows it it' \<longleftrightarrow>
     item_id it' = item_id it \<and> queue_id it' = queue_id it \<and> kind it' = kind it \<and>
     payload it' = payload it \<and> max_attempts it' = max_attempts it \<and> created_at it' = created_at it \<and>
     idempotency_key it' = idempotency_key it \<and> attempt it \<le> attempt it' \<and>
     (is_terminal (status it) \<longrightarrow> it' = it)"

text \<open>
  Which items a call may let go of: a finished one, by the retention window, or a running one whose
  attempts are used up, which a sweep of the call first moves to the dead letters.
\<close>

definition droppable :: "QueueItem \<Rightarrow> bool" where
  "droppable it \<longleftrightarrow> is_terminal (status it) \<or> status it = Running \<and> max_attempts it \<le> attempt it"

definition prog :: "mq \<Rightarrow> mq \<Rightarrow> bool" where
  "prog s s' \<longleftrightarrow>
     (\<forall>i. case item_at s i of
        None \<Rightarrow> item_at s' i = None
      | Some it \<Rightarrow> (\<exists>it'. follows it it' \<and> item_at s' i = Some it') \<or>
          item_at s' i = None \<and> droppable it)"

lemma follows_refl [simp]: "follows it it"
  by (simp add: follows_def)


lemma prog_refl [simp]: "prog s s"
  by (auto simp: prog_def split: option.split intro: follows_refl)

lemma progD:
  assumes "prog s s'"
  shows prog_None: "item_at s i = None \<Longrightarrow> item_at s' i = None"
    and prog_Some: "item_at s i = Some it \<Longrightarrow>
      (\<exists>it'. follows it it' \<and> item_at s' i = Some it') \<or> item_at s' i = None \<and> droppable it"
  using assms unfolding prog_def by (auto dest!: spec [of _ i])





lemma prog_emit [simp]: "prog s (emit evs t) = prog s t"
  unfolding prog_def by (simp only: emit_frame)



section \<open>Every operation moves items along the life cycle\<close>





















section \<open>Counting what is in flight\<close>

lemma running_count_card: "idx_inv s \<Longrightarrow> running_count s q = card (runset s q)"
  by (cases "map_of (running s) q")
    (simp_all add: running_count_def runset_def distinct_card [OF idx_running_distinct])

lemma runset_items:
  "idx_inv s \<Longrightarrow> runset s q = {i. \<exists>it. item_at s i = Some it \<and> queue_id it = q \<and> status it = Running}"
  using idx_runset [of s _ q] by auto

lemma finite_runset [simp]: "finite (runset s q)"
  by (simp add: runset_def split: option.split)

lemma runset_modulo_evict:
  assumes "idx_inv s1" and "modulo_evict m s1"
  shows "runset s1 q = {i. \<exists>it. m i = Some it \<and> queue_id it = q \<and> status it = Running}"
proof -
  have "item_at s1 i = Some it \<and> status it = Running \<longleftrightarrow> m i = Some it \<and> status it = Running" for i it
    using modulo_evict_Some [OF assms(2), of i it] modulo_evict_active [OF assms(2), of i it]
    by (metis is_active_simps(2))
  then show ?thesis unfolding runset_items [OF assms(1)] by (metis (mono_tags, lifting))
qed

lemma runset_reclaim_map:
  assumes "idx_inv s"
  shows "{i. \<exists>it. reclaim_map q now s i = Some it \<and> queue_id it = q' \<and> status it = Running} \<subseteq> runset s q'"
  unfolding runset_items [OF assms] by (auto simp: reclaim_map_def split: if_splits)

definition ready_set :: "string \<Rightarrow> time \<Rightarrow> (string \<Rightarrow> QueueItem option) \<Rightarrow> QueueItem set" where
  "ready_set q now m =
     {it. \<exists>i. m i = Some it \<and> queue_id it = q \<and> is_waiting (status it) \<and> attempt it < max_attempts it \<and>
        run_after it \<le> now}"

lemma ready_items_set:
  assumes "idx_inv s1" and "modulo_evict m s1"
  shows "set (ready_items q now s1) = ready_set q now m"
proof -
  have vals: "set (map snd (items s1)) = {it. \<exists>i. item_at s1 i = Some it}"
    using map_of_in_values [OF idx_distinct [OF assms(1)]] by blast
  have "set (ready_items q now s1) = {it \<in> set (map snd (items s1)). queue_id it = q \<and>
      is_waiting (status it) \<and> attempt it < max_attempts it \<and> run_after it \<le> now}"
    unfolding ready_items_def by simp
  also have "\<dots> = ready_set q now (item_at s1)"
    unfolding vals ready_set_def by blast
  also have "\<dots> = ready_set q now m"
  proof -
    have "item_at s1 i = Some it \<and> is_waiting (status it) \<longleftrightarrow> m i = Some it \<and> is_waiting (status it)" for i it
      using modulo_evict_Some [OF assms(2), of i it] modulo_evict_active [OF assms(2), of i it]
      by (auto simp: is_active_iff)
    then show ?thesis unfolding ready_set_def by (metis (mono_tags, lifting))
  qed
  finally show ?thesis .
qed

lemma sorted_ready_items:
  "sorted (map (\<lambda>it. (run_after it, created_at it, item_id it)) (ready_items q now s))"
  by (simp add: ready_items_def)

lemma claim_state:
  assumes good: "mq_good s" and ord: "iter_order order" and w: "\<not> blank (cl_worker_id rq)"
    and dl: "lease_deadline ch now (cl_lease_seconds rq) = Inr u"
    and cd: "\<not> (\<exists>c. map_of (cooldowns s) (cl_queue_id rq) = Some c \<and> now2 < c)"
  shows "\<exists>L s2. claim ch order rq now now2 s =
      (Ok (map (leased (cl_worker_id rq) u now) (take (case cl_max_in_flight rq of
           None \<Rightarrow> max (cl_limit rq) 1
         | Some cap \<Rightarrow> min (max (cl_limit rq) 1) (cap - card {i. \<exists>it.
             reclaim_map (cl_queue_id rq) now s i = Some it \<and> queue_id it = cl_queue_id rq \<and> status it = Running})) L)), s2) \<and>
    set L = ready_set (cl_queue_id rq) now (reclaim_map (cl_queue_id rq) now s) \<and>
    distinct (map item_id L) \<and> sorted (map (\<lambda>it. (run_after it, created_at it, item_id it)) L)"
proof -
  from claim_ok [OF good ord w dl cd] obtain s1 s2 where
    g1: "mq_good s1" and m: "modulo_evict (reclaim_map (cl_queue_id rq) now s) s1"
    and c: "claim ch order rq now now2 s = (Ok (map (leased (cl_worker_id rq) u now)
               (take (claim_limit rq s1) (ready_items (cl_queue_id rq) now s1))), s2)"
    by blast
  have i1: "idx_inv s1" using g1 by (simp add: mq_good_def mq_inv_def)
  have "claim_limit rq s1 = (case cl_max_in_flight rq of
           None \<Rightarrow> max (cl_limit rq) 1
         | Some cap \<Rightarrow> min (max (cl_limit rq) 1) (cap - card {i. \<exists>it.
             reclaim_map (cl_queue_id rq) now s i = Some it \<and> queue_id it = cl_queue_id rq \<and> status it = Running}))"
    by (simp add: claim_limit_def Let_def running_count_card [OF i1] runset_modulo_evict [OF i1 m] split: option.split)
  with c show ?thesis
    by (intro exI [of _ "ready_items (cl_queue_id rq) now s1"] exI [of _ s2] conjI)
      (simp_all only: ready_items_set [OF i1 m] distinct_ready_ids [OF i1] sorted_ready_items)
qed

lemma claim_in_flight:
  assumes good: "mq_good s" and ord: "iter_order order" and cap: "cl_max_in_flight rq = Some cap"
  shows "running_count (snd (claim ch order rq now now2 s)) (cl_queue_id rq)
    \<le> max cap (running_count s (cl_queue_id rq))"
proof (cases "blank (cl_worker_id rq) \<or> (\<exists>e. lease_deadline ch now (cl_lease_seconds rq) = Inl e) \<or>
    (\<exists>c. map_of (cooldowns s) (cl_queue_id rq) = Some c \<and> now2 < c)")
  case True
  then have "snd (claim ch order rq now now2 s) = s"
    using good by (auto simp: claim_def locked_def mq_good_def split: sum.split)
  then show ?thesis by simp
next
  case False
  let ?q = "cl_queue_id rq"
  obtain u where w: "\<not> blank (cl_worker_id rq)" and u: "lease_deadline ch now (cl_lease_seconds rq) = Inr u"
    and cd: "\<not> (\<exists>c. map_of (cooldowns s) ?q = Some c \<and> now2 < c)"
    using False by (cases "lease_deadline ch now (cl_lease_seconds rq)") auto
  from claim_ok [OF good ord w u cd] obtain s1 s2 out where
    g1: "mq_good s1" and m: "modulo_evict (reclaim_map ?q now s) s1"
    and c: "claim ch order rq now now2 s = (out, s2)" and g2: "mq_good s2"
    and i2: "item_at s2 = (\<lambda>j. if j \<in> item_id ` set (take (claim_limit rq s1) (ready_items ?q now s1))
        then map_option (leased (cl_worker_id rq) u now) (item_at s1 j) else item_at s1 j)"
    by blast
  let ?I = "item_id ` set (take (claim_limit rq s1) (ready_items ?q now s1))"
  have idx: "idx_inv s" "idx_inv s1" "idx_inv s2" using good g1 g2 by (simp_all add: mq_good_def mq_inv_def)
  have "runset s2 ?q \<subseteq> runset s1 ?q \<union> ?I"
  proof
    fix j
    assume "j \<in> runset s2 ?q"
    then obtain it where "item_at s2 j = Some it" "queue_id it = ?q" "status it = Running"
      using idx_runset [OF idx(3)] by blast
    then show "j \<in> runset s1 ?q \<union> ?I"
      using idx_runset [OF idx(2), of j ?q] fun_cong [OF i2, of j] by (cases "j \<in> ?I") simp_all
  qed
  then have "card (runset s2 ?q) \<le> card (runset s1 ?q \<union> ?I)" by (intro card_mono) simp_all
  also have "\<dots> \<le> card (runset s1 ?q) + card ?I" by (rule card_Un_le)
  also have "card ?I \<le> claim_limit rq s1"
    by (rule order_trans [OF card_image_le]) (simp_all add: order_trans [OF card_length])
  also have "claim_limit rq s1 \<le> cap - card (runset s1 ?q)"
    using cap by (simp add: claim_limit_def Let_def running_count_card [OF idx(2)])
  finally have "card (runset s2 ?q) \<le> max cap (card (runset s1 ?q))" by simp
  moreover have "card (runset s1 ?q) \<le> card (runset s ?q)"
    unfolding runset_modulo_evict [OF idx(2) m] by (intro card_mono runset_reclaim_map [OF idx(1)]) simp
  ultimately show ?thesis
    by (simp add: c running_count_card [OF idx(3)] running_count_card [OF idx(1)])
qed

lemma claim_returns:
  assumes good: "mq_good s" and ord: "iter_order order"
    and c: "claim ch order rq now now2 s = (Ok out, s')" and x: "x \<in> set out"
  shows "\<exists>it u. item_at s (item_id x) = Some it \<and> lease_deadline ch now (cl_lease_seconds rq) = Inr u \<and>
    mq_good s' \<and> item_at s' (item_id x) = Some x \<and> leased_to (cl_worker_id rq) u it x \<and>
    \<not> holds_lease (Some it) w' now"
proof -
  let ?q = "cl_queue_id rq"
  have np: "\<not> poisoned s" and inv: "mq_inv s" using good by (auto simp: mq_good_def)
  obtain u where w: "\<not> blank (cl_worker_id rq)" and u: "lease_deadline ch now (cl_lease_seconds rq) = Inr u"
    and cd: "\<not> (\<exists>c. map_of (cooldowns s) ?q = Some c \<and> now2 < c)"
    using c x np by (auto simp: claim_def locked_def Let_def split: if_splits sum.splits option.splits)
  from claim_ok [OF good ord w u cd] obtain s1 s2 where
    g1: "mq_good s1" and m: "modulo_evict (reclaim_map ?q now s) s1" and g2: "mq_good s2"
    and c': "claim ch order rq now now2 s = (Ok (map (leased (cl_worker_id rq) u now)
               (take (claim_limit rq s1) (ready_items ?q now s1))), s2)"
    and i2: "item_at s2 = (\<lambda>j. if j \<in> item_id ` set (take (claim_limit rq s1) (ready_items ?q now s1))
        then map_option (leased (cl_worker_id rq) u now) (item_at s1 j) else item_at s1 j)"
    by blast
  have inv1: "mq_inv s1" using g1 by (simp add: mq_good_def)
  have eqs: "s2 = s'" "out = map (leased (cl_worker_id rq) u now) (take (claim_limit rq s1) (ready_items ?q now s1))"
    using c c' by simp_all
  from x obtain r where r: "r \<in> set (take (claim_limit rq s1) (ready_items ?q now s1))"
    and xr: "x = leased (cl_worker_id rq) u now r" unfolding eqs(2) by auto
  from r have r': "r \<in> set (ready_items ?q now s1)" by (meson in_set_takeD)
  note R = ready_items_due_item [OF inv1 r']
  from modulo_evict_Some [OF m R(1)] obtain it where it: "item_at s (item_id r) = Some it"
    and rit: "r = (if due ?q now it then reclaimed_item now it else it)"
    by (auto simp: reclaim_map_def)
  have "leased_to (cl_worker_id rq) u it x"
    using R(2) unfolding xr rit
    by (auto simp: leased_to_def due_item_def leased_def reclaimed_item_def reclaim_fields_def saturating_add_u32_def
        split: if_splits)
  moreover have "\<not> holds_lease (Some it) w' now"
    using R(2,3) rit by (auto simp: holds_lease_Some due_item_def due_def lapsed_def split: if_splits)
  moreover have "item_at s' (item_id x) = Some x"
    using i2 r R(1) by (simp add: eqs(1) [symmetric] xr)
  ultimately show ?thesis using it u g2 by (auto simp: eqs(1) [symmetric] xr)
qed

section \<open>Properties\<close>

text \<open>A queue with one item, and the same queue with the item leased; used in the instances.\<close>

definition demo_request :: "string \<Rightarrow> EnqueueRequest" where
  "demo_request key =
     \<lparr>rq_queue_id = ''q'', rq_kind = ''k'', rq_payload = ''1'', rq_idempotency_key = Some key,
      rq_run_after = None, rq_max_attempts = Some 2, rq_force = False\<rparr>"

definition demo_claim :: ClaimRequest where
  "demo_claim =
     \<lparr>cl_queue_id = ''q'', cl_worker_id = ''w'', cl_limit = 5, cl_lease_seconds = 10, cl_max_in_flight = Some 1\<rparr>"

definition demo_mq :: mq where
  "demo_mq = snd (enqueue (demo_request ''a'') ''i'' 0 (with_terminal_retention 1))"

definition demo_leased :: mq where
  "demo_leased = snd (claim plain_clock (\<lambda>xs. xs) demo_claim 1 1 demo_mq)"

lemma iter_order_id: "iter_order (\<lambda>xs. xs)"
  by (simp add: iter_order_def)

lemma demo_mq_reach: "mq_reach plain_clock demo_mq"
  unfolding demo_mq_def
  by (rule mq_reach.step [OF mq_reach.start mq_step.enqueue]) (simp add: with_terminal_retention_def)

lemma demo_leased_reach: "mq_reach plain_clock demo_leased"
  unfolding demo_leased_def
  by (rule mq_reach.step [OF demo_mq_reach mq_step.claim [OF iter_order_id]])

text \<open>
  C1. In every state the backend reaches from an empty queue, by any sequence of calls with
  any arguments, the lock is not poisoned, the indexes agree with the items (each running
  item is in the running set of its queue and nothing else is, the retention window lists
  exactly the finished items and respects its bound, the key of each active item leads to
  it) and each item is well formed: attempts within budget, a lease exactly while running.
\<close>

theorem mq_reach_safe:
  assumes "mq_reach ch s"
  shows "\<not> poisoned s \<and> mq_inv s"
  using mq_reach_good [OF assms] by (simp add: mq_good_def)

theorem mq_reach_safe_witness: "\<not> poisoned demo_leased \<and> mq_inv demo_leased"
  by (rule mq_reach_safe [OF demo_leased_reach])

text \<open>
  C31. No call on a reachable queue panics while it holds the lock, provided a new identity is
  unused and one second after the present is a representable instant.
\<close>

theorem mq_never_panics:
  assumes "mq_reach ch s" and "iter_order order" and "item_at s nid = None" and "checked_add_secs ch now 1 \<noteq> None"
  shows "fst (enqueue rq nid now s) \<noteq> Panic \<and> fst (enqueue_replacing rq cur nid now s) \<noteq> Panic \<and>
    fst (claim ch order crq now now2 s) \<noteq> Panic \<and>
    fst (claim_item ch order i w secs cap now now2 s) \<noteq> Panic \<and>
    fst (heartbeat ch i w secs now s) \<noteq> Panic \<and> fst (complete i w now s) \<noteq> Panic \<and>
    fst (fail_with ch i w f now s) \<noteq> Panic \<and> fst (reclaim_expired_leases order q now s) \<noteq> Panic"
proof -
  note g = mq_reach_good [OF assms(1)]
  have "fst (enqueue rq nid now s) \<noteq> Panic \<and> fst (enqueue_replacing rq cur nid now s) \<noteq> Panic"
    unfolding enqueue_def enqueue_replacing_def using enqueue_inner_good(2) [OF g assms(3)] by blast
  moreover have "fst (fail_with ch i w f now s) \<noteq> Panic"
    using fail_with_good(2) [OF g] assms(4) by blast
  ultimately show ?thesis
    by (simp add: g assms(2) claim_good(2) claim_item_good heartbeat_good(2) complete_good(2)
        reclaim_expired_leases_good(2))
qed

theorem mq_never_panics_witness:
  "fst (claim plain_clock (\<lambda>xs. xs) demo_claim 20 20 demo_leased) \<noteq> Panic"
proof -
  have "item_at demo_leased ''j'' = None" by code_simp
  moreover have "checked_add_secs plain_clock 20 1 \<noteq> None" by (simp add: plain_clock_def)
  ultimately show ?thesis
    using mq_never_panics [OF demo_leased_reach iter_order_id, of "''j''" 20] by blast
qed



text \<open>
  C3. What a claim returns. With a named worker, a representable deadline and no cooldown, it
  first takes back the lapsed leases of the queue, then leases the first items of the
  ready ones in the order of (run_after, created_at, item_id), as many as the requested
  limit and the in-flight cap leave room for; ready are exactly the waiting items of that
  queue with an attempt left whose time has come.
\<close>

theorem claim_spec:
  assumes "mq_reach ch s" and "iter_order order" and "\<not> blank (cl_worker_id rq)"
    and "lease_deadline ch now (cl_lease_seconds rq) = Inr u"
    and "\<not> (\<exists>c. map_of (cooldowns s) (cl_queue_id rq) = Some c \<and> now2 < c)"
  shows "\<exists>L s2. claim ch order rq now now2 s =
      (Ok (map (leased (cl_worker_id rq) u now) (take (case cl_max_in_flight rq of
           None \<Rightarrow> max (cl_limit rq) 1
         | Some cap \<Rightarrow> min (max (cl_limit rq) 1) (cap - card {i. \<exists>it.
             reclaim_map (cl_queue_id rq) now s i = Some it \<and> queue_id it = cl_queue_id rq \<and> status it = Running})) L)), s2) \<and>
    set L = ready_set (cl_queue_id rq) now (reclaim_map (cl_queue_id rq) now s) \<and>
    distinct (map item_id L) \<and> sorted (map (\<lambda>it. (run_after it, created_at it, item_id it)) L)"
  by (rule claim_state [OF mq_reach_good [OF assms(1)] assms(2-5)])

theorem claim_spec_witness:
  "\<exists>L s2. claim plain_clock (\<lambda>xs. xs) demo_claim 1 1 demo_mq =
      (Ok (map (leased ''w'' 11 1) (take (min 5 (1 - card {i. \<exists>it.
             reclaim_map ''q'' 1 demo_mq i = Some it \<and> queue_id it = ''q'' \<and> status it = Running})) L)), s2) \<and>
    set L = ready_set ''q'' 1 (reclaim_map ''q'' 1 demo_mq) \<and>
    distinct (map item_id L) \<and> sorted (map (\<lambda>it. (run_after it, created_at it, item_id it)) L)"
proof -
  have 1: "\<not> blank (cl_worker_id demo_claim)" by code_simp
  have 2: "lease_deadline plain_clock 1 (cl_lease_seconds demo_claim) = Inr 11" by code_simp
  have 3: "\<not> (\<exists>c. map_of (cooldowns demo_mq) (cl_queue_id demo_claim) = Some c \<and> 1 < c)"
  proof -
    have "map_of (cooldowns demo_mq) (cl_queue_id demo_claim) = None" by code_simp
    then show ?thesis by simp
  qed
  show ?thesis
    using claim_spec [OF demo_mq_reach iter_order_id 1 2 3] by (simp add: demo_claim_def)
qed

text \<open>
  C32. A claim never raises the number of running items of its queue above the in-flight cap it
  was given, nor above what it already was when a larger cap had been used before.
\<close>

theorem claim_respects_max_in_flight:
  assumes "mq_reach ch s" and "iter_order order" and "cl_max_in_flight rq = Some cap"
  shows "running_count (snd (claim ch order rq now now2 s)) (cl_queue_id rq)
    \<le> max cap (running_count s (cl_queue_id rq))"
  by (rule claim_in_flight [OF mq_reach_good [OF assms(1)] assms(2,3)])

theorem claim_respects_max_in_flight_witness:
  "running_count (snd (claim plain_clock (\<lambda>xs. xs) demo_claim 2 2 demo_leased)) ''q'' \<le> max 1 (running_count demo_leased ''q'')"
  using claim_respects_max_in_flight [OF demo_leased_reach iter_order_id, of demo_claim 1 2 2]
  by (simp add: demo_claim_def)

text \<open>
  C2. Leases are exclusive. An item a claim returns was under no live lease, is now leased to the
  caller with one attempt of its budget spent, and until that lease ends no other call can
  lease it while its owner can complete it.
\<close>

theorem claim_is_exclusive:
  assumes "mq_reach ch s" and "iter_order order"
    and "claim ch order rq now now2 s = (Ok out, s')" and "x \<in> set out"
    and "lease_deadline ch now (cl_lease_seconds rq) = Inr u" and "t \<le> u"
  shows "\<not> holds_lease (item_at s (item_id x)) w' now \<and>
    leased_to (cl_worker_id rq) u (the (item_at s (item_id x))) x \<and>
    fst (claim_item ch order (item_id x) w' secs cap t t2 s') \<noteq> Ok (Some y) \<and>
    (\<forall>out' s''. claim ch order rq' t t2 s' = (Ok out', s'') \<longrightarrow> item_id x \<notin> item_id ` set out') \<and>
    fst (complete (item_id x) (cl_worker_id rq) t s') = Ok ()"
proof -
  from claim_returns [OF mq_reach_good [OF assms(1)] assms(2-4)] assms(5) obtain it where
    c: "item_at s (item_id x) = Some it" "mq_good s'" "item_at s' (item_id x) = Some x"
      "leased_to (cl_worker_id rq) u it x" "\<And>w'. \<not> holds_lease (Some it) w' now"
    by (metis sum.inject(2) option.inject)
  have h: "holds_lease (item_at s' (item_id x)) (cl_worker_id rq) t"
    using c(3,4) assms(6) by (simp add: leased_to_def holds_lease_Some)
  have "item_id x \<notin> item_id ` set out'" if cl: "claim ch order rq' t t2 s' = (Ok out', s'')" for out' s''
  proof
    assume "item_id x \<in> item_id ` set out'"
    then obtain z where z: "z \<in> set out'" "item_id x = item_id z" by blast
    from claim_returns [OF c(2) assms(2) cl z(1), of "cl_worker_id rq"] h c(3) z(2) show False by auto
  qed
  moreover have "fst (complete (item_id x) (cl_worker_id rq) t s') = Ok ()"
    using mq_fence.ack_iff_lease [OF c(2) order_refl] h by blast
  ultimately show ?thesis
    using c claim_item_excluded [OF c(2) assms(2) h] by simp
qed

theorem claim_is_exclusive_witness:
  "fst (complete ''i'' ''w'' 11 demo_leased) = Ok ()"
proof -
  have "claim plain_clock (\<lambda>xs. xs) demo_claim 1 1 demo_mq = (Ok [the (item_at demo_leased ''i'')], demo_leased)"
    by code_simp
  moreover have "lease_deadline plain_clock 1 (cl_lease_seconds demo_claim) = Inr 11" by code_simp
  moreover have "item_id (the (item_at demo_leased ''i'')) = ''i''" "cl_worker_id demo_claim = ''w''" by code_simp+
  ultimately show ?thesis
    using claim_is_exclusive [OF demo_mq_reach iter_order_id, of demo_claim 1 1
        "[the (item_at demo_leased ''i'')]" demo_leased "the (item_at demo_leased ''i'')" 11 11] by simp
qed

text \<open>
  C11. Acknowledgements are fenced. \<^verbatim>\<open>complete\<close> succeeds exactly for the worker whose lease is live at
  the instant of the call; any other caller gets the error that names the reason and changes
  nothing. After it has succeeded, every later \<^verbatim>\<open>complete\<close> or \<^verbatim>\<open>fail_with\<close> on the item, by anyone,
  is refused and changes nothing, and leases on other items are not affected.
\<close>

theorem complete_is_fenced:
  assumes "mq_reach ch s"
  shows "(fst (complete i w now s) = Ok () \<longleftrightarrow> holds_lease (item_at s i) w now) \<and>
    (\<not> holds_lease (item_at s i) w now \<longrightarrow> complete i w now s = (Err (refusal (item_at s i)), s)) \<and>
    (fst (complete i w now s) = Ok () \<longrightarrow>
       complete i w' now' (snd (complete i w now s)) = (Err (NotRunning InvalidConfiguration), snd (complete i w now s)) \<and>
       fail_with ch i w' f now' (snd (complete i w now s)) = (Err (NotRunning InvalidConfiguration), snd (complete i w now s))) \<and>
    (j \<noteq> i \<and> holds_lease (item_at s j) w' t \<longrightarrow> holds_lease (item_at (snd (complete i w now s)) j) w' t)"
proof -
  note g = mq_reach_good [OF assms]
  have "complete i w' now' (snd (complete i w now s)) = (Err (NotRunning InvalidConfiguration), snd (complete i w now s)) \<and>
      fail_with ch i w' f now' (snd (complete i w now s)) = (Err (NotRunning InvalidConfiguration), snd (complete i w now s))"
    if ok: "fst (complete i w now s) = Ok ()"
  proof -
    have h: "holds_lease (item_at s i) w now" using ok mq_fence.ack_iff_lease [OF g order_refl] by blast
    then obtain it where it: "item_at s i = Some it" "holds_lease (Some it) w now" by (metis holds_leaseE)
    from complete_live [OF g this] obtain s' where
      c: "complete i w now s = (Ok (), s')" "mq_good s'" "evolves s s' i (completed now it)" by blast
    have look: "item_at s' i = Some (completed now it)" using c(3) by (simp add: evolves_def)
    note nr = not_running_fenced [of "completed now it", simplified]
    show ?thesis
      using complete_fenced [OF c(2), of i w' now'] fail_with_fenced [OF c(2), of i w' now' ch f] c(1) look nr by simp
  qed
  moreover have "holds_lease (item_at (snd (complete i w now s)) j) w' t"
    if "j \<noteq> i" "holds_lease (item_at s j) w' t"
    by (rule mq_fence.ack_keeps_other_leases [OF g order_refl that])
  ultimately show ?thesis
    using mq_fence.ack_iff_lease [OF g order_refl] complete_fenced [OF g] by blast
qed

theorem complete_is_fenced_witness:
  "complete ''i'' ''v'' 12 (snd (complete ''i'' ''w'' 11 demo_leased)) =
     (Err (NotRunning InvalidConfiguration), snd (complete ''i'' ''w'' 11 demo_leased))"
proof -
  have "fst (complete ''i'' ''w'' 11 demo_leased) = Ok ()" by code_simp
  with complete_is_fenced [OF demo_leased_reach, of "''i''" "''w''" 11 "''v''" 12] show ?thesis by blast
qed

text \<open>
  C29. A failure report by the holder of the lease puts the item back for a retry at exactly the
  requested instant while attempts remain, moves it to the dead letters when they are spent
  and stops it when no retry instant was given; it records the error and its class, drops
  the lease, and the outcome tells which of the three happened.
\<close>

theorem fail_with_outcome:
  assumes "mq_reach ch s" and "item_at s i = Some it" and "holds_lease (Some it) w now"
    and "checked_add_secs ch now 1 = Some soon"
  shows "\<exists>s'. fail_with ch i w f now s = (Ok (failed_outcome f it), s') \<and>
    item_at s' i = Some (failed_at f (case fl_run_after f of None \<Rightarrow> soon | Some t \<Rightarrow> t) now it)"
proof -
  have "(case fl_run_after f of Some t \<Rightarrow> Some t | None \<Rightarrow> checked_add_secs ch now 1) =
      Some (case fl_run_after f of None \<Rightarrow> soon | Some t \<Rightarrow> t)"
    using assms(4) by (simp split: option.split)
  from fail_with_live [OF mq_reach_good [OF assms(1)] assms(2,3) this] show ?thesis
    by (auto simp: evolves_def)
qed

theorem fail_with_outcome_witness:
  "\<exists>s'. fail_with plain_clock ''i'' ''w'' \<lparr>fl_error = LeaseExpired, fl_error_class = None, fl_run_after = Some 30\<rparr> 5 demo_leased =
      (Ok RetryScheduled, s') \<and>
    item_at s' ''i'' = Some (failed_at \<lparr>fl_error = LeaseExpired, fl_error_class = None, fl_run_after = Some 30\<rparr> 30 5
      (the (item_at demo_leased ''i'')))"
proof -
  let ?f = "\<lparr>fl_error = LeaseExpired, fl_error_class = None, fl_run_after = Some 30\<rparr>"
  have "item_at demo_leased ''i'' = Some (the (item_at demo_leased ''i''))" by code_simp
  moreover have "holds_lease (Some (the (item_at demo_leased ''i''))) ''w'' 5" by code_simp
  moreover have "checked_add_secs plain_clock 5 1 = Some 6" by (simp add: plain_clock_def)
  moreover have "failed_outcome ?f (the (item_at demo_leased ''i'')) = RetryScheduled" by code_simp
  ultimately show ?thesis
    using fail_with_outcome [OF demo_leased_reach, of "''i''" "the (item_at demo_leased ''i'')" "''w''" 5 6 ?f] by simp
qed

text \<open>
  C12. Enqueueing is idempotent. Two active items of one queue never carry the same key, and once a
  request under a key has been inserted, repeating it (forced or not) returns the stored
  item as an active duplicate and changes nothing, for as long as that item is active.
\<close>

theorem enqueue_is_idempotent:
  assumes "mq_reach ch s"
  shows "(\<forall>i j x y k. item_at s i = Some x \<and> item_at s j = Some y \<and> is_active (status x) \<and> is_active (status y) \<and>
      queue_id x = queue_id y \<and> idempotency_key x = Some k \<and> idempotency_key y = Some k \<longrightarrow> x = y) \<and>
    (item_at s i = Some it \<and> is_active (status it) \<and> idempotency_key it = Some k \<and> rq_idempotency_key rq = Some k \<and>
      rq_queue_id rq = queue_id it \<and> \<not> blank (rq_kind rq) \<longrightarrow>
      enqueue rq nid now s = (Ok \<lparr>out_item = it, disposition = ActiveDuplicate\<rparr>, s)) \<and>
    (item_at s nid = None \<and> enqueue rq nid now s = (Ok r, s') \<and> disposition r = Inserted \<longrightarrow>
      item_at s' nid = Some (new_item rq nid now) \<and> mq_good s')"
proof -
  note g = mq_reach_good [OF assms]
  show ?thesis
    using mq_key.one_active_per_key [OF g] mq_key.put_active [OF g] enqueue_inserted [OF g]
    unfolding enqueue_def by blast
qed

theorem enqueue_is_idempotent_witness:
  "enqueue (demo_request ''a'') ''j'' 7 demo_leased =
     (Ok \<lparr>out_item = the (item_at demo_leased ''i''), disposition = ActiveDuplicate\<rparr>, demo_leased)"
proof -
  have "item_at demo_leased ''i'' = Some (the (item_at demo_leased ''i'')) \<and>
      is_active (status (the (item_at demo_leased ''i''))) \<and>
      idempotency_key (the (item_at demo_leased ''i'')) = Some ''a'' \<and>
      rq_idempotency_key (demo_request ''a'') = Some ''a'' \<and>
      rq_queue_id (demo_request ''a'') = queue_id (the (item_at demo_leased ''i'')) \<and>
      \<not> blank (rq_kind (demo_request ''a''))"
    by code_simp
  with enqueue_is_idempotent [OF demo_leased_reach, of "''i''" "the (item_at demo_leased ''i'')" "''a''"
      "demo_request ''a''" "''j''" 7]
  show ?thesis by blast
qed

text \<open>
  C30. Replacing is a compare-and-swap. When a replacement of \<open>cur\<close> under a key has been inserted,
  a second replacement of the same \<open>cur\<close> under that key, by whoever, inserts nothing: it
  returns the item of the first one and changes nothing.
\<close>

theorem enqueue_replacing_swaps_once:
  assumes "mq_reach ch s" and "item_at s nid = None" and "cur \<noteq> nid"
    and "enqueue_replacing rq cur nid now s = (Ok r, s')" and "disposition r = Inserted"
    and "rq_idempotency_key rq = Some k" and "rq_idempotency_key rq' = Some k"
    and "rq_queue_id rq' = rq_queue_id rq" and "\<not> blank (rq_kind rq')"
  shows "enqueue_replacing rq' cur nid' now' s' = (Ok \<lparr>out_item = out_item r, disposition = ActiveDuplicate\<rparr>, s')"
proof -
  have e: "enqueue_inner (rq\<lparr>rq_force := True\<rparr>) (Some cur) nid now s = (Ok r, s')"
    using assms(4) by (simp add: enqueue_replacing_def)
  note I = enqueue_inserted [OF mq_reach_good [OF assms(1)] assms(2) e assms(5)]
  have g': "mq_inv s'" "\<not> poisoned s'" using I by (simp_all add: mq_good_def)
  have "existing_for (rq'\<lparr>rq_force := True\<rparr>) s' = Some (out_item r)"
    by (rule existing_for_key [OF g'(1), of _ k nid]) (use I assms in \<open>simp_all add: new_item_def\<close>)
  with I g' assms(9) show ?thesis
    by (simp add: enqueue_replacing_def enqueue_inner_def locked_def deduplicates_def new_item_def)
qed

text \<open>A queue whose item has lapsed once and waits for its second attempt.\<close>

definition demo_lapsed :: mq where
  "demo_lapsed = snd (reclaim_expired_leases (\<lambda>xs. xs) ''q'' 20 demo_leased)"

lemma demo_lapsed_reach: "mq_reach plain_clock demo_lapsed"
  unfolding demo_lapsed_def
  by (rule mq_reach.step [OF demo_leased_reach mq_step.reclaim [OF iter_order_id]])

theorem enqueue_replacing_swaps_once_witness:
  "enqueue_replacing (demo_request ''a'') ''i'' ''l'' 22 (snd (enqueue_replacing (demo_request ''a'') ''i'' ''j'' 21 demo_lapsed)) =
     (Ok \<lparr>out_item = new_item (demo_request ''a'') ''j'' 21, disposition = ActiveDuplicate\<rparr>,
      snd (enqueue_replacing (demo_request ''a'') ''i'' ''j'' 21 demo_lapsed))"
proof -
  have 1: "item_at demo_lapsed ''j'' = None" by code_simp
  have 2: "fst (enqueue_replacing (demo_request ''a'') ''i'' ''j'' 21 demo_lapsed) =
      Ok \<lparr>out_item = new_item (demo_request ''a'') ''j'' 21, disposition = Inserted\<rparr>" by code_simp
  have 3: "rq_idempotency_key (demo_request ''a'') = Some ''a''" "\<not> blank (rq_kind (demo_request ''a''))" by code_simp+
  show ?thesis
    using enqueue_replacing_swaps_once [OF demo_lapsed_reach 1 _ prod_eqI [of _ "(_, _)", simplified, OF 2 refl]
        _ 3(1) 3(1) refl 3(2)] by simp
qed

end
