(* ===== verification/Sqlite_Queue.thy ===== *)
theory Sqlite_Queue
  imports Queue_Types
begin

text \<open>
  Crate \<^verbatim>\<open>symbiotic-queue-sqlite\<close>, file \<^verbatim>\<open>lib.rs\<close>: the SQLite queue backend.

  The state \<open>sq\<close> is the content of the tables \<^verbatim>\<open>queue_items\<close> (a list of rows in insertion
  order) and \<^verbatim>\<open>queue_cooldowns\<close>; \<open>sq_emitted\<close> lists what the event sink was handed after a
  commit. An SQL \<^verbatim>\<open>UPDATE\<close> is \<open>sql_update\<close>, a \<^verbatim>\<open>DELETE\<close> is \<open>filter\<close>, \<^verbatim>\<open>ORDER BY .. LIMIT\<close> is a
  stable sort followed by \<open>sql_limit\<close>. Instants are stored as RFC 3339 text (\<open>ts\<close>, the
  function of \<^verbatim>\<open>chrono\<close>, an argument) and every comparison made inside SQL is a comparison of
  that text, while comparisons made in Rust are on the instants; the two are kept apart
  here as they are in the source. An operation runs in one IMMEDIATE transaction, so an
  error leaves the state as it was. Faults of the database itself are not modelled.
\<close>

section \<open>Columns\<close>

fun status_str :: "QueueStatus \<Rightarrow> string" where
  "status_str Pending = ''pending''"
| "status_str Running = ''running''"
| "status_str Succeeded = ''succeeded''"
| "status_str Failed = ''failed''"
| "status_str Dead = ''dead''"
| "status_str Stopped = ''stopped''"

definition parse_status :: "string \<Rightarrow> QueueError + QueueStatus" where
  "parse_status v =
     (if v = ''pending'' then Inr Pending
      else if v = ''running'' then Inr Running
      else if v = ''succeeded'' then Inr Succeeded
      else if v = ''failed'' then Inr Failed
      else if v = ''dead'' then Inr Dead
      else if v = ''stopped'' then Inr Stopped
      else Inl (Storage StorageFailure))"

text \<open>
  Reading a nullable diagnostic or class column; an unknown text is refused. Inside a row reader
  the refusal travels as a conversion error of \<^verbatim>\<open>rusqlite\<close>; every statement hands its errors to
  \<open>storage_error\<close> before the caller sees them.
\<close>

datatype sql_error = FromSqlConversionFailure QueueError

definition queue_to_sql :: "QueueError \<Rightarrow> sql_error" where
  "queue_to_sql e = FromSqlConversionFailure e"

definition storage_error :: "sql_error \<Rightarrow> QueueError" where
  "storage_error e = Storage StorageFailure"

definition invalid_stored_code :: sql_error where
  "invalid_stored_code = queue_to_sql (Storage UnsupportedQueueSchema)"

definition read_code :: "string option \<Rightarrow> sql_error + DiagnosticCode option" where
  "read_code v =
     (case v of
        None \<Rightarrow> Inr None
      | Some s \<Rightarrow> (case diag_parse s of
                    None \<Rightarrow> Inl invalid_stored_code
                  | Some c \<Rightarrow> Inr (Some c)))"

definition read_class :: "string option \<Rightarrow> sql_error + FailureClass option" where
  "read_class v =
     (case v of
        None \<Rightarrow> Inr None
      | Some s \<Rightarrow> (case class_parse s of
                    None \<Rightarrow> Inl invalid_stored_code
                  | Some c \<Rightarrow> Inr (Some c)))"

text \<open>
  The enumerated columns of a row in the order \<^verbatim>\<open>row_to_item\<close> reads them, and what a caller gets of
  them. The other columns are kept in the model as the values they encode.
\<close>

definition row_columns ::
  "string \<Rightarrow> string option \<Rightarrow> string option \<Rightarrow> sql_error + QueueStatus \<times> DiagnosticCode option \<times> FailureClass option" where
  "row_columns st err cls =
     (case parse_status st of
        Inl e \<Rightarrow> Inl (queue_to_sql e)
      | Inr parsed \<Rightarrow>
          (case read_code err of
             Inl e \<Rightarrow> Inl e
           | Inr code \<Rightarrow>
               (case read_class cls of
                  Inl e \<Rightarrow> Inl e
                | Inr class \<Rightarrow> Inr (parsed, code, class))))"

definition caller_columns ::
  "string \<Rightarrow> string option \<Rightarrow> string option \<Rightarrow> QueueError + QueueStatus \<times> DiagnosticCode option \<times> FailureClass option" where
  "caller_columns st err cls =
     (case row_columns st err cls of Inl e \<Rightarrow> Inl (storage_error e) | Inr cols \<Rightarrow> Inr cols)"

section \<open>State and SQL\<close>

text \<open>
  The environment of the statements: \<open>ts\<close> formats an instant and \<open>scan\<close> is the order in which
  SQLite visits the rows that satisfy a condition, which decides between rows that an
  \<^verbatim>\<open>ORDER BY\<close> leaves equal.
\<close>

record sqlenv =
  ts :: "time \<Rightarrow> string"
  scan :: "QueueItem list \<Rightarrow> QueueItem list"

record sq =
  rows :: "QueueItem list"
  sq_cooldowns :: "(string \<times> time) list"
  sq_emitted :: "(QueueItem \<times> DiagnosticCode option) list"

definition sq_empty :: sq where
  "sq_empty = \<lparr>rows = [], sq_cooldowns = [], sq_emitted = []\<rparr>"

definition sql_update :: "('a \<Rightarrow> bool) \<Rightarrow> ('a \<Rightarrow> 'a) \<Rightarrow> 'a list \<Rightarrow> 'a list" where
  "sql_update P f rs = map (\<lambda>r. if P r then f r else r) rs"

definition sql_limit :: "nat \<Rightarrow> 'a list \<Rightarrow> 'a list" where
  "sql_limit n rs = (if as_i64 n < 0 then rs else take n rs)"

definition get_in_tx :: "string \<Rightarrow> sq \<Rightarrow> QueueItem option" where
  "get_in_tx iid s = find (\<lambda>r. item_id r = iid) (rows s)"

definition get_required :: "string \<Rightarrow> sq \<Rightarrow> QueueError + QueueItem" where
  "get_required iid s =
     (case get_in_tx iid s of None \<Rightarrow> Inl (NotFound InvalidConfiguration) | Some r \<Rightarrow> Inr r)"

definition find_by_idempotency :: "sqlenv \<Rightarrow> string \<Rightarrow> string \<Rightarrow> sq \<Rightarrow> QueueItem option" where
  "find_by_idempotency db q key s =
     (case sort_key (\<lambda>r. ts db (created_at r))
        (scan db (filter (\<lambda>r. queue_id r = q \<and> idempotency_key r = Some key) (rows s))) of
        [] \<Rightarrow> None
      | r # rs \<Rightarrow> Some (last (r # rs)))"

definition sq_emit :: "(QueueItem \<times> DiagnosticCode option) list \<Rightarrow> sq \<Rightarrow> sq" where
  "sq_emit evs s = s\<lparr>sq_emitted := sq_emitted s @ evs\<rparr>"

definition cooldown_active :: "string \<Rightarrow> time \<Rightarrow> sq \<Rightarrow> bool" where
  "cooldown_active q now s =
     (case map_of (sq_cooldowns s) q of None \<Rightarrow> False | Some until \<Rightarrow> now < until)"

section \<open>Enqueue\<close>

definition sq_new_item :: "EnqueueRequest \<Rightarrow> string \<Rightarrow> time \<Rightarrow> QueueItem" where
  "sq_new_item rq iid now =
     \<lparr>item_id = iid, queue_id = rq_queue_id rq, kind = rq_kind rq, payload = rq_payload rq,
      status = Pending, attempt = 0,
      max_attempts = max (case rq_max_attempts rq of None \<Rightarrow> 3 | Some m \<Rightarrow> m) 1,
      run_after = (case rq_run_after rq of None \<Rightarrow> now | Some t \<Rightarrow> t),
      lease_owner = None, lease_until = None, idempotency_key = rq_idempotency_key rq,
      last_error = None, last_error_class = None, created_at = now, updated_at = now\<rparr>"

text \<open>
  The constraints of the table: the primary key, and the partial unique index on the
  idempotency key of active rows.
\<close>

definition violates_unique :: "QueueItem \<Rightarrow> QueueItem list \<Rightarrow> bool" where
  "violates_unique it rs =
     list_ex (\<lambda>r. item_id r = item_id it \<or>
        is_active (status r) \<and> is_active (status it) \<and> idempotency_key it \<noteq> None \<and>
        queue_id r = queue_id it \<and> idempotency_key r = idempotency_key it) rs"

definition stop_row :: "QueueItem \<Rightarrow> QueueItem" where
  "stop_row r = r\<lparr>status := Stopped, last_error_class := Some FC_Queue\<rparr>"

definition sq_deduplicates :: "EnqueueRequest \<Rightarrow> string option \<Rightarrow> QueueItem \<Rightarrow> bool" where
  "sq_deduplicates rq replacing ex =
     (let active = is_active (status ex);
          term = is_terminal (status ex);
          superseded = (case replacing of None \<Rightarrow> False | Some current \<Rightarrow> item_id ex \<noteq> current);
          reclaimed = (replacing \<noteq> None \<and> status ex = Failed \<and> last_error ex = Some LeaseExpired)
      in active \<and> \<not> reclaimed \<or> term \<and> \<not> rq_force rq \<or> superseded)"

definition sq_enqueue_inner ::
  "sqlenv \<Rightarrow> EnqueueRequest \<Rightarrow> string option \<Rightarrow> string \<Rightarrow> time \<Rightarrow> sq
    \<Rightarrow> EnqueueOutcome outcome \<times> sq" where
  "sq_enqueue_inner db rq replacing nid now s =
     (if blank (rq_kind rq) then (Err (InvalidRequest QueueItemKindMustNotBeEmpty), s)
      else
        let existing = (case rq_idempotency_key rq of
                          None \<Rightarrow> None
                        | Some key \<Rightarrow> find_by_idempotency db (rq_queue_id rq) key s)
        in case (case existing of None \<Rightarrow> None
                 | Some ex \<Rightarrow> if sq_deduplicates rq replacing ex then Some ex else None) of
          Some ex \<Rightarrow>
            (Ok \<lparr>out_item = ex,
               disposition = (if is_active (status ex) then ActiveDuplicate else TerminalDuplicate)\<rparr>, s)
        | None \<Rightarrow>
            let s1 = (case replacing of
                        None \<Rightarrow> s
                      | Some current \<Rightarrow>
                          s\<lparr>rows := sql_update (\<lambda>r. item_id r = current \<and> status r = Failed) stop_row (rows s)\<rparr>);
                it = sq_new_item rq nid now
            in if violates_unique it (rows s1) then
                 (case (case rq_idempotency_key rq of
                          None \<Rightarrow> None
                        | Some key \<Rightarrow> find_by_idempotency db (rq_queue_id rq) key s1) of
                    Some ex \<Rightarrow> (Ok \<lparr>out_item = ex, disposition = ActiveDuplicate\<rparr>, s1)
                  | None \<Rightarrow> (Err (Storage StorageFailure), s))
               else (Ok \<lparr>out_item = it, disposition = Inserted\<rparr>,
                     sq_emit [(it, None)] (s1\<lparr>rows := rows s1 @ [it]\<rparr>)))"

definition sq_enqueue ::
  "sqlenv \<Rightarrow> EnqueueRequest \<Rightarrow> string \<Rightarrow> time \<Rightarrow> sq \<Rightarrow> EnqueueOutcome outcome \<times> sq" where
  "sq_enqueue db rq nid now s = sq_enqueue_inner db rq None nid now s"

definition sq_enqueue_replacing ::
  "sqlenv \<Rightarrow> EnqueueRequest \<Rightarrow> string \<Rightarrow> string \<Rightarrow> time \<Rightarrow> sq
    \<Rightarrow> EnqueueOutcome outcome \<times> sq" where
  "sq_enqueue_replacing db rq current nid now s =
     sq_enqueue_inner db (rq\<lparr>rq_force := True\<rparr>) (Some current) nid now s"

section \<open>Leases\<close>

definition sql_lapsed :: "sqlenv \<Rightarrow> string \<Rightarrow> time \<Rightarrow> QueueItem \<Rightarrow> bool" where
  "sql_lapsed db q now r =
     (queue_id r = q \<and> status r = Running \<and>
      (case lease_until r of None \<Rightarrow> False | Some until \<Rightarrow> ts db until < ts db now))"

definition expired_running_items_in_tx ::
  "sqlenv \<Rightarrow> string \<Rightarrow> time \<Rightarrow> sq \<Rightarrow> QueueItem list" where
  "expired_running_items_in_tx db q now s =
     sort_key (\<lambda>r. ts db (updated_at r)) (scan db (filter (sql_lapsed db q now) (rows s)))"

definition reclaim_row :: "time \<Rightarrow> QueueItem \<Rightarrow> QueueItem" where
  "reclaim_row now r =
     r\<lparr>status := (if max_attempts r \<le> attempt r then Dead else Failed),
       lease_owner := None, lease_until := None, updated_at := now,
       last_error := Some LeaseExpired, last_error_class := Some FC_Queue\<rparr>"

definition reclaim_expired_in_tx :: "sqlenv \<Rightarrow> string \<Rightarrow> time \<Rightarrow> sq \<Rightarrow> nat \<times> sq" where
  "reclaim_expired_in_tx db q now s =
     (length (filter (sql_lapsed db q now) (rows s)),
      s\<lparr>rows := sql_update (sql_lapsed db q now) (reclaim_row now) (rows s)\<rparr>)"

definition sq_running_count :: "string \<Rightarrow> sq \<Rightarrow> nat" where
  "sq_running_count q s = length (filter (\<lambda>r. queue_id r = q \<and> status r = Running) (rows s))"

definition lease_row :: "string \<Rightarrow> time \<Rightarrow> time \<Rightarrow> QueueItem \<Rightarrow> QueueItem" where
  "lease_row worker until now r =
     r\<lparr>status := Running, attempt := attempt r + 1, lease_owner := Some worker,
       lease_until := Some until, updated_at := now\<rparr>"

text \<open>The loop over the selected identities: each is updated under its guard and read back.\<close>

fun claim_ids :: "string list \<Rightarrow> string \<Rightarrow> time \<Rightarrow> time \<Rightarrow> sq \<Rightarrow> QueueItem list \<times> sq" where
  "claim_ids [] worker until now s = ([], s)"
| "claim_ids (i # is) worker until now s =
     (let P = (\<lambda>r. item_id r = i \<and> is_waiting (status r) \<and> attempt r < max_attempts r);
          updated = length (filter P (rows s));
          s1 = s\<lparr>rows := sql_update P (lease_row worker until now) (rows s)\<rparr>;
          (out, s2) = claim_ids is worker until now s1
      in if updated = 1
         then (case get_in_tx i s1 of None \<Rightarrow> (out, s2) | Some it \<Rightarrow> (it # out, s2))
         else (out, s2))"

definition sq_ready ::
  "sqlenv \<Rightarrow> string \<Rightarrow> time \<Rightarrow> sq \<Rightarrow> QueueItem list" where
  "sq_ready db q now s =
     sort_key (\<lambda>r. (ts db (run_after r), ts db (created_at r)))
       (scan db (filter (\<lambda>r. queue_id r = q \<and> is_waiting (status r) \<and> attempt r < max_attempts r \<and>
                    ts db (run_after r) \<le> ts db now) (rows s)))"

definition sq_claim ::
  "chrono \<Rightarrow> sqlenv \<Rightarrow> ClaimRequest \<Rightarrow> time \<Rightarrow> time \<Rightarrow> sq \<Rightarrow> QueueItem list outcome \<times> sq" where
  "sq_claim ch db rq now now2 s =
     (if blank (cl_worker_id rq) then (Err (InvalidRequest WorkerIdMustNotBeEmpty), s)
      else case lease_deadline ch now (cl_lease_seconds rq) of
        Inl e \<Rightarrow> (Err e, s)
      | Inr until \<Rightarrow>
          let q = cl_queue_id rq; limit = max (cl_limit rq) 1 in
          if cooldown_active q now2 s then (Ok [], s)
          else
            let s1 = snd (reclaim_expired_in_tx db q now s);
                running = sq_running_count q s1
            in if (case cl_max_in_flight rq of None \<Rightarrow> False | Some cap \<Rightarrow> as_i64 cap \<le> int running)
               then (Ok [], s1)
               else
                 let lim = (case cl_max_in_flight rq of None \<Rightarrow> limit
                            | Some cap \<Rightarrow> min limit (cap - running));
                     ids = map item_id (sql_limit lim (sq_ready db q now s1));
                     (out, s2) = claim_ids ids (cl_worker_id rq) until now s1
                 in (Ok out, sq_emit (map (\<lambda>it. (it, None)) out) s2))"

definition exhaust_row :: "time \<Rightarrow> QueueItem \<Rightarrow> QueueItem" where
  "exhaust_row now r =
     r\<lparr>status := Dead,
       last_error := (case last_error r of None \<Rightarrow> Some AttemptBudgetExhausted | e \<Rightarrow> e),
       updated_at := now\<rparr>"

definition sq_claim_item ::
  "chrono \<Rightarrow> sqlenv \<Rightarrow> string \<Rightarrow> string \<Rightarrow> nat \<Rightarrow> nat option \<Rightarrow> time \<Rightarrow> time \<Rightarrow> sq
    \<Rightarrow> QueueItem option outcome \<times> sq" where
  "sq_claim_item ch db iid worker secs max_in_flight now now2 s =
     (if blank worker then (Err (InvalidRequest WorkerIdMustNotBeEmpty), s)
      else case lease_deadline ch now secs of
        Inl e \<Rightarrow> (Err e, s)
      | Inr until \<Rightarrow>
          (case get_required iid s of
             Inl e \<Rightarrow> (Err e, s)
           | Inr item \<Rightarrow>
               let q = queue_id item in
               if cooldown_active q now2 s then (Ok None, s)
               else
                 let s1 = snd (reclaim_expired_in_tx db q now s) in
                 if (case max_in_flight of None \<Rightarrow> False
                     | Some cap \<Rightarrow> as_i64 cap \<le> int (sq_running_count q s1))
                 then (Ok None, s1)
                 else (case get_required iid s1 of
                   Inl e \<Rightarrow> (Err e, s)
                 | Inr refreshed \<Rightarrow>
                     if is_waiting (status refreshed) \<and> max_attempts refreshed \<le> attempt refreshed
                     then (Ok None, s1\<lparr>rows := sql_update (\<lambda>r. item_id r = iid) (exhaust_row now) (rows s1)\<rparr>)
                     else if \<not> is_waiting (status refreshed) \<or> now < run_after refreshed then (Ok None, s1)
                     else
                       let P = (\<lambda>r. item_id r = iid \<and> is_waiting (status r));
                           s2 = s1\<lparr>rows := sql_update P (lease_row worker until now) (rows s1)\<rparr>
                       in if length (filter P (rows s1)) \<noteq> 1 then (Ok None, s2)
                          else (case get_required iid s2 of
                            Inl e \<Rightarrow> (Err e, s)
                          | Inr claimed \<Rightarrow> (Ok (Some claimed), sq_emit [(claimed, None)] s2)))))"

definition sq_get_item :: "string \<Rightarrow> sq \<Rightarrow> QueueItem option outcome \<times> sq" where
  "sq_get_item iid s = (Ok (get_in_tx iid s), s)"

section \<open>Fenced updates\<close>

text \<open>
  \<open>chk\<close> is the clock read inside the transaction; \<open>upd\<close> gives the row written by the
  closure. The closure reads the row back and returns it.
\<close>

definition update_running_item ::
  "string \<Rightarrow> string \<Rightarrow> time \<Rightarrow> (QueueItem \<Rightarrow> QueueError + QueueItem) \<Rightarrow> DiagnosticCode option
    \<Rightarrow> (QueueItem \<Rightarrow> 'a) \<Rightarrow> sq \<Rightarrow> 'a outcome \<times> sq" where
  "update_running_item iid worker chk upd err f s =
     (case get_required iid s of
        Inl e \<Rightarrow> (Err e, s)
      | Inr current \<Rightarrow>
          if status current \<noteq> Running then (Err (NotRunning InvalidConfiguration), s)
          else if lease_owner current \<noteq> Some worker then (Err (LeaseMismatch InvalidConfiguration), s)
          else if (case lease_until current of None \<Rightarrow> True | Some until \<Rightarrow> until < chk)
          then (Err (LeaseMismatch InvalidConfiguration), s)
          else (case upd current of
            Inl e \<Rightarrow> (Err e, s)
          | Inr new \<Rightarrow>
              let s1 = s\<lparr>rows := sql_update (\<lambda>r. item_id r = iid) (\<lambda>_. new) (rows s)\<rparr> in
              (case get_required iid s1 of
                 Inl e \<Rightarrow> (Err e, s)
               | Inr it \<Rightarrow> (Ok (f it), sq_emit [(it, err)] s1))))"

definition sq_heartbeat ::
  "chrono \<Rightarrow> string \<Rightarrow> string \<Rightarrow> nat \<Rightarrow> time \<Rightarrow> time \<Rightarrow> time \<Rightarrow> sq \<Rightarrow> unit outcome \<times> sq" where
  "sq_heartbeat ch iid worker secs now0 chk now s =
     (case lease_deadline ch now0 secs of
        Inl e \<Rightarrow> (Err e, s)
      | Inr _ \<Rightarrow>
          update_running_item iid worker chk
            (\<lambda>r. case lease_deadline ch now secs of
               Inl e \<Rightarrow> Inl e
             | Inr until \<Rightarrow> Inr (r\<lparr>lease_until := Some until, updated_at := now\<rparr>))
            None (\<lambda>_. ()) s)"

definition sq_complete :: "string \<Rightarrow> string \<Rightarrow> time \<Rightarrow> time \<Rightarrow> sq \<Rightarrow> unit outcome \<times> sq" where
  "sq_complete iid worker now chk s =
     update_running_item iid worker chk
       (\<lambda>r. Inr (r\<lparr>status := Succeeded, lease_owner := None, lease_until := None, last_error := None,
          last_error_class := None, updated_at := now\<rparr>))
       None (\<lambda>_. ()) s"

definition sq_fail_status :: "Failure \<Rightarrow> QueueItem \<Rightarrow> QueueStatus" where
  "sq_fail_status f r =
     (if fl_run_after f = None then Stopped
      else if max_attempts r \<le> attempt r then Dead else Failed)"

definition sq_fail_outcome :: "Failure \<Rightarrow> QueueItem \<Rightarrow> FailOutcome" where
  "sq_fail_outcome f r =
     (if fl_run_after f = None then FailStopped
      else if max_attempts r \<le> attempt r then MovedToDead else RetryScheduled)"

definition sq_fail_with ::
  "chrono \<Rightarrow> string \<Rightarrow> string \<Rightarrow> Failure \<Rightarrow> time \<Rightarrow> time \<Rightarrow> sq \<Rightarrow> FailOutcome outcome \<times> sq" where
  "sq_fail_with ch iid worker f now chk s =
     (case (case fl_run_after f of Some t \<Rightarrow> Some t | None \<Rightarrow> checked_add_secs ch now 1) of
        None \<Rightarrow> (Panic, s)
      | Some t \<Rightarrow>
          update_running_item iid worker chk
            (\<lambda>r. Inr (r\<lparr>status := sq_fail_status f r, run_after := t, lease_owner := None,
               lease_until := None, last_error := Some (fl_error f),
               last_error_class := fl_error_class f, updated_at := now\<rparr>))
            (Some (fl_error f)) (sq_fail_outcome f) s)"

definition sq_fail ::
  "chrono \<Rightarrow> string \<Rightarrow> string \<Rightarrow> DiagnosticCode \<Rightarrow> nat option \<Rightarrow> time \<Rightarrow> time \<Rightarrow> time \<Rightarrow> sq
    \<Rightarrow> FailOutcome outcome \<times> sq" where
  "sq_fail ch iid worker err retry now0 now chk s =
     (case checked_add_secs ch now0 (as_i64 (case retry of None \<Rightarrow> 1 | Some n \<Rightarrow> n)) of
        None \<Rightarrow> (Panic, s)
      | Some t \<Rightarrow>
          sq_fail_with ch iid worker
            \<lparr>fl_error = err, fl_error_class = None, fl_run_after = Some t\<rparr> now chk s)"

section \<open>Maintenance\<close>

definition reclaim_event :: "time \<Rightarrow> QueueItem \<Rightarrow> QueueItem" where
  "reclaim_event now r =
     r\<lparr>status := (if max_attempts r \<le> attempt r then Dead else Failed),
       lease_owner := None, lease_until := None,
       last_error := (case last_error r of None \<Rightarrow> Some LeaseExpired | e \<Rightarrow> e), updated_at := now\<rparr>"

definition sq_reclaim_expired_leases ::
  "sqlenv \<Rightarrow> string \<Rightarrow> time \<Rightarrow> sq \<Rightarrow> nat outcome \<times> sq" where
  "sq_reclaim_expired_leases db q now s =
     (let expired = expired_running_items_in_tx db q now s;
          (reclaimed, s1) = reclaim_expired_in_tx db q now s
      in (Ok reclaimed, sq_emit (map (\<lambda>r. (reclaim_event now r, Some LeaseExpired)) expired) s1))"

definition sq_cooldown_until :: "string \<Rightarrow> sq \<Rightarrow> time option outcome \<times> sq" where
  "sq_cooldown_until q s = (Ok (map_of (sq_cooldowns s) q), s)"

definition sq_note_cooldown :: "sqlenv \<Rightarrow> string \<Rightarrow> time \<Rightarrow> sq \<Rightarrow> unit outcome \<times> sq" where
  "sq_note_cooldown db q until s =
     (Ok (), s\<lparr>sq_cooldowns := AList.update q
        (case map_of (sq_cooldowns s) q of
           None \<Rightarrow> until
         | Some current \<Rightarrow> if ts db current < ts db until then until else current) (sq_cooldowns s)\<rparr>)"

definition stale_active :: "sqlenv \<Rightarrow> string option \<Rightarrow> time \<Rightarrow> time \<Rightarrow> QueueItem \<Rightarrow> bool" where
  "stale_active db q before now r =
     ((case q of None \<Rightarrow> True | Some q \<Rightarrow> queue_id r = q) \<and> is_active (status r) \<and>
      ts db (updated_at r) < ts db before \<and>
      (status r \<noteq> Running \<or> (case lease_until r of None \<Rightarrow> True | Some until \<Rightarrow> ts db until < ts db now)))"

definition kill_row :: "DiagnosticCode \<Rightarrow> time \<Rightarrow> QueueItem \<Rightarrow> QueueItem" where
  "kill_row reason now r =
     r\<lparr>status := Dead, lease_owner := None, lease_until := None, last_error := Some reason,
       updated_at := now\<rparr>"

definition stale_active_items_in_tx ::
  "sqlenv \<Rightarrow> string option \<Rightarrow> time \<Rightarrow> time \<Rightarrow> sq \<Rightarrow> QueueItem list" where
  "stale_active_items_in_tx db q before now s =
     sort_key (\<lambda>r. ts db (updated_at r)) (scan db (filter (stale_active db q before now) (rows s)))"

definition mark_stale_active_dead_inner ::
  "sqlenv \<Rightarrow> string option \<Rightarrow> time \<Rightarrow> DiagnosticCode \<Rightarrow> time \<Rightarrow> sq \<Rightarrow> nat outcome \<times> sq" where
  "mark_stale_active_dead_inner db q before reason now s =
     (let its = stale_active_items_in_tx db q before now s;
          P = stale_active db q before now
      in (Ok (length (filter P (rows s))),
          sq_emit (map (\<lambda>r. (kill_row reason now r, Some reason)) its)
            (s\<lparr>rows := sql_update P (kill_row reason now) (rows s)\<rparr>)))"

definition mark_stale_active_dead ::
  "sqlenv \<Rightarrow> string \<Rightarrow> time \<Rightarrow> DiagnosticCode \<Rightarrow> time \<Rightarrow> sq \<Rightarrow> nat outcome \<times> sq" where
  "mark_stale_active_dead db q before reason now s =
     mark_stale_active_dead_inner db (Some q) before reason now s"

definition mark_all_stale_active_dead ::
  "sqlenv \<Rightarrow> time \<Rightarrow> DiagnosticCode \<Rightarrow> time \<Rightarrow> sq \<Rightarrow> nat outcome \<times> sq" where
  "mark_all_stale_active_dead db before reason now s =
     mark_stale_active_dead_inner db None before reason now s"

definition retire_stale_active ::
  "sqlenv \<Rightarrow> time \<Rightarrow> DiagnosticCode \<Rightarrow> time \<Rightarrow> sq \<Rightarrow> nat outcome \<times> sq" where
  "retire_stale_active db before reason now s =
     (let P = stale_active db None before now
      in (Ok (length (filter P (rows s))),
          s\<lparr>rows := sql_update P (kill_row reason now) (rows s)\<rparr>))"

definition prune_terminal_before :: "sqlenv \<Rightarrow> time \<Rightarrow> sq \<Rightarrow> nat outcome \<times> sq" where
  "prune_terminal_before db before s =
     (let P = (\<lambda>r. is_terminal (status r) \<and> ts db (updated_at r) < ts db before)
      in (Ok (length (filter P (rows s))), s\<lparr>rows := filter (\<lambda>r. \<not> P r) (rows s)\<rparr>))"

section \<open>Schema gate\<close>

text \<open>
  What \<open>configure\<close> sees and changes of a database: the stored format stamp, the journal mode (stored
  in the file, except that a database in memory never leaves its own mode), and the names of its
  tables, views and indexes. SQLite compares names without case; they are in lower case here. Tables,
  views and indexes share one space of names; triggers have their own. The settings of the
  connection alone (busy timeout, \<^verbatim>\<open>synchronous\<close>, \<^verbatim>\<open>fullfsync\<close>) are not part of the database.
\<close>

datatype journal = Delete_Mode | Wal_Mode | Memory_Mode

record schema =
  on_disk :: bool
  journal_mode :: journal
  user_version :: int
  table_names :: "string list"
  view_names :: "string list"
  index_names :: "string list"

definition object_names :: "schema \<Rightarrow> string list" where
  "object_names d = table_names d @ view_names d @ index_names d"

definition use_wal :: "schema \<Rightarrow> schema" where
  "use_wal d = (if on_disk d then d\<lparr>journal_mode := Wal_Mode\<rparr> else d)"

text \<open>A \<^verbatim>\<open>create\<close> statement, which fails on a name in use or a missing table, and a batch of them.\<close>

datatype ddl = Create_Table string | Create_Index string string

fun create_object :: "ddl \<Rightarrow> schema \<Rightarrow> schema option" where
  "create_object (Create_Table n) d =
     (if n \<in> set (object_names d) then None else Some (d\<lparr>table_names := table_names d @ [n]\<rparr>))"
| "create_object (Create_Index n t) d =
     (if t \<notin> set (table_names d) \<or> n \<in> set (object_names d) then None
      else Some (d\<lparr>index_names := index_names d @ [n]\<rparr>))"

fun execute_batch :: "ddl list \<Rightarrow> schema \<Rightarrow> schema option" where
  "execute_batch [] d = Some d"
| "execute_batch (c # cs) d = (case create_object c d of None \<Rightarrow> None | Some d1 \<Rightarrow> execute_batch cs d1)"

definition queue_batch :: "ddl list" where
  "queue_batch =
     [Create_Table ''spend_accounts'', Create_Table ''spend_receipts'',
      Create_Index ''spend_active_invocation'' ''spend_receipts'',
      Create_Index ''spend_invocation_lookup'' ''spend_receipts'',
      Create_Index ''spend_recovery_expiry'' ''spend_receipts'',
      Create_Table ''queue_items'',
      Create_Index ''idx_queue_claim'' ''queue_items'',
      Create_Index ''idx_queue_idempotency'' ''queue_items'',
      Create_Index ''idx_queue_active_idempotency'' ''queue_items'',
      Create_Table ''queue_cooldowns'']"

definition jobs_batch :: "ddl list" where
  "jobs_batch =
     [Create_Table ''model_job_bindings'', Create_Table ''jobs'',
      Create_Index ''jobs_claim'' ''jobs'', Create_Index ''jobs_delivery'' ''jobs'',
      Create_Index ''jobs_expiry'' ''jobs'', Create_Index ''jobs_unfinished_group'' ''jobs'',
      Create_Index ''jobs_diagnostics'' ''jobs'',
      Create_Table ''job_owners'', Create_Index ''job_owners_job'' ''job_owners'']"

definition QUEUE_SCHEMA_VERSION :: nat where
  "QUEUE_SCHEMA_VERSION = 17"

text \<open>The tables the gate looks for, as its query lists them.\<close>

definition queue_tables :: "string list" where
  "queue_tables =
     [''queue_items'', ''queue_cooldowns'', ''spend_accounts'', ''spend_receipts'', ''jobs'',
      ''job_owners'', ''model_job_bindings'']"

text \<open>The journal mode is set before the transaction of the gate begins, so no refusal undoes it.\<close>

definition configure :: "schema \<Rightarrow> (QueueError + unit) \<times> schema" where
  "configure d0 =
     (let d = use_wal d0 in
      if user_version d = int QUEUE_SCHEMA_VERSION then (Inr (), d)
      else if user_version d \<noteq> 0 \<or> list_ex (\<lambda>n. n \<in> set queue_tables) (table_names d)
      then (Inl (Storage UnsupportedQueueSchema), d)
      else (case execute_batch queue_batch d of
              None \<Rightarrow> (Inl (Storage StorageFailure), d)
            | Some d1 \<Rightarrow>
                (case execute_batch jobs_batch d1 of
                   None \<Rightarrow> (Inl (Storage StorageFailure), d)
                 | Some d2 \<Rightarrow> (Inr (), d2\<lparr>user_version := int QUEUE_SCHEMA_VERSION\<rparr>))))"

end
