(* ===== verification/Sqlite_Queue_Inv.thy ===== *)
theory Sqlite_Queue_Inv
  imports Sqlite_Queue Queue_Contract
begin

text \<open>
  The SQLite queue keeps its table consistent and implements the contract of the trait.

  \<open>sq_inv\<close> is the invariant of the table: distinct identities, well-formed rows, one active row
  per key. Every operation keeps it, whatever the clock and the text format do. \<open>newest\<close>
  (the active row of a key is also its latest one) needs a clock that moves forward; the answer of a
  lookup by key rests on it, no other property does.
\<close>

section \<open>Invariant\<close>

definition row_ok :: "QueueItem \<Rightarrow> bool" where
  "row_ok r \<longleftrightarrow>
     attempt r \<le> max_attempts r \<and> 1 \<le> max_attempts r \<and>
     (status r = Running \<longleftrightarrow> lease_owner r \<noteq> None) \<and> (status r = Running \<longleftrightarrow> lease_until r \<noteq> None) \<and>
     (status r = Running \<longrightarrow> 1 \<le> attempt r)"

definition same_key :: "QueueItem \<Rightarrow> QueueItem \<Rightarrow> bool" where
  "same_key r r' \<longleftrightarrow> queue_id r = queue_id r' \<and> idempotency_key r \<noteq> None \<and> idempotency_key r = idempotency_key r'"

definition sq_inv :: "sq \<Rightarrow> bool" where
  "sq_inv s \<longleftrightarrow>
     distinct (map item_id (rows s)) \<and> (\<forall>r \<in> set (rows s). row_ok r) \<and>
     (\<forall>r \<in> set (rows s). \<forall>r' \<in> set (rows s).
        is_active (status r) \<and> is_active (status r') \<and> same_key r r' \<longrightarrow> r = r')"

definition newest :: "sqlenv \<Rightarrow> sq \<Rightarrow> bool" where
  "newest db s \<longleftrightarrow>
     (\<forall>r \<in> set (rows s). \<forall>r' \<in> set (rows s).
        is_active (status r) \<and> r' \<noteq> r \<and> same_key r r' \<longrightarrow> ts db (created_at r') < ts db (created_at r))"

definition keeps :: "QueueItem \<Rightarrow> QueueItem \<Rightarrow> bool" where
  "keeps r r' \<longleftrightarrow>
     item_id r' = item_id r \<and> queue_id r' = queue_id r \<and> idempotency_key r' = idempotency_key r \<and>
     created_at r' = created_at r \<and> (is_active (status r') \<longrightarrow> is_active (status r)) \<and> (row_ok r \<longrightarrow> row_ok r')"

lemma sq_invD:
  assumes "sq_inv s"
  shows sq_distinct: "distinct (map item_id (rows s))"
    and sq_row_ok: "r \<in> set (rows s) \<Longrightarrow> row_ok r"
    and sq_active_key: "r \<in> set (rows s) \<Longrightarrow> r' \<in> set (rows s) \<Longrightarrow> is_active (status r) \<Longrightarrow>
      is_active (status r') \<Longrightarrow> same_key r r' \<Longrightarrow> r = r'"
  using assms unfolding sq_inv_def by blast+

lemma keepsD:
  assumes "keeps r r'"
  shows "item_id r' = item_id r" "queue_id r' = queue_id r" "idempotency_key r' = idempotency_key r"
    "created_at r' = created_at r" "is_active (status r') \<Longrightarrow> is_active (status r)" "row_ok r \<Longrightarrow> row_ok r'"
  using assms unfolding keeps_def by blast+

lemma sq_emit_frame [simp]:
  "rows (sq_emit evs s) = rows s" "sq_cooldowns (sq_emit evs s) = sq_cooldowns s"
  "sq_inv (sq_emit evs s) = sq_inv s" "newest db (sq_emit evs s) = newest db s"
  "get_in_tx i (sq_emit evs s) = get_in_tx i s"
  by (simp_all add: sq_emit_def sq_inv_def newest_def get_in_tx_def)

section \<open>Rows by identity\<close>

lemma find_distinct:
  assumes "distinct (map item_id rs)"
  shows "find (\<lambda>r. item_id r = i) rs = Some r \<longleftrightarrow> r \<in> set rs \<and> item_id r = i"
  using assms
proof (induction rs)
  case (Cons a rs)
  then show ?case by (cases "item_id a = i") (auto simp: image_iff)
qed simp

lemma get_in_tx_Some:
  "sq_inv s \<Longrightarrow> get_in_tx i s = Some r \<longleftrightarrow> r \<in> set (rows s) \<and> item_id r = i"
  unfolding get_in_tx_def by (rule find_distinct [OF sq_distinct])

lemma get_in_tx_None: "get_in_tx i s = None \<longleftrightarrow> (\<forall>r \<in> set (rows s). item_id r \<noteq> i)"
  by (auto simp: get_in_tx_def find_None_iff)

lemma get_in_tx_update:
  assumes "\<And>r. r \<in> set (rows s) \<Longrightarrow> P r \<Longrightarrow> item_id (f r) = item_id r"
  shows "get_in_tx i (s\<lparr>rows := sql_update P f (rows s)\<rparr>) =
    map_option (\<lambda>r. if P r then f r else r) (get_in_tx i s)"
proof -
  have "find (\<lambda>r. item_id r = i) (map (\<lambda>r. if P r then f r else r) rs) =
      map_option (\<lambda>r. if P r then f r else r) (find (\<lambda>r. item_id r = i) rs)"
    if "\<And>r. r \<in> set rs \<Longrightarrow> P r \<Longrightarrow> item_id (f r) = item_id r" for rs
    using that by (induction rs) auto
  with assms show ?thesis by (simp add: get_in_tx_def sql_update_def)
qed

lemma sq_inv_update:
  assumes inv: "sq_inv s" and k: "\<And>r. r \<in> set (rows s) \<Longrightarrow> P r \<Longrightarrow> keeps r (f r)"
  shows "sq_inv (s\<lparr>rows := sql_update P f (rows s)\<rparr>)"
proof -
  let ?g = "\<lambda>r. if P r then f r else r"
  have g: "keeps r (?g r)" if "r \<in> set (rows s)" for r
    using k [OF that] by (cases "P r") (simp_all add: keeps_def)
  note gD = keepsD [OF g]
  have rs: "set (rows (s\<lparr>rows := sql_update P f (rows s)\<rparr>)) = ?g ` set (rows s)"
    by (simp add: sql_update_def)
  have ids: "map item_id (rows (s\<lparr>rows := sql_update P f (rows s)\<rparr>)) = map item_id (rows s)"
    using gD(1) by (simp add: sql_update_def)
  have "row_ok (?g r)" if "r \<in> set (rows s)" for r
    using gD(6) [OF that sq_row_ok [OF inv that]] .
  moreover have "?g r = ?g r'"
    if r: "r \<in> set (rows s)" "r' \<in> set (rows s)" and a: "is_active (status (?g r))" "is_active (status (?g r'))"
      and sk: "same_key (?g r) (?g r')" for r r'
  proof -
    have "same_key r r'" using sk gD(2,3) r unfolding same_key_def by metis
    then show ?thesis using sq_active_key [OF inv r gD(5) [OF r(1) a(1)] gD(5) [OF r(2) a(2)]] by simp
  qed
  ultimately show ?thesis
    unfolding sq_inv_def ids rs using sq_distinct [OF inv] by blast
qed

lemma newest_update:
  assumes n: "newest db s" and k: "\<And>r. r \<in> set (rows s) \<Longrightarrow> P r \<Longrightarrow> keeps r (f r)"
  shows "newest db (s\<lparr>rows := sql_update P f (rows s)\<rparr>)"
proof -
  let ?g = "\<lambda>r. if P r then f r else r"
  have g: "keeps r (?g r)" if "r \<in> set (rows s)" for r
    using k [OF that] by (cases "P r") (simp_all add: keeps_def)
  note gD = keepsD [OF g]
  have "ts db (created_at (?g r')) < ts db (created_at (?g r))"
    if r: "r \<in> set (rows s)" "r' \<in> set (rows s)" and a: "is_active (status (?g r))" and ne: "?g r' \<noteq> ?g r"
      and sk: "same_key (?g r) (?g r')" for r r'
  proof -
    have "same_key r r'" using sk gD(2,3) r unfolding same_key_def by metis
    moreover have "r' \<noteq> r" using ne by metis
    ultimately have "ts db (created_at r') < ts db (created_at r)"
      using n r gD(5) [OF r(1) a] unfolding newest_def by blast
    then show ?thesis using gD(4) r by metis
  qed
  moreover have rs: "set (rows (s\<lparr>rows := sql_update P f (rows s)\<rparr>)) = ?g ` set (rows s)"
    by (simp add: sql_update_def)
  ultimately show ?thesis unfolding newest_def rs by blast
qed

section \<open>Every statement keeps the invariant\<close>

definition tame :: "sq \<Rightarrow> sq \<Rightarrow> bool" where
  "tame s s' \<longleftrightarrow> (sq_inv s \<longrightarrow> sq_inv s' \<and> (\<forall>db. newest db s \<longrightarrow> newest db s'))"

lemma tame_refl [simp]: "tame s s"
  by (simp add: tame_def)

lemma tame_trans: "tame s t \<Longrightarrow> tame t u \<Longrightarrow> tame s u"
  by (simp add: tame_def)

lemma tame_emit [simp]: "tame s (sq_emit evs t) = tame s t"
  by (simp add: tame_def)

lemma tame_update:
  "(\<And>r. r \<in> set (rows s) \<Longrightarrow> P r \<Longrightarrow> keeps r (f r)) \<Longrightarrow> tame s (s\<lparr>rows := sql_update P f (rows s)\<rparr>)"
  by (simp add: tame_def sq_inv_update newest_update)

lemma keeps_rows:
  "status r = Running \<Longrightarrow> keeps r (reclaim_row now r)"
  "is_waiting (status r) \<Longrightarrow> attempt r < max_attempts r \<Longrightarrow> keeps r (lease_row w u now r)"
  "status r = Failed \<Longrightarrow> keeps r (stop_row r)"
  "is_waiting (status r) \<Longrightarrow> keeps r (exhaust_row now r)"
  "keeps r (kill_row reason now r)"
  "status r = Running \<Longrightarrow> keeps r (completed now r)"
  "status r = Running \<Longrightarrow> keeps r (failed_at f t now r)"
  "status r = Running \<Longrightarrow> keeps r (renewed u now r)"
  by (auto simp: keeps_def row_ok_def reclaim_row_def lease_row_def stop_row_def exhaust_row_def kill_row_def
      completed_def failed_at_def failed_status_def renewed_def is_waiting_def split: option.split)

lemma tame_reclaim: "tame s (snd (reclaim_expired_in_tx db q now s))"
  unfolding reclaim_expired_in_tx_def snd_conv
  by (rule tame_update) (auto simp: sql_lapsed_def intro: keeps_rows)

lemma tame_claim_ids: "tame s (snd (claim_ids ids w u now s))"
proof (induction ids w u now s rule: claim_ids.induct)
  case (2 i ids w u now s)
  let ?P = "\<lambda>r. item_id r = i \<and> is_waiting (status r) \<and> attempt r < max_attempts r"
  let ?s1 = "s\<lparr>rows := sql_update ?P (lease_row w u now) (rows s)\<rparr>"
  have 1: "tame s ?s1" by (rule tame_update) (auto intro: keeps_rows)
  have 2: "tame ?s1 (snd (claim_ids ids w u now ?s1))" by (rule "2.IH") simp_all
  have "snd (claim_ids (i # ids) w u now s) = snd (claim_ids ids w u now ?s1)"
    by (simp add: Let_def split: prod.split option.split)
  with tame_trans [OF 1 2] show ?case by simp
qed simp

lemma tame_claim: "tame s (snd (sq_claim ch db rq now now2 s))"
proof -
  have "tame s (snd (claim_ids ids w u now (snd (reclaim_expired_in_tx db q now s))))" for ids w u q
    by (rule tame_trans [OF tame_reclaim tame_claim_ids])
  then have "tame s s2" if "claim_ids ids w u now (snd (reclaim_expired_in_tx db q now s)) = (out, s2)"
    for ids w u q out s2 using that by (metis snd_conv)
  then show ?thesis
    by (auto simp: sq_claim_def Let_def tame_reclaim split: sum.split prod.split)
qed

lemma get_required_Inr: "get_required i s = Inr r \<longleftrightarrow> get_in_tx i s = Some r"
  by (simp add: get_required_def split: option.split)

lemma get_required_Inl: "get_required i s = Inl e \<longleftrightarrow> get_in_tx i s = None \<and> e = NotFound InvalidConfiguration"
  by (auto simp: get_required_def split: option.split)

lemma tame_row:
  assumes "sq_inv s" and "get_in_tx i s = Some r" and "P r \<Longrightarrow> keeps r (f r)"
  shows "tame s (s\<lparr>rows := sql_update (\<lambda>r. item_id r = i \<and> P r) f (rows s)\<rparr>)"
proof (rule tame_update)
  fix r'
  assume r': "r' \<in> set (rows s)" "item_id r' = i \<and> P r'"
  then have "get_in_tx i s = Some r'" using get_in_tx_Some [OF assms(1)] by blast
  with assms(2,3) r' show "keeps r' (f r')" by simp
qed

lemma tame_claim_item: "tame s (snd (sq_claim_item ch db i w secs cap now now2 s))"
proof (cases "sq_inv s")
  case False
  then show ?thesis by (simp add: tame_def)
next
  case inv: True
  show ?thesis
  proof (cases "get_in_tx i s")
    case None
    then show ?thesis by (simp add: sq_claim_item_def get_required_def split: sum.split)
  next
    case (Some item)
    let ?s1 = "snd (reclaim_expired_in_tx db (queue_id item) now s)"
    have t1: "tame s ?s1" by (rule tame_reclaim)
    then have inv1: "sq_inv ?s1" using inv by (simp add: tame_def)
    have ex: "tame ?s1 (?s1\<lparr>rows := sql_update (\<lambda>r. item_id r = i) (exhaust_row now) (rows ?s1)\<rparr>)"
      if "get_in_tx i ?s1 = Some r" "is_waiting (status r)" for r
      using tame_row [OF inv1 that(1), of "\<lambda>_. True" "exhaust_row now"] that(2) by (simp add: keeps_rows)
    have le: "tame ?s1 (?s1\<lparr>rows := sql_update (\<lambda>r. item_id r = i \<and> is_waiting (status r)) (lease_row w u now) (rows ?s1)\<rparr>)"
      if "get_in_tx i ?s1 = Some r" "attempt r < max_attempts r" for r u
      using tame_row [OF inv1 that(1), of "\<lambda>r. is_waiting (status r)"] that(2) by (simp add: keeps_rows)
    show ?thesis
      using Some t1 tame_trans [OF t1 ex] tame_trans [OF t1 le]
      by (auto simp: sq_claim_item_def get_required_Inr get_required_Inl Let_def not_le split: sum.split)
  qed
qed

section \<open>Fenced updates\<close>

lemma update_fenced:
  assumes "\<not> holds_lease (get_in_tx i s) w chk"
  shows "update_running_item i w chk upd err f s = (Err (refusal (get_in_tx i s)), s)"
  using assms
  by (auto simp: update_running_item_def get_required_def holds_lease_def refusal_def split: option.splits)

lemma update_live:
  assumes inv: "sq_inv s" and r: "get_in_tx i s = Some r" and h: "holds_lease (Some r) w chk"
    and u: "upd r = Inr new" and k: "keeps r new"
  shows "\<exists>s'. update_running_item i w chk upd err f s = (Ok (f new), s') \<and> tame s s' \<and>
    get_in_tx i s' = Some new \<and> (\<forall>j. j \<noteq> i \<longrightarrow> get_in_tx j s' = get_in_tx j s)"
proof -
  let ?s1 = "s\<lparr>rows := sql_update (\<lambda>r. item_id r = i) (\<lambda>_. new) (rows s)\<rparr>"
  have id: "item_id r = i" using r get_in_tx_Some [OF inv] by blast
  then have idn: "item_id new = i" using keepsD(1) [OF k] by simp
  have look: "get_in_tx j ?s1 = map_option (\<lambda>r. if item_id r = i then new else r) (get_in_tx j s)" for j
    by (rule get_in_tx_update) (simp add: idn)
  have i1: "get_in_tx i ?s1 = Some new" using look r id by simp
  have other: "get_in_tx j ?s1 = get_in_tx j s" if "j \<noteq> i" for j
  proof (cases "get_in_tx j s")
    case (Some x)
    then have "item_id x = j" using get_in_tx_Some [OF inv] by blast
    with that Some show ?thesis unfolding look by simp
  qed (simp add: look)
  have t: "tame s ?s1"
    using tame_row [OF inv r, of "\<lambda>_. True" "\<lambda>_. new"] k by simp
  have "update_running_item i w chk upd err f s = (Ok (f new), sq_emit [(new, err)] ?s1)"
    using r h u i1 by (auto simp: update_running_item_def get_required_def holds_lease_Some Let_def)
  then show ?thesis using t i1 other by auto
qed

lemma update_tame:
  assumes "\<And>r new. status r = Running \<Longrightarrow> upd r = Inr new \<Longrightarrow> keeps r new"
  shows "tame s (snd (update_running_item i w chk upd err f s))"
proof (cases "sq_inv s \<and> holds_lease (get_in_tx i s) w chk")
  case False
  then show ?thesis using update_fenced [of i s w chk upd err f] by (auto simp: tame_def)
next
  case True
  then obtain r where r: "get_in_tx i s = Some r" "status r = Running" "holds_lease (Some r) w chk"
    by (metis holds_leaseE)
  show ?thesis
  proof (cases "upd r")
    case (Inl e)
    then have "snd (update_running_item i w chk upd err f s) = s"
      using r by (auto simp: update_running_item_def get_required_def holds_lease_Some)
    then show ?thesis by simp
  next
    case (Inr new)
    have "sq_inv s" using True by simp
    from update_live [where upd = upd, OF this r(1,3) Inr assms [OF r(2) Inr], of err f] show ?thesis by auto
  qed
qed

lemma sq_fail_spec: "sq_fail_status f r = failed_status f r" "sq_fail_outcome f r = failed_outcome f r"
  by (auto simp: sq_fail_status_def failed_status_def sq_fail_outcome_def failed_outcome_def split: option.split)

lemma sq_complete_alt:
  "sq_complete i w now chk s = update_running_item i w chk (\<lambda>r. Inr (completed now r)) None (\<lambda>_. ()) s"
  unfolding sq_complete_def completed_def ..

lemma sq_fail_with_alt:
  "sq_fail_with ch i w f now chk s =
     (case (case fl_run_after f of Some t \<Rightarrow> Some t | None \<Rightarrow> checked_add_secs ch now 1) of
        None \<Rightarrow> (Panic, s)
      | Some t \<Rightarrow> update_running_item i w chk (\<lambda>r. Inr (failed_at f t now r)) (Some (fl_error f)) (failed_outcome f) s)"
proof -
  have "sq_fail_outcome f = failed_outcome f" by (simp add: fun_eq_iff sq_fail_spec)
  then show ?thesis by (simp add: sq_fail_with_def failed_at_def sq_fail_spec cong: option.case_cong)
qed

lemma failed_outcome_at: "failed_outcome f (failed_at f t now r) = failed_outcome f r"
  by (simp add: failed_outcome_def failed_at_def split: option.split)

lemma tame_complete: "tame s (snd (sq_complete i w now chk s))"
  unfolding sq_complete_alt by (rule update_tame) (auto intro: keeps_rows)

lemma tame_fail_with: "tame s (snd (sq_fail_with ch i w f now chk s))"
proof -
  have "tame s (snd (update_running_item i w chk (\<lambda>r. Inr (failed_at f t now r)) (Some (fl_error f)) (failed_outcome f) s))" for t
    by (rule update_tame) (auto intro: keeps_rows)
  then show ?thesis unfolding sq_fail_with_alt by (auto split: option.split)
qed

lemma tame_fail: "tame s (snd (sq_fail ch i w err retry now0 now chk s))"
  using tame_fail_with by (auto simp: sq_fail_def split: option.split)

lemma tame_heartbeat: "tame s (snd (sq_heartbeat ch i w secs now0 chk now s))"
proof -
  have "tame s (snd (update_running_item i w chk (\<lambda>r. case lease_deadline ch now secs of
      Inl e \<Rightarrow> Inl e | Inr until \<Rightarrow> Inr (r\<lparr>lease_until := Some until, updated_at := now\<rparr>)) None (\<lambda>_. ()) s))"
    by (rule update_tame) (auto simp: keeps_rows renewed_def [symmetric] split: sum.splits)
  then show ?thesis by (simp add: sq_heartbeat_def split: sum.split)
qed

section \<open>Enqueue and maintenance\<close>

definition stopped_rows :: "string option \<Rightarrow> sq \<Rightarrow> sq" where
  "stopped_rows replacing s =
     (case replacing of
        None \<Rightarrow> s
      | Some current \<Rightarrow>
          s\<lparr>rows := sql_update (\<lambda>r. item_id r = current \<and> status r = Failed) stop_row (rows s)\<rparr>)"

lemma tame_stopped_rows: "tame s (stopped_rows r s)"
proof (cases r)
  case (Some current)
  have "tame s (s\<lparr>rows := sql_update (\<lambda>r. item_id r = current \<and> status r = Failed) stop_row (rows s)\<rparr>)"
    by (rule tame_update) (auto intro: keeps_rows)
  then show ?thesis by (simp add: stopped_rows_def Some)
qed (simp add: stopped_rows_def)

lemma sq_inv_insert:
  assumes inv: "sq_inv s" and v: "\<not> violates_unique it (rows s)" and ok: "row_ok it" and act: "is_active (status it)"
  shows "sq_inv (s\<lparr>rows := rows s @ [it]\<rparr>)"
proof -
  have fresh: "\<forall>r \<in> set (rows s). item_id r \<noteq> item_id it"
    and key: "\<forall>r \<in> set (rows s). is_active (status r) \<longrightarrow> \<not> same_key it r"
    using v act by (auto simp: violates_unique_def list_ex_iff same_key_def)
  have key': "\<not> same_key r it" if "r \<in> set (rows s)" "is_active (status r)" for r
    using key that unfolding same_key_def by metis
  have "item_id it \<notin> item_id ` set (rows s)" using fresh by force
  then have "distinct (map item_id (rows s @ [it]))" using sq_distinct [OF inv] by simp
  moreover have "\<forall>r \<in> set (rows s @ [it]). row_ok r" using sq_row_ok [OF inv] ok by simp
  moreover have "\<forall>r \<in> set (rows s @ [it]). \<forall>r' \<in> set (rows s @ [it]).
      is_active (status r) \<and> is_active (status r') \<and> same_key r r' \<longrightarrow> r = r'"
  proof (intro ballI impI)
    fix r r'
    assume "r \<in> set (rows s @ [it])" "r' \<in> set (rows s @ [it])"
      and a: "is_active (status r) \<and> is_active (status r') \<and> same_key r r'"
    then consider "r = it" "r' = it" | "r \<in> set (rows s)" "r' = it" | "r = it" "r' \<in> set (rows s)"
      | "r \<in> set (rows s)" "r' \<in> set (rows s)" by auto
    then show "r = r'"
    proof cases
      case 4
      then show ?thesis using a sq_active_key [OF inv] by blast
    qed (use a key key' in blast)+
  qed
  ultimately show ?thesis unfolding sq_inv_def by simp
qed

lemma sq_new_item_ok: "row_ok (sq_new_item rq nid now)" "is_active (status (sq_new_item rq nid now))"
  by (simp_all add: row_ok_def sq_new_item_def)

lemma sq_enqueue_state:
  "snd (sq_enqueue_inner db rq r nid now s) \<in> {s, stopped_rows r s} \<or>
   \<not> violates_unique (sq_new_item rq nid now) (rows (stopped_rows r s)) \<and>
   (\<exists>evs. snd (sq_enqueue_inner db rq r nid now s) =
      sq_emit evs ((stopped_rows r s)\<lparr>rows := rows (stopped_rows r s) @ [sq_new_item rq nid now]\<rparr>))"
  unfolding sq_enqueue_inner_def stopped_rows_def [symmetric] Let_def by (auto split: option.split)

lemma sq_inv_enqueue:
  assumes "sq_inv s"
  shows "sq_inv (snd (sq_enqueue_inner db rq r nid now s))"
proof -
  have "sq_inv (stopped_rows r s)" using assms tame_stopped_rows by (simp add: tame_def)
  with assms sq_enqueue_state [of db rq r nid now s] show ?thesis
    using sq_inv_insert [OF _ _ sq_new_item_ok, of "stopped_rows r s" rq nid now] by auto
qed

lemma tame_kill: "tame s (s\<lparr>rows := sql_update P (kill_row reason now) (rows s)\<rparr>)"
  by (rule tame_update) (rule keeps_rows)

lemma tame_mark: "tame s (snd (mark_stale_active_dead_inner db q before reason now s))"
  using tame_kill by (simp add: mark_stale_active_dead_inner_def Let_def)

lemma tame_retire: "tame s (snd (retire_stale_active db before reason now s))"
  using tame_kill by (simp add: retire_stale_active_def Let_def)

lemma tame_prune: "tame s (snd (prune_terminal_before db before s))"
  by (auto simp: tame_def prune_terminal_before_def Let_def sq_inv_def newest_def intro!: distinct_map_filter)

lemma tame_reclaim_expired_leases: "tame s (snd (sq_reclaim_expired_leases db q now s))"
  using tame_reclaim by (auto simp: sq_reclaim_expired_leases_def Let_def split: prod.split) (metis snd_conv)

section \<open>The backend as a transition system\<close>

text \<open>One rule per call of the backend; nothing is assumed of clocks, formats or identities.\<close>

inductive sq_step :: "chrono \<Rightarrow> sqlenv \<Rightarrow> sq \<Rightarrow> sq \<Rightarrow> bool" for ch db where
  sq_enqueue: "sq_step ch db s (snd (sq_enqueue db rq nid now s))"
| sq_enqueue_replacing: "sq_step ch db s (snd (sq_enqueue_replacing db rq cur nid now s))"
| sq_claim: "sq_step ch db s (snd (sq_claim ch db rq now now2 s))"
| sq_claim_item: "sq_step ch db s (snd (sq_claim_item ch db iid w secs cap now now2 s))"
| sq_heartbeat: "sq_step ch db s (snd (sq_heartbeat ch iid w secs now0 chk now s))"
| sq_complete: "sq_step ch db s (snd (sq_complete iid w now chk s))"
| sq_fail: "sq_step ch db s (snd (sq_fail ch iid w err retry now0 now chk s))"
| sq_fail_with: "sq_step ch db s (snd (sq_fail_with ch iid w f now chk s))"
| sq_reclaim: "sq_step ch db s (snd (sq_reclaim_expired_leases db q now s))"
| sq_note: "sq_step ch db s (snd (sq_note_cooldown db q until s))"
| sq_mark: "sq_step ch db s (snd (mark_stale_active_dead db q before reason now s))"
| sq_mark_all: "sq_step ch db s (snd (mark_all_stale_active_dead db before reason now s))"
| sq_retire: "sq_step ch db s (snd (retire_stale_active db before reason now s))"
| sq_prune: "sq_step ch db s (snd (prune_terminal_before db before s))"

inductive sq_reach :: "chrono \<Rightarrow> sqlenv \<Rightarrow> sq \<Rightarrow> bool" for ch db where
  start: "sq_reach ch db sq_empty"
| step: "sq_reach ch db s \<Longrightarrow> sq_step ch db s s' \<Longrightarrow> sq_reach ch db s'"

lemma tame_note: "tame s (snd (sq_note_cooldown db q until s))"
  by (simp add: tame_def sq_note_cooldown_def sq_inv_def newest_def)

lemmas tame_ops = tame_claim tame_claim_item tame_heartbeat tame_complete tame_fail tame_fail_with
  tame_reclaim_expired_leases tame_note tame_mark tame_retire tame_prune

lemma tame_inv: "tame s s' \<Longrightarrow> sq_inv s \<Longrightarrow> sq_inv s'"
  by (simp add: tame_def)

lemma sq_step_inv: "sq_step ch db s s' \<Longrightarrow> sq_inv s \<Longrightarrow> sq_inv s'"
  by (induction rule: sq_step.induct)
    (auto simp: sq_enqueue_def sq_enqueue_replacing_def mark_stale_active_dead_def mark_all_stale_active_dead_def
      intro: sq_inv_enqueue tame_ops [THEN tame_inv])

lemma sq_reach_inv: "sq_reach ch db s \<Longrightarrow> sq_inv s"
  by (induction rule: sq_reach.induct) (auto simp: sq_inv_def sq_empty_def dest: sq_step_inv [unfolded sq_inv_def])

end
