(* ===== verification/Sqlite_Queue_Props.thy ===== *)
theory Sqlite_Queue_Props
  imports Sqlite_Queue_Inv
begin

text \<open>
  The SQLite queue implements the contract of the trait (the locales of \<open>Queue_Contract\<close> are
  interpreted on its operations), and its properties, each with an instance at a concrete
  state. What the database and the clock must provide is spelled out: \<open>sql_ok\<close> (a scan visits
  every row once), \<open>lease_text_ok\<close> (the stored text of the leases compares with that of the
  present as the instants do, which RFC 3339 text does for four-digit years) and
  \<open>later_than_key\<close> (the clock reads later than the items already stored under the key).
\<close>

section \<open>The contract\<close>

definition sql_ok :: "sqlenv \<Rightarrow> bool" where
  "sql_ok db \<longleftrightarrow> (\<forall>xs. mset (scan db xs) = mset xs)"

definition sq_good :: "sqlenv \<Rightarrow> sq \<Rightarrow> bool" where
  "sq_good db s \<longleftrightarrow> sql_ok db \<and> sq_inv s"

text \<open>
  With \<open>newest\<close> added, the row a lookup by key finds is the active one. A clock that steps back
  breaks it, so no property but the interpretation \<open>sq_key\<close> assumes it.
\<close>

definition sq_fresh :: "sqlenv \<Rightarrow> sq \<Rightarrow> bool" where
  "sq_fresh db s \<longleftrightarrow> sq_good db s \<and> newest db s"

definition lease_text_ok :: "sqlenv \<Rightarrow> time \<Rightarrow> sq \<Rightarrow> bool" where
  "lease_text_ok db now s \<longleftrightarrow>
     (\<forall>r \<in> set (rows s). case lease_until r of None \<Rightarrow> True | Some u \<Rightarrow> ts db u < ts db now \<longleftrightarrow> u < now)"

definition later_than_key :: "sqlenv \<Rightarrow> EnqueueRequest \<Rightarrow> time \<Rightarrow> sq \<Rightarrow> bool" where
  "later_than_key db rq now s \<longleftrightarrow>
     (\<forall>r \<in> set (rows s). queue_id r = rq_queue_id rq \<and> idempotency_key r = rq_idempotency_key rq \<longrightarrow>
        ts db (created_at r) < ts db now)"

abbreviation row_at :: "sq \<Rightarrow> string \<Rightarrow> QueueItem option" where
  "row_at s i \<equiv> get_in_tx i s"

lemma sq_goodD: "sq_good db s \<Longrightarrow> sq_inv s" "sq_good db s \<Longrightarrow> sql_ok db"
  by (simp_all add: sq_good_def)

lemma sq_good_tame: "sq_good db s \<Longrightarrow> tame s s' \<Longrightarrow> sq_good db s'"
  by (simp add: sq_good_def tame_def)

lemma complete_live_sq:
  assumes g: "sq_good db s" and r: "row_at s i = Some r" and h: "holds_lease (Some r) w chk"
  shows "\<exists>s'. sq_complete i w now chk s = (Ok (), s') \<and> sq_good db s' \<and> row_at s' i = Some (completed now r) \<and>
    (\<forall>j. j \<noteq> i \<longrightarrow> row_at s' j = row_at s j)"
proof -
  have k: "keeps r (completed now r)" using h by (auto simp: holds_lease_Some intro: keeps_rows)
  from update_live [where upd = "\<lambda>r. Inr (completed now r)", OF sq_goodD(1) [OF g] r h refl k, of None "\<lambda>_. ()"]
  obtain s' where "sq_complete i w now chk s = (Ok (), s')" "tame s s'" "row_at s' i = Some (completed now r)"
    "\<forall>j. j \<noteq> i \<longrightarrow> row_at s' j = row_at s j"
    unfolding sq_complete_alt by blast
  with sq_good_tame [OF g] show ?thesis by blast
qed

lemma fail_live_sq:
  assumes g: "sq_good db s" and r: "row_at s i = Some r" and h: "holds_lease (Some r) w chk"
    and t: "(case fl_run_after f of Some t \<Rightarrow> Some t | None \<Rightarrow> checked_add_secs ch now 1) = Some t"
  shows "\<exists>s'. sq_fail_with ch i w f now chk s = (Ok (failed_outcome f r), s') \<and> sq_good db s' \<and>
    row_at s' i = Some (failed_at f t now r) \<and> (\<forall>j. j \<noteq> i \<longrightarrow> row_at s' j = row_at s j)"
proof -
  have k: "keeps r (failed_at f t now r)" using h by (auto simp: holds_lease_Some intro: keeps_rows)
  from update_live [where upd = "\<lambda>r. Inr (failed_at f t now r)", OF sq_goodD(1) [OF g] r h refl k,
      of "Some (fl_error f)" "failed_outcome f"]
  obtain s' where "sq_fail_with ch i w f now chk s = (Ok (failed_outcome f r), s')" "tame s s'"
    "row_at s' i = Some (failed_at f t now r)" "\<forall>j. j \<noteq> i \<longrightarrow> row_at s' j = row_at s j"
    unfolding sq_fail_with_alt t by (auto simp: failed_outcome_at)
  with sq_good_tame [OF g] show ?thesis by blast
qed

lemma complete_fenced_sq:
  "\<not> holds_lease (row_at s i) w chk \<Longrightarrow> sq_complete i w now chk s = (Err (refusal (row_at s i)), s)"
  unfolding sq_complete_alt by (rule update_fenced)

lemma fail_fenced_sq:
  "\<not> holds_lease (row_at s i) w chk \<Longrightarrow> fl_run_after f \<noteq> None \<or> checked_add_secs ch now 1 \<noteq> None \<Longrightarrow>
     sq_fail_with ch i w f now chk s = (Err (refusal (row_at s i)), s)"
  unfolding sq_fail_with_alt by (auto simp: update_fenced split: option.split)

interpretation sq_fence: fenced_store "sq_good db" row_at sq_complete "sq_fail_with ch"
proof unfold_locales
  fix s i w and f :: Failure and it :: QueueItem and chk now :: time
  assume g: "sq_good db s"
  {
    assume "row_at s i = Some it" "holds_lease (Some it) w chk"
    from complete_live_sq [OF g this, of now] show "\<exists>s'. sq_complete i w now chk s = (Ok (), s') \<and> sq_good db s' \<and>
        (\<exists>t. row_at s' i = Some (completed t it)) \<and>
        (\<forall>j x. j \<noteq> i \<longrightarrow> row_at s j = Some x \<longrightarrow> is_active (status x) \<longrightarrow> row_at s' j = Some x)"
      by fastforce
  }
  {
    assume h: "row_at s i = Some it" "holds_lease (Some it) w chk" and r: "fl_run_after f \<noteq> None"
    then have "(case fl_run_after f of Some t \<Rightarrow> Some t | None \<Rightarrow> checked_add_secs ch now 1) = Some (the (fl_run_after f))"
      by auto
    from fail_live_sq [OF g h this]
    show "\<exists>s'. sq_fail_with ch i w f now chk s = (Ok (failed_outcome f it), s') \<and> sq_good db s' \<and>
        (\<exists>t. row_at s' i = Some (failed_at f (the (fl_run_after f)) t it)) \<and>
        (\<forall>j x. j \<noteq> i \<longrightarrow> row_at s j = Some x \<longrightarrow> is_active (status x) \<longrightarrow> row_at s' j = Some x)"
      by fastforce
  }
qed (simp_all add: complete_fenced_sq fail_fenced_sq)

section \<open>Leasing\<close>

lemma row_at_reclaim:
  "row_at (snd (reclaim_expired_in_tx db q now s)) i =
     map_option (\<lambda>r. if sql_lapsed db q now r then reclaim_row now r else r) (row_at s i)"
  unfolding reclaim_expired_in_tx_def snd_conv by (rule get_in_tx_update) (simp add: reclaim_row_def)

lemma claim_item_state:
  assumes inv: "sq_inv s" and c: "sq_claim_item ch db i w secs cap now now2 s = (Ok (Some x), s')"
  shows "\<exists>r r1 u. row_at s i = Some r \<and> lease_deadline ch now secs = Inr u \<and>
    r1 = (if sql_lapsed db (queue_id r) now r then reclaim_row now r else r) \<and>
    is_waiting (status r1) \<and> attempt r1 < max_attempts r1 \<and> run_after r1 \<le> now \<and>
    x = lease_row w u now r1 \<and> row_at s' i = Some x"
proof -
  obtain u r where w: "\<not> blank w" and u: "lease_deadline ch now secs = Inr u" and r: "row_at s i = Some r"
    using c by (auto simp: sq_claim_item_def get_required_def split: if_splits sum.splits option.splits)
  let ?s1 = "snd (reclaim_expired_in_tx db (queue_id r) now s)"
  let ?r1 = "if sql_lapsed db (queue_id r) now r then reclaim_row now r else r"
  let ?P = "\<lambda>r. item_id r = i \<and> is_waiting (status r)"
  let ?s2 = "?s1\<lparr>rows := sql_update ?P (lease_row w u now) (rows ?s1)\<rparr>"
  have r1: "row_at ?s1 i = Some ?r1" using r by (simp add: row_at_reclaim)
  have inv1: "sq_inv ?s1" using inv tame_reclaim by (simp add: tame_def)
  have id1: "item_id ?r1 = i" using r1 get_in_tx_Some [OF inv1] by blast
  have cs: "is_waiting (status ?r1)" "attempt ?r1 < max_attempts ?r1" "run_after ?r1 \<le> now"
    "\<exists>y. get_required i ?s2 = Inr y \<and> x = y \<and> (\<exists>evs. sq_emit evs ?s2 = s')"
    using c w u r r1
    by (simp_all add: sq_claim_item_def get_required_def Let_def not_less not_le split: if_splits option.splits)
      blast+
  have "row_at ?s2 i = map_option (\<lambda>r. if ?P r then lease_row w u now r else r) (row_at ?s1 i)"
    by (rule get_in_tx_update) (simp add: lease_row_def)
  then have "row_at ?s2 i = Some (lease_row w u now ?r1)" using r1 cs(1) id1 by simp
  then have "x = lease_row w u now ?r1" "row_at s' i = Some x" using cs(4) by (auto simp: get_required_def)
  with cs(1-3) r u show ?thesis by blast
qed

lemma claim_item_leases_sq:
  assumes g: "sq_good db s" and c: "sq_claim_item ch db i w secs cap now now2 s = (Ok (Some x), s')"
  shows "sq_good db s' \<and> row_at s' i = Some x \<and>
    (\<exists>r until. row_at s i = Some r \<and> lease_deadline ch now secs = Inr until \<and> leased_to w until r x)"
proof -
  have "sq_good db s'" using sq_good_tame [OF g tame_claim_item, of ch db i w secs cap now now2] c by simp
  moreover from claim_item_state [OF sq_goodD(1) [OF g] c] obtain r r1 u where
    a: "row_at s i = Some r" "lease_deadline ch now secs = Inr u"
      "r1 = (if sql_lapsed db (queue_id r) now r then reclaim_row now r else r)"
      "attempt r1 < max_attempts r1" "x = lease_row w u now r1" "row_at s' i = Some x"
    by blast
  then have "leased_to w u r x" by (auto simp: leased_to_def lease_row_def reclaim_row_def split: if_splits)
  ultimately show ?thesis using a by blast
qed

lemma live_not_lapsed:
  assumes inv: "sq_inv s" and e: "lease_text_ok db now s" and r: "row_at s i = Some r" and h: "holds_lease (Some r) w now"
  shows "\<not> sql_lapsed db q now r"
proof -
  have "r \<in> set (rows s)" using r get_in_tx_Some [OF inv] by blast
  with e h show ?thesis by (auto simp: lease_text_ok_def holds_lease_Some sql_lapsed_def)
qed

lemma claim_item_excluded_sq:
  assumes g: "sq_good db s" and e: "lease_text_ok db now s" and h: "holds_lease (row_at s i) w' now"
  shows "fst (sq_claim_item ch db i w secs cap now now2 s) \<noteq> Ok (Some x)"
proof
  assume "fst (sq_claim_item ch db i w secs cap now now2 s) = Ok (Some x)"
  then obtain s' where "sq_claim_item ch db i w secs cap now now2 s = (Ok (Some x), s')" by (metis prod.collapse)
  from claim_item_state [OF sq_goodD(1) [OF g] this] obtain r where r: "row_at s i = Some r"
    and wt: "is_waiting (status (if sql_lapsed db (queue_id r) now r then reclaim_row now r else r))" by blast
  with h live_not_lapsed [OF sq_goodD(1) [OF g] e r] show False by (auto simp: holds_lease_Some)
qed

interpretation sq_lease: lease_queue "sq_good db" row_at sq_complete "sq_fail_with ch" ch "lease_text_ok db"
  "\<lambda>i w secs cap now s. sq_claim_item ch db i w secs cap now now2 s"
  by unfold_locales (blast dest: claim_item_leases_sq claim_item_excluded_sq)+

text \<open>A claim of several items.\<close>

lemma filter_by_id:
  assumes "distinct (map item_id rs)" and "r \<in> set rs" and "P r" and "item_id r = i"
  shows "length (filter (\<lambda>r. item_id r = i \<and> P r) rs) = 1"
  using assms by (induction rs) (auto simp: filter_empty_conv image_iff)

lemma claim_ids_ok:
  assumes "sq_inv s" and "distinct ids"
    and "\<And>i. i \<in> set ids \<Longrightarrow> \<exists>r. row_at s i = Some r \<and> is_waiting (status r) \<and> attempt r < max_attempts r"
  shows "\<exists>s'. claim_ids ids w u now s = (map (\<lambda>i. lease_row w u now (the (row_at s i))) ids, s') \<and> sq_inv s' \<and>
    (\<forall>j. row_at s' j = (if j \<in> set ids then map_option (lease_row w u now) (row_at s j) else row_at s j)) \<and>
    sq_cooldowns s' = sq_cooldowns s"
  using assms
proof (induction ids arbitrary: s)
  case Nil
  then show ?case by simp
next
  case (Cons i ids)
  from Cons.prems(3) [of i] obtain r where r: "row_at s i = Some r" "is_waiting (status r)" "attempt r < max_attempts r"
    by auto
  let ?P = "\<lambda>r. item_id r = i \<and> is_waiting (status r) \<and> attempt r < max_attempts r"
  let ?s1 = "s\<lparr>rows := sql_update ?P (lease_row w u now) (rows s)\<rparr>"
  have inr: "r \<in> set (rows s)" "item_id r = i" using r get_in_tx_Some [OF Cons.prems(1)] by blast+
  have look: "row_at ?s1 j = (if j = i then Some (lease_row w u now r) else row_at s j)" for j
  proof -
    have "row_at ?s1 j = map_option (\<lambda>r. if ?P r then lease_row w u now r else r) (row_at s j)"
      by (rule get_in_tx_update) (simp add: lease_row_def)
    moreover have "row_at s j = Some x \<Longrightarrow> item_id x = j" for x using get_in_tx_Some [OF Cons.prems(1)] by blast
    ultimately show ?thesis using r inr(2)
      by (cases "j = i"; cases "row_at s j") (simp_all only: option.map refl if_True if_False option.sel, simp_all)
  qed
  have inv1: "sq_inv ?s1"
    by (rule sq_inv_update [OF Cons.prems(1)]) (auto intro: keeps_rows)
  have "\<exists>r. row_at ?s1 j = Some r \<and> is_waiting (status r) \<and> attempt r < max_attempts r" if "j \<in> set ids" for j
    using Cons.prems(2) Cons.prems(3) [of j] that look [of j] by auto
  from Cons.IH [OF inv1 _ this] Cons.prems(2) obtain s' where
    s': "claim_ids ids w u now ?s1 = (map (\<lambda>i. lease_row w u now (the (row_at ?s1 i))) ids, s')" "sq_inv s'"
      "\<And>j. row_at s' j = (if j \<in> set ids then map_option (lease_row w u now) (row_at ?s1 j) else row_at ?s1 j)"
      "sq_cooldowns s' = sq_cooldowns ?s1" by auto
  have one: "length (filter ?P (rows s)) = 1"
    using filter_by_id [OF sq_distinct [OF Cons.prems(1)] inr(1), of "\<lambda>r. is_waiting (status r) \<and> attempt r < max_attempts r"]
      r inr(2) by simp
  have eqm: "map (\<lambda>i. lease_row w u now (the (row_at ?s1 i))) ids = map (\<lambda>i. lease_row w u now (the (row_at s i))) ids"
    using look Cons.prems(2) by auto
  have "claim_ids (i # ids) w u now s = (lease_row w u now r # map (\<lambda>i. lease_row w u now (the (row_at s i))) ids, s')"
    using one s'(1) look [of i] by (simp add: eqm Let_def)
  moreover have "row_at s' j = (if j \<in> set (i # ids) then map_option (lease_row w u now) (row_at s j) else row_at s j)" for j
    using s'(3) [of j] look [of j] r Cons.prems(2) by auto
  ultimately show ?case using s'(2,4) r by simp
qed

lemma sq_ready_rows:
  assumes "sql_ok db"
  shows "set (sq_ready db q now s) = {r \<in> set (rows s). queue_id r = q \<and> is_waiting (status r) \<and>
      attempt r < max_attempts r \<and> ts db (run_after r) \<le> ts db now}"
    and "distinct (map item_id (rows s)) \<Longrightarrow> distinct (map item_id (sq_ready db q now s))"
proof -
  let ?F = "filter (\<lambda>r. queue_id r = q \<and> is_waiting (status r) \<and> attempt r < max_attempts r \<and>
    ts db (run_after r) \<le> ts db now) (rows s)"
  have m: "mset (scan db ?F) = mset ?F" using assms by (simp add: sql_ok_def)
  then have mr: "mset (sq_ready db q now s) = mset ?F" unfolding sq_ready_def by simp
  from mset_eq_setD [OF mr] show "set (sq_ready db q now s) = {r \<in> set (rows s). queue_id r = q \<and> is_waiting (status r) \<and>
      attempt r < max_attempts r \<and> ts db (run_after r) \<le> ts db now}" by auto
  assume "distinct (map item_id (rows s))"
  then have "distinct (map item_id ?F)" by (rule distinct_map_filter)
  moreover have "mset (map item_id (sq_ready db q now s)) = mset (map item_id ?F)" by (simp only: mset_map mr)
  ultimately show "distinct (map item_id (sq_ready db q now s))" using mset_eq_imp_distinct_iff by blast
qed

lemma sql_limit_take: "\<exists>n. sql_limit m xs = take n xs" "m \<le> i64_max \<Longrightarrow> sql_limit m xs = take m xs"
  by (auto simp: sql_limit_def as_i64_def intro: exI [of _ "length xs"])

lemma claim_ready_ok:
  assumes inv: "sq_inv s" and ok: "sql_ok db"
  shows "\<exists>s'. claim_ids (map item_id (sql_limit m (sq_ready db q now s))) w u now s =
      (map (lease_row w u now) (sql_limit m (sq_ready db q now s)), s') \<and> sq_inv s' \<and>
    (\<forall>j. row_at s' j = (if j \<in> item_id ` set (sql_limit m (sq_ready db q now s))
        then map_option (lease_row w u now) (row_at s j) else row_at s j))"
proof -
  obtain n where n: "sql_limit m (sq_ready db q now s) = take n (sq_ready db q now s)" using sql_limit_take(1) by blast
  let ?L = "take n (sq_ready db q now s)"
  have L: "r \<in> set (rows s) \<and> is_waiting (status r) \<and> attempt r < max_attempts r" if "r \<in> set ?L" for r
    using that sq_ready_rows(1) [OF ok, of q now s] by (auto dest: in_set_takeD)
  then have at: "row_at s (item_id r) = Some r" if "r \<in> set ?L" for r
    using that get_in_tx_Some [OF inv] by blast
  have "distinct (map item_id ?L)"
    using sq_ready_rows(2) [OF ok sq_distinct [OF inv], of q now] by (simp add: take_map [symmetric])
  from claim_ids_ok [OF inv this, of w u now] obtain s' where
    "claim_ids (map item_id ?L) w u now s = (map (\<lambda>i. lease_row w u now (the (row_at s i))) (map item_id ?L), s')"
    "sq_inv s'"
    "\<forall>j. row_at s' j = (if j \<in> set (map item_id ?L) then map_option (lease_row w u now) (row_at s j) else row_at s j)"
    using L at by fastforce
  moreover have "map (\<lambda>i. lease_row w u now (the (row_at s i))) (map item_id ?L) = map (lease_row w u now) ?L"
    using at by simp
  ultimately show ?thesis unfolding n by auto
qed

lemma running_rows_card:
  assumes "sq_inv s"
  shows "sq_running_count q s = card {i. \<exists>r. row_at s i = Some r \<and> queue_id r = q \<and> status r = Running}"
proof -
  let ?F = "filter (\<lambda>r. queue_id r = q \<and> status r = Running) (rows s)"
  have "{i. \<exists>r. row_at s i = Some r \<and> queue_id r = q \<and> status r = Running} = set (map item_id ?F)"
    using get_in_tx_Some [OF assms] by auto
  moreover have "distinct (map item_id ?F)" by (rule distinct_map_filter [OF sq_distinct [OF assms]])
  ultimately show ?thesis unfolding sq_running_count_def by (simp add: distinct_card del: set_map)
qed

lemma running_after_reclaim:
  "sq_running_count q (snd (reclaim_expired_in_tx db q' now s)) \<le> sq_running_count q s"
proof -
  have le: "length (filter Q (map f rs)) \<le> length (filter Q rs)" if "\<And>r. Q (f r) \<Longrightarrow> Q r" for Q f and rs :: "QueueItem list"
    using that by (induction rs) auto
  have "length (filter (\<lambda>r. queue_id r = q \<and> status r = Running)
      (map (\<lambda>r. if sql_lapsed db q' now r then reclaim_row now r else r) (rows s)))
    \<le> length (filter (\<lambda>r. queue_id r = q \<and> status r = Running) (rows s))"
    by (rule le) (simp add: reclaim_row_def split: if_splits)
  then show ?thesis by (simp add: sq_running_count_def reclaim_expired_in_tx_def sql_update_def)
qed

lemma sq_claim_in_flight:
  assumes inv: "sq_inv s" and ok: "sql_ok db" and cap: "cl_max_in_flight rq = Some cap" and c64: "cap \<le> i64_max"
  shows "sq_running_count (cl_queue_id rq) (snd (sq_claim ch db rq now now2 s))
    \<le> max cap (sq_running_count (cl_queue_id rq) s)"
proof -
  let ?q = "cl_queue_id rq"
  let ?s1 = "snd (reclaim_expired_in_tx db ?q now s)"
  let ?run = "sq_running_count ?q ?s1"
  let ?lim = "min (max (cl_limit rq) 1) (cap - ?run)"
  have inv1: "sq_inv ?s1" using inv tame_reclaim by (simp add: tame_def)
  note le1 = running_after_reclaim [of ?q db ?q now s]
  have claimed: "sq_running_count ?q (snd (claim_ids (map item_id (sql_limit ?lim (sq_ready db ?q now ?s1))) w u now ?s1)) \<le> cap"
    if "?run < cap" for w u
  proof -
    have "?lim \<le> i64_max" using c64 by simp
    then have tk: "sql_limit ?lim (sq_ready db ?q now ?s1) = take ?lim (sq_ready db ?q now ?s1)" by (rule sql_limit_take(2))
    let ?L = "take ?lim (sq_ready db ?q now ?s1)"
    let ?R = "\<lambda>s. {i. \<exists>r. row_at s i = Some r \<and> queue_id r = ?q \<and> status r = Running}"
    from claim_ready_ok [OF inv1 ok, of ?lim ?q now w u] obtain s2 where
      s2: "claim_ids (map item_id ?L) w u now ?s1 = (map (lease_row w u now) ?L, s2)" "sq_inv s2"
        "\<And>j. row_at s2 j = (if j \<in> item_id ` set ?L then map_option (lease_row w u now) (row_at ?s1 j) else row_at ?s1 j)"
      unfolding tk by blast
    have fin: "finite (?R ?s1)"
      by (rule finite_subset [of _ "set (map item_id (rows ?s1))"]) (use get_in_tx_Some [OF inv1] in auto)
    have "?R s2 \<subseteq> ?R ?s1 \<union> item_id ` set ?L" using s2(3) by auto
    then have "card (?R s2) \<le> card (?R ?s1 \<union> item_id ` set ?L)" by (intro card_mono) (simp_all add: fin)
    also have "\<dots> \<le> card (?R ?s1) + card (item_id ` set ?L)" by (rule card_Un_le)
    also have "card (item_id ` set ?L) \<le> ?lim"
      by (rule order_trans [OF card_image_le]) (simp_all add: order_trans [OF card_length])
    finally have "card (?R s2) \<le> ?run + ?lim" by (simp add: running_rows_card [OF inv1])
    with that show ?thesis unfolding tk s2(1) snd_conv running_rows_card [OF s2(2)] by linarith
  qed
  have run64: "as_i64 cap \<le> int ?run \<longleftrightarrow> cap \<le> ?run" using c64 by (simp add: as_i64_def)
  have emit: "sq_running_count ?q (sq_emit evs t) = sq_running_count ?q t" for evs t by (simp add: sq_running_count_def)
  have "snd (sq_claim ch db rq now now2 s) \<in> {s, ?s1} \<or> (?run < cap \<and> (\<exists>evs w u. snd (sq_claim ch db rq now now2 s) =
      sq_emit evs (snd (claim_ids (map item_id (sql_limit ?lim (sq_ready db ?q now ?s1))) w u now ?s1))))"
    unfolding sq_claim_def Let_def cap option.case run64 case_prod_beta by (auto simp: not_le split: sum.split)
  then show ?thesis using le1 claimed emit by (elim disjE conjE exE insertE) (simp_all add: le_max_iff_disj)
qed

section \<open>Lookup by key\<close>

lemma last_sort_key:
  assumes "xs \<noteq> []"
  shows "last (sort_key f xs) \<in> set xs" and "x \<in> set xs \<Longrightarrow> f x \<le> f (last (sort_key f xs))"
proof -
  let ?ys = "sort_key f xs"
  have ne: "?ys \<noteq> []" using assms by (metis set_empty set_sort)
  then show "last ?ys \<in> set xs" using last_in_set by (metis set_sort)
  assume "x \<in> set xs"
  then obtain i where i: "i < length ?ys" "x = ?ys ! i" by (metis set_sort in_set_conv_nth)
  have "map f ?ys ! i \<le> map f ?ys ! (length ?ys - 1)"
    by (rule sorted_nth_mono) (use i in simp_all)
  then show "f x \<le> f (last ?ys)" using i ne by (simp add: last_conv_nth)
qed

definition key_rows :: "string \<Rightarrow> string \<Rightarrow> sq \<Rightarrow> QueueItem set" where
  "key_rows q k s = {r \<in> set (rows s). queue_id r = q \<and> idempotency_key r = Some k}"

lemma find_by_idempotency_cases:
  assumes ok: "sql_ok db"
  shows "find_by_idempotency db q k s = None \<longleftrightarrow> key_rows q k s = {}"
    and "find_by_idempotency db q k s = Some x \<Longrightarrow>
      x \<in> key_rows q k s \<and> (\<forall>r \<in> key_rows q k s. ts db (created_at r) \<le> ts db (created_at x))"
proof -
  let ?M = "key_rows q k s"
  let ?F = "filter (\<lambda>r. queue_id r = q \<and> idempotency_key r = Some k) (rows s)"
  let ?S = "sort_key (\<lambda>r. ts db (created_at r)) (scan db ?F)"
  have "mset (scan db ?F) = mset ?F" using ok by (simp add: sql_ok_def)
  then have "set (scan db ?F) = set ?F" by (rule mset_eq_setD)
  then have set: "set (scan db ?F) = ?M" unfolding key_rows_def by simp
  have find: "find_by_idempotency db q k s = (if ?S = [] then None else Some (last ?S))"
    unfolding find_by_idempotency_def by (auto split: list.split)
  have "?S = [] \<longleftrightarrow> set ?S = {}" by (rule set_empty [symmetric])
  then have emp: "?S = [] \<longleftrightarrow> ?M = {}" by (simp only: set_sort set)
  then show "find_by_idempotency db q k s = None \<longleftrightarrow> ?M = {}" using find by simp
  assume "find_by_idempotency db q k s = Some x"
  then have x: "x = last ?S" "?M \<noteq> {}" using find emp by (auto split: if_splits)
  then have "scan db ?F \<noteq> []" using set by auto
  from last_sort_key [OF this, where f = "\<lambda>r. ts db (created_at r)"] show "x \<in> ?M \<and> (\<forall>r \<in> ?M. ts db (created_at r) \<le> ts db (created_at x))"
    unfolding x set by blast
qed

lemma find_active:
  assumes ok: "sql_ok db" and r: "r \<in> set (rows s)" "queue_id r = q" "idempotency_key r = Some k"
    and n: "\<And>y. y \<in> set (rows s) \<Longrightarrow> y \<noteq> r \<Longrightarrow> queue_id y = q \<Longrightarrow> idempotency_key y = Some k \<Longrightarrow>
      ts db (created_at y) < ts db (created_at r)"
  shows "find_by_idempotency db q k s = Some r"
proof (cases "find_by_idempotency db q k s")
  case None
  then show ?thesis using find_by_idempotency_cases(1) [OF ok] r by (auto simp: key_rows_def)
next
  case (Some x)
  from find_by_idempotency_cases(2) [OF ok Some] r have
    x: "x \<in> set (rows s)" "queue_id x = q" "idempotency_key x = Some k" "ts db (created_at r) \<le> ts db (created_at x)"
    by (auto simp: key_rows_def)
  have "x = r"
  proof (rule ccontr)
    assume "x \<noteq> r"
    from n [OF x(1) this x(2,3)] x(4) show False by simp
  qed
  with Some show ?thesis by simp
qed

text \<open>
  While a row of the key is active nothing is inserted, even when the lookup finds an older row that
  is finished: a forced request then runs into the unique index. Only the answer depends on the clock.
\<close>

lemma enqueue_keyed_sq:
  assumes g: "sq_good db s" and r: "r \<in> set (rows s)" "is_active (status r)"
    and k: "idempotency_key r = Some k" "rq_idempotency_key rq = Some k" "rq_queue_id rq = queue_id r"
    and kind: "\<not> blank (rq_kind rq)"
  shows "\<exists>x d. find_by_idempotency db (queue_id r) k s = Some x \<and>
    sq_enqueue db rq nid now s = (Ok \<lparr>out_item = x, disposition = d\<rparr>, s) \<and> d \<noteq> Inserted \<and>
    (is_active (status x) \<longrightarrow> d = ActiveDuplicate)"
proof -
  obtain x where x: "find_by_idempotency db (queue_id r) k s = Some x"
    using find_by_idempotency_cases(1) [OF sq_goodD(2) [OF g], of "queue_id r" k s] r k
    by (cases "find_by_idempotency db (queue_id r) k s") (auto simp: key_rows_def)
  have v: "violates_unique (sq_new_item rq nid now) (rows s)"
    using r k by (auto simp: violates_unique_def list_ex_iff sq_new_item_def intro!: bexI [of _ r])
  show ?thesis
    using x v k kind
    by (auto simp: sq_enqueue_def sq_enqueue_inner_def sq_deduplicates_def Let_def)
qed

lemma enqueue_active_sq:
  assumes f: "sq_fresh db s" and r: "row_at s i = Some r" "is_active (status r)"
    and k: "idempotency_key r = Some k" "rq_idempotency_key rq = Some k" "rq_queue_id rq = queue_id r"
    and kind: "\<not> blank (rq_kind rq)"
  shows "sq_enqueue db rq nid now s = (Ok \<lparr>out_item = r, disposition = ActiveDuplicate\<rparr>, s)"
proof -
  have g: "sq_good db s" and n: "newest db s" using f by (simp_all add: sq_fresh_def)
  have m: "r \<in> set (rows s)" using r get_in_tx_Some [OF sq_goodD(1) [OF g]] by blast
  have "find_by_idempotency db (queue_id r) k s = Some r"
    by (rule find_active [OF sq_goodD(2) [OF g] m refl k(1)])
      (use n m r(2) k(1) in \<open>auto simp: newest_def same_key_def\<close>)
  with enqueue_keyed_sq [OF g m r(2) k kind, of nid now] r(2) show ?thesis by auto
qed

lemma newest_insert:
  assumes n: "newest db s" and v: "\<not> violates_unique it (rows s)" and act: "is_active (status it)"
    and l: "\<And>r. r \<in> set (rows s) \<Longrightarrow> same_key it r \<Longrightarrow> ts db (created_at r) < ts db (created_at it)"
  shows "newest db (s\<lparr>rows := rows s @ [it]\<rparr>)"
proof -
  have key: "\<not> same_key r it" if "r \<in> set (rows s)" "is_active (status r)" for r
    using v act that by (auto simp: violates_unique_def list_ex_iff same_key_def)
  show ?thesis
    using n l key unfolding newest_def by auto
qed

lemma enqueue_inserted_sq:
  assumes g: "sq_fresh db s" and e: "later_than_key db rq now s"
    and i: "sq_enqueue_inner db rq rp nid now s = (Ok out, s')" and d: "disposition out = Inserted"
  shows "sq_fresh db s' \<and> row_at s' nid = Some (sq_new_item rq nid now) \<and> out_item out = sq_new_item rq nid now"
proof -
  let ?it = "sq_new_item rq nid now"
  let ?s1 = "stopped_rows rp s"
  have "out_item out = ?it \<and> \<not> violates_unique ?it (rows ?s1) \<and> s' = sq_emit [(?it, None)] (?s1\<lparr>rows := rows ?s1 @ [?it]\<rparr>)"
    using i d unfolding sq_enqueue_inner_def stopped_rows_def [symmetric] Let_def by (auto split: if_splits option.splits)
  then have o: "out_item out = ?it" and v: "\<not> violates_unique ?it (rows ?s1)"
    and s': "s' = sq_emit [(?it, None)] (?s1\<lparr>rows := rows ?s1 @ [?it]\<rparr>)" by simp_all
  have g1: "sq_inv ?s1" "newest db ?s1" "sql_ok db" using g tame_stopped_rows by (simp_all add: sq_fresh_def sq_good_def tame_def)
  have sub: "\<exists>r0 \<in> set (rows s). queue_id r = queue_id r0 \<and> idempotency_key r = idempotency_key r0 \<and> created_at r = created_at r0"
    if "r \<in> set (rows ?s1)" for r
    using that by (cases rp) (auto simp: stopped_rows_def sql_update_def stop_row_def)
  have "newest db (?s1\<lparr>rows := rows ?s1 @ [?it]\<rparr>)"
  proof (rule newest_insert [OF g1(2) v sq_new_item_ok(2)])
    fix r
    assume "r \<in> set (rows ?s1)" "same_key ?it r"
    with sub e show "ts db (created_at r) < ts db (created_at ?it)"
      by (fastforce simp: same_key_def later_than_key_def sq_new_item_def)
  qed
  moreover have inv': "sq_inv (?s1\<lparr>rows := rows ?s1 @ [?it]\<rparr>)" by (rule sq_inv_insert [OF g1(1) v sq_new_item_ok])
  moreover have "row_at s' nid = Some ?it"
    unfolding s' using get_in_tx_Some [OF inv'] by (simp add: sq_new_item_def)
  ultimately show ?thesis using g1(3) o by (simp add: sq_fresh_def sq_good_def s')
qed

interpretation sq_key: keyed_queue "sq_fresh db" row_at "later_than_key db" "sq_enqueue db"
proof unfold_locales
  fix s nid rq r s' and now :: time
  assume "sq_fresh db s" "later_than_key db rq now s" "sq_enqueue db rq nid now s = (Ok r, s')" "disposition r = Inserted"
  then have "sq_fresh db s' \<and> row_at s' nid = Some (sq_new_item rq nid now) \<and> out_item r = sq_new_item rq nid now"
    unfolding sq_enqueue_def by (rule enqueue_inserted_sq)
  then show "sq_fresh db s' \<and> row_at s' nid = Some (out_item r) \<and> item_id (out_item r) = nid \<and>
      is_active (status (out_item r)) \<and> queue_id (out_item r) = rq_queue_id rq \<and>
      idempotency_key (out_item r) = rq_idempotency_key rq"
    by (simp add: sq_new_item_def)
qed (simp_all add: enqueue_active_sq, simp add: sq_enqueue_def sq_enqueue_inner_def)

section \<open>Claims and maintenance against live leases\<close>

lemma sq_claim_returns:
  assumes g: "sq_good db s" and e: "lease_text_ok db now s"
    and c: "sq_claim ch db rq now now2 s = (Ok out, s')" and x: "x \<in> set out"
  shows "\<exists>r u. row_at s (item_id x) = Some r \<and> lease_deadline ch now (cl_lease_seconds rq) = Inr u \<and>
    row_at s' (item_id x) = Some x \<and> leased_to (cl_worker_id rq) u r x \<and> \<not> holds_lease (Some r) w' now"
proof -
  let ?q = "cl_queue_id rq"
  let ?s1 = "snd (reclaim_expired_in_tx db ?q now s)"
  obtain u m where u: "lease_deadline ch now (cl_lease_seconds rq) = Inr u"
    and c': "claim_ids (map item_id (sql_limit m (sq_ready db ?q now ?s1))) (cl_worker_id rq) u now ?s1 = (out, s') \<or>
      (\<exists>evs s2. claim_ids (map item_id (sql_limit m (sq_ready db ?q now ?s1))) (cl_worker_id rq) u now ?s1 = (out, s2) \<and>
        s' = sq_emit evs s2)"
    using c x by (auto simp: sq_claim_def Let_def split: if_splits sum.splits prod.splits option.splits)
  have inv1: "sq_inv ?s1" using sq_goodD(1) [OF g] tame_reclaim by (simp add: tame_def)
  let ?L = "sql_limit m (sq_ready db ?q now ?s1)"
  from claim_ready_ok [OF inv1 sq_goodD(2) [OF g], of m ?q now "cl_worker_id rq" u] obtain s2 where
    s2: "claim_ids (map item_id ?L) (cl_worker_id rq) u now ?s1 = (map (lease_row (cl_worker_id rq) u now) ?L, s2)"
      "\<And>j. row_at s2 j = (if j \<in> item_id ` set ?L then map_option (lease_row (cl_worker_id rq) u now) (row_at ?s1 j) else row_at ?s1 j)"
    by blast
  have out: "out = map (lease_row (cl_worker_id rq) u now) ?L" and look: "row_at s' j = row_at s2 j" for j
    using c' unfolding s2(1) by auto
  from x obtain r1 where r1: "r1 \<in> set ?L" and xr: "x = lease_row (cl_worker_id rq) u now r1" unfolding out by auto
  have "set ?L \<subseteq> set (sq_ready db ?q now ?s1)" using sql_limit_take(1) set_take_subset by metis
  with r1 sq_ready_rows(1) [OF sq_goodD(2) [OF g], of ?q now ?s1] have
    r1': "r1 \<in> set (rows ?s1)" "is_waiting (status r1)" "attempt r1 < max_attempts r1" by auto
  have at1: "row_at ?s1 (item_id r1) = Some r1" using r1'(1) get_in_tx_Some [OF inv1] by blast
  then obtain r where r: "row_at s (item_id r1) = Some r"
    and rr: "r1 = (if sql_lapsed db ?q now r then reclaim_row now r else r)"
    unfolding row_at_reclaim by auto
  have idx: "item_id x = item_id r1" by (simp add: xr lease_row_def)
  have "leased_to (cl_worker_id rq) u r x"
    using r1'(3) rr by (auto simp: xr leased_to_def lease_row_def reclaim_row_def split: if_splits)
  moreover have "\<not> holds_lease (Some r) w' now"
    using live_not_lapsed [OF sq_goodD(1) [OF g] e r, of w' ?q] r1'(2) rr by (auto simp: holds_lease_Some)
  moreover have "row_at s' (item_id x) = Some x"
    using look [of "item_id r1"] s2(2) [of "item_id r1"] r1 at1 by (simp add: idx) (simp add: xr)
  ultimately show ?thesis using r u by (auto simp: idx)
qed

lemma stale_spares_live:
  assumes g: "sq_inv s" and e: "lease_text_ok db now s" and r: "row_at s i = Some r" and h: "holds_lease (Some r) w now"
  shows "\<not> stale_active db q before now r"
proof -
  have "r \<in> set (rows s)" using r get_in_tx_Some [OF g] by blast
  with e h show ?thesis by (auto simp: lease_text_ok_def holds_lease_Some stale_active_def)
qed

lemma row_at_kill:
  "row_at (s\<lparr>rows := sql_update P (kill_row reason now) (rows s)\<rparr>) i =
     map_option (\<lambda>r. if P r then kill_row reason now r else r) (row_at s i)"
  by (rule get_in_tx_update) (simp add: kill_row_def)

section \<open>Properties\<close>

text \<open>An environment, a table with one row, and the same table with the row leased.\<close>

definition demo_sql :: sqlenv where
  "demo_sql = \<lparr>ts = (\<lambda>t. replicate (nat t) (CHR ''x'')), scan = (\<lambda>xs. xs)\<rparr>"

definition demo_sq_request :: EnqueueRequest where
  "demo_sq_request =
     \<lparr>rq_queue_id = ''q'', rq_kind = ''k'', rq_payload = ''1'', rq_idempotency_key = Some ''a'',
      rq_run_after = None, rq_max_attempts = Some 2, rq_force = False\<rparr>"

definition demo_sq_claim :: ClaimRequest where
  "demo_sq_claim =
     \<lparr>cl_queue_id = ''q'', cl_worker_id = ''w'', cl_limit = 5, cl_lease_seconds = 10, cl_max_in_flight = Some 1\<rparr>"

definition demo_sq :: sq where
  "demo_sq = snd (sq_enqueue demo_sql demo_sq_request ''i'' 0 sq_empty)"

definition demo_sq_leased :: sq where
  "demo_sq_leased = snd (sq_claim plain_clock demo_sql demo_sq_claim 1 1 demo_sq)"

lemma demo_sql_ok: "sql_ok demo_sql"
  by (simp add: sql_ok_def demo_sql_def)

lemma demo_sq_reach: "sq_reach plain_clock demo_sql demo_sq"
  unfolding demo_sq_def by (rule sq_reach.step [OF sq_reach.start sq_step.sq_enqueue])

lemma demo_sq_leased_reach: "sq_reach plain_clock demo_sql demo_sq_leased"
  unfolding demo_sq_leased_def by (rule sq_reach.step [OF demo_sq_reach sq_step.sq_claim])

lemma demo_sq_good: "sq_good demo_sql demo_sq" "sq_good demo_sql demo_sq_leased"
  using sq_reach_inv [OF demo_sq_reach] sq_reach_inv [OF demo_sq_leased_reach] demo_sql_ok by (simp_all add: sq_good_def)

lemma demo_text_ok: "lease_text_ok demo_sql 1 demo_sq" "lease_text_ok demo_sql 5 demo_sq_leased"
  by code_simp+

text \<open>
  C22. In every state the SQLite backend reaches, by any sequence of calls and whatever the clock and
  the text of the instants do, identities are unique, two active rows of one queue never carry
  the same key (so no update can run into the unique index), attempts stay within budget and a
  row has an owner and a deadline exactly while it is running.
\<close>

theorem sq_reach_consistent:
  assumes "sq_reach ch db s"
  shows "sq_inv s"
  by (rule sq_reach_inv [OF assms])

theorem sq_reach_consistent_witness: "sq_inv demo_sq_leased"
  by (rule sq_reach_consistent [OF demo_sq_leased_reach])

text \<open>
  C23. Leases of the SQLite backend are exclusive. A row returned by a claim was under no live lease,
  is now leased to the caller with an attempt of its budget spent; until that lease ends
  \<^verbatim>\<open>claim_item\<close> cannot lease it to anyone, the maintenance calls do not touch it, and its owner
  can complete it.
\<close>

theorem sq_claim_is_exclusive:
  assumes "sq_good db s" and "lease_text_ok db now s" and "sq_claim ch db rq now now2 s = (Ok out, s')" and "x \<in> set out"
    and "lease_deadline ch now (cl_lease_seconds rq) = Inr u" and "t \<le> u" and "lease_text_ok db t s'"
  shows "\<not> holds_lease (row_at s (item_id x)) w' now \<and>
    leased_to (cl_worker_id rq) u (the (row_at s (item_id x))) x \<and>
    fst (sq_claim_item ch db (item_id x) w' secs cap t t2 s') \<noteq> Ok (Some y) \<and>
    row_at (snd (mark_stale_active_dead db q before reason t s')) (item_id x) = Some x \<and>
    row_at (snd (retire_stale_active db before reason t s')) (item_id x) = Some x \<and>
    fst (sq_complete (item_id x) (cl_worker_id rq) now' t s') = Ok ()"
proof -
  from sq_claim_returns [OF assms(1-4)] assms(5) obtain r where
    r: "row_at s (item_id x) = Some r" "row_at s' (item_id x) = Some x" "leased_to (cl_worker_id rq) u r x"
      "\<not> holds_lease (Some r) w' now"
    by (metis sum.inject(2) option.inject)
  have g': "sq_good db s'" using sq_good_tame [OF assms(1) tame_claim] assms(3) by (metis snd_conv)
  have h: "holds_lease (Some x) (cl_worker_id rq) t"
    using r(3) assms(6) by (auto simp: leased_to_def holds_lease_Some)
  note nostale = stale_spares_live [OF sq_goodD(1) [OF g'] assms(7) r(2) h]
  have "fst (sq_claim_item ch db (item_id x) w' secs cap t t2 s') \<noteq> Ok (Some y)"
    using claim_item_excluded_sq [OF g' assms(7)] h r(2) by simp
  moreover have "fst (sq_complete (item_id x) (cl_worker_id rq) now' t s') = Ok ()"
    using complete_live_sq [OF g' r(2) h, of now'] by auto
  moreover have "row_at (snd (mark_stale_active_dead db q before reason t s')) (item_id x) = Some x"
    using r(2) nostale by (simp add: mark_stale_active_dead_def mark_stale_active_dead_inner_def Let_def row_at_kill)
  moreover have "row_at (snd (retire_stale_active db before reason t s')) (item_id x) = Some x"
    using r(2) nostale by (simp add: retire_stale_active_def Let_def row_at_kill)
  ultimately show ?thesis using r by simp
qed

theorem sq_claim_is_exclusive_witness:
  "(\<forall>y. fst (sq_claim_item plain_clock demo_sql ''i'' ''v'' 10 None 5 5 demo_sq_leased) \<noteq> Ok (Some y)) \<and>
    fst (sq_complete ''i'' ''w'' 5 5 demo_sq_leased) = Ok ()"
proof -
  let ?x = "the (row_at demo_sq_leased ''i'')"
  have 1: "sq_claim plain_clock demo_sql demo_sq_claim 1 1 demo_sq = (Ok [?x], demo_sq_leased)" by code_simp
  have 2: "lease_deadline plain_clock 1 (cl_lease_seconds demo_sq_claim) = Inr 11" by code_simp
  have 3: "item_id ?x = ''i''" "cl_worker_id demo_sq_claim = ''w''" by code_simp+
  show ?thesis
    using sq_claim_is_exclusive [OF demo_sq_good(1) demo_text_ok(1) 1 _ 2, of ?x 5 "''v''" 10 None 5] demo_text_ok(2) 3 by simp
qed

text \<open>
  C24. Acknowledgements of the SQLite backend are fenced, whatever the clock does between its two readings:
  \<^verbatim>\<open>complete\<close> succeeds exactly for the worker whose lease is live when the transaction checks it, any
  other caller gets the error that names the reason with no row changed, and after a success every
  later \<^verbatim>\<open>complete\<close> or \<^verbatim>\<open>fail_with\<close> is refused with no row changed (a failure without a retry instant as
  long as one second later is a representable instant).
\<close>

theorem sq_complete_is_fenced:
  assumes "sq_good db s"
  shows "(fst (sq_complete i w now chk s) = Ok () \<longleftrightarrow> holds_lease (row_at s i) w chk) \<and>
    (\<not> holds_lease (row_at s i) w chk \<longrightarrow> sq_complete i w now chk s = (Err (refusal (row_at s i)), s)) \<and>
    (fst (sq_complete i w now chk s) = Ok () \<longrightarrow>
      sq_complete i w' now' chk' (snd (sq_complete i w now chk s)) =
        (Err (NotRunning InvalidConfiguration), snd (sq_complete i w now chk s)) \<and>
      (fl_run_after f \<noteq> None \<or> checked_add_secs ch now' 1 \<noteq> None \<longrightarrow>
        sq_fail_with ch i w' f now' chk' (snd (sq_complete i w now chk s)) =
        (Err (NotRunning InvalidConfiguration), snd (sq_complete i w now chk s))))"
proof (cases "holds_lease (row_at s i) w chk")
  case False
  then show ?thesis by (simp add: complete_fenced_sq)
next
  case True
  then obtain r where r: "row_at s i = Some r" "holds_lease (Some r) w chk" by (metis holds_leaseE)
  from complete_live_sq [OF assms r, of now] obtain s' where
    s': "sq_complete i w now chk s = (Ok (), s')" "row_at s' i = Some (completed now r)" by blast
  note nr = not_running_fenced [of "completed now r", simplified]
  have "sq_complete i w' now' chk' s' = (Err (NotRunning InvalidConfiguration), s')"
    using complete_fenced_sq [of i s' w' chk' now'] s'(2) nr by simp
  moreover have "sq_fail_with ch i w' f now' chk' s' = (Err (NotRunning InvalidConfiguration), s')"
    if "fl_run_after f \<noteq> None \<or> checked_add_secs ch now' 1 \<noteq> None"
    using fail_fenced_sq [of i s' w' chk' f ch now'] that s'(2) nr by simp
  ultimately show ?thesis using True s'(1) by simp
qed

theorem sq_complete_is_fenced_witness:
  "sq_complete ''i'' ''v'' 12 12 (snd (sq_complete ''i'' ''w'' 11 11 demo_sq_leased)) =
     (Err (NotRunning InvalidConfiguration), snd (sq_complete ''i'' ''w'' 11 11 demo_sq_leased))"
proof -
  have "fst (sq_complete ''i'' ''w'' 11 11 demo_sq_leased) = Ok ()" by code_simp
  with sq_complete_is_fenced [OF demo_sq_good(2), of "''i''" "''w''" 11 11 "''v''" 12 12] show ?thesis by blast
qed

text \<open>
  C33. The in-flight cap of the SQLite backend: with a cap that fits a signed 64-bit integer, a claim never
  raises the number of running rows of the queue above the cap nor above what it was.
\<close>

theorem sq_claim_respects_max_in_flight:
  assumes "sq_reach ch db s" and "sql_ok db" and "cl_max_in_flight rq = Some cap" and "cap \<le> i64_max"
  shows "sq_running_count (cl_queue_id rq) (snd (sq_claim ch db rq now now2 s))
    \<le> max cap (sq_running_count (cl_queue_id rq) s)"
  by (rule sq_claim_in_flight [OF sq_reach_inv [OF assms(1)] assms(2-4)])

theorem sq_claim_respects_max_in_flight_witness:
  "sq_running_count ''q'' (snd (sq_claim plain_clock demo_sql demo_sq_claim 2 2 demo_sq_leased))
    \<le> max 1 (sq_running_count ''q'' demo_sq_leased)"
  using sq_claim_respects_max_in_flight [OF demo_sq_leased_reach demo_sql_ok, of demo_sq_claim 1 2 2]
  by (simp add: demo_sq_claim_def i64_max_def)

text \<open>
  C40. A cap above the signed 64-bit range (such as \<^verbatim>\<open>usize::MAX\<close>, meant as no cap) makes every claim of the
  SQLite backend return nothing, because the comparison casts it to a negative number.
\<close>

theorem sq_huge_cap_blocks_claims:
  assumes "cl_max_in_flight rq = Some cap" and "i64_max < cap" and "cap \<le> u64_max"
    and "\<not> blank (cl_worker_id rq)" and "lease_deadline ch now (cl_lease_seconds rq) = Inr u"
  shows "fst (sq_claim ch db rq now now2 s) = Ok []"
proof -
  have "as_i64 cap < 0" using assms(2,3) by (simp add: as_i64_def i64_max_def u64_max_def)
  then have "as_i64 cap \<le> int n" for n by simp
  then show ?thesis using assms(1,4,5) by (simp add: sq_claim_def Let_def)
qed

theorem sq_huge_cap_blocks_claims_witness:
  "fst (sq_claim plain_clock demo_sql (demo_sq_claim\<lparr>cl_max_in_flight := Some 18446744073709551615\<rparr>) 1 1 demo_sq) = Ok []"
proof (rule sq_huge_cap_blocks_claims [of _ 18446744073709551615 _ _ 11])
  show "\<not> blank (cl_worker_id (demo_sq_claim\<lparr>cl_max_in_flight := Some 18446744073709551615\<rparr>))" by code_simp
  show "lease_deadline plain_clock 1 (cl_lease_seconds (demo_sq_claim\<lparr>cl_max_in_flight := Some 18446744073709551615\<rparr>)) = Inr 11"
    by code_simp
qed (simp_all add: i64_max_def u64_max_def)

text \<open>
  C25. Enqueueing in SQLite is idempotent, whatever the clock does. While an item of a queue is active under
  a key, a request under the same key, forced or not, inserts nothing and changes nothing: it
  answers with the stored row of that key whose creation text is the latest. That row is the active
  item, answered as an active duplicate, when the active item's creation text is the latest one of
  the key; when the wall clock stepped back it may be an older, finished item. A request that does
  insert appends exactly its new item to the table.
\<close>

theorem sq_enqueue_is_idempotent:
  assumes "sq_reach ch db s" and "sql_ok db"
  shows "(row_at s i = Some r \<and> is_active (status r) \<and> idempotency_key r = Some k \<and> rq_idempotency_key rq = Some k \<and>
      rq_queue_id rq = queue_id r \<and> \<not> blank (rq_kind rq) \<longrightarrow>
      (\<exists>x d. sq_enqueue db rq nid now s = (Ok \<lparr>out_item = x, disposition = d\<rparr>, s) \<and> d \<noteq> Inserted \<and>
        x \<in> set (rows s) \<and> queue_id x = queue_id r \<and> idempotency_key x = Some k \<and>
        (\<forall>y \<in> set (rows s). queue_id y = queue_id r \<and> idempotency_key y = Some k \<longrightarrow>
           ts db (created_at y) \<le> ts db (created_at x)) \<and>
        ((\<forall>y \<in> set (rows s). y \<noteq> r \<and> queue_id y = queue_id r \<and> idempotency_key y = Some k \<longrightarrow>
           ts db (created_at y) < ts db (created_at r)) \<longrightarrow> x = r \<and> d = ActiveDuplicate))) \<and>
    (sq_enqueue db rq nid now s = (Ok out, s') \<and> disposition out = Inserted \<longrightarrow>
      out_item out = sq_new_item rq nid now \<and> rows s' = rows s @ [sq_new_item rq nid now])"
proof -
  have inv: "sq_inv s" by (rule sq_reach_inv [OF assms(1)])
  have g: "sq_good db s" using inv assms(2) by (simp add: sq_good_def)
  have "\<exists>x d. sq_enqueue db rq nid now s = (Ok \<lparr>out_item = x, disposition = d\<rparr>, s) \<and> d \<noteq> Inserted \<and>
        x \<in> set (rows s) \<and> queue_id x = queue_id r \<and> idempotency_key x = Some k \<and>
        (\<forall>y \<in> set (rows s). queue_id y = queue_id r \<and> idempotency_key y = Some k \<longrightarrow>
           ts db (created_at y) \<le> ts db (created_at x)) \<and>
        ((\<forall>y \<in> set (rows s). y \<noteq> r \<and> queue_id y = queue_id r \<and> idempotency_key y = Some k \<longrightarrow>
           ts db (created_at y) < ts db (created_at r)) \<longrightarrow> x = r \<and> d = ActiveDuplicate)"
    if r: "row_at s i = Some r" "is_active (status r)" and k: "idempotency_key r = Some k" "rq_idempotency_key rq = Some k"
      "rq_queue_id rq = queue_id r" and kind: "\<not> blank (rq_kind rq)"
  proof -
    have m: "r \<in> set (rows s)" using r(1) get_in_tx_Some [OF inv] by blast
    from enqueue_keyed_sq [OF g m r(2) k kind, of nid now] obtain x d where
      f: "find_by_idempotency db (queue_id r) k s = Some x"
      and e: "sq_enqueue db rq nid now s = (Ok \<lparr>out_item = x, disposition = d\<rparr>, s)" "d \<noteq> Inserted"
        "is_active (status x) \<longrightarrow> d = ActiveDuplicate" by blast
    have "x = r \<and> d = ActiveDuplicate"
      if "\<forall>y \<in> set (rows s). y \<noteq> r \<and> queue_id y = queue_id r \<and> idempotency_key y = Some k \<longrightarrow>
        ts db (created_at y) < ts db (created_at r)"
      using find_active [OF assms(2) m refl k(1)] that f e(3) r(2) by auto
    with find_by_idempotency_cases(2) [OF assms(2) f] e(1,2) show ?thesis
      by (intro exI [of _ x] exI [of _ d]) (auto simp: key_rows_def)
  qed
  moreover have "out_item out = sq_new_item rq nid now \<and> rows s' = rows s @ [sq_new_item rq nid now]"
    if "sq_enqueue db rq nid now s = (Ok out, s')" "disposition out = Inserted"
    using that by (auto simp: sq_enqueue_def sq_enqueue_inner_def Let_def split: if_splits option.splits)
  ultimately show ?thesis by blast
qed

theorem sq_enqueue_is_idempotent_witness:
  "sq_enqueue demo_sql demo_sq_request ''j'' 7 demo_sq_leased =
     (Ok \<lparr>out_item = the (row_at demo_sq_leased ''i''), disposition = ActiveDuplicate\<rparr>, demo_sq_leased)"
proof -
  let ?r = "the (row_at demo_sq_leased ''i'')"
  have "row_at demo_sq_leased ''i'' = Some ?r \<and> is_active (status ?r) \<and> idempotency_key ?r = Some ''a'' \<and>
      rq_idempotency_key demo_sq_request = Some ''a'' \<and> rq_queue_id demo_sq_request = queue_id ?r \<and>
      \<not> blank (rq_kind demo_sq_request)"
    by code_simp
  from mp [OF conjunct1 [OF sq_enqueue_is_idempotent [OF demo_sq_leased_reach demo_sql_ok]] this, of "''j''" 7]
  obtain x d where e: "sq_enqueue demo_sql demo_sq_request ''j'' 7 demo_sq_leased = (Ok \<lparr>out_item = x, disposition = d\<rparr>, demo_sq_leased)"
    and x: "(\<forall>y \<in> set (rows demo_sq_leased). y \<noteq> ?r \<and> queue_id y = queue_id ?r \<and> idempotency_key y = Some ''a'' \<longrightarrow>
      ts demo_sql (created_at y) < ts demo_sql (created_at ?r)) \<longrightarrow> x = ?r \<and> d = ActiveDuplicate"
    by (elim exE conjE)
  have "rows demo_sq_leased = [?r]" by code_simp
  with x have "x = ?r \<and> d = ActiveDuplicate" by simp
  with e show ?thesis by simp
qed

section \<open>The schema gate and the columns\<close>











text \<open>
  C36. Stored columns read back, and nothing else does. A status, diagnostic code and failure class column
  is parsed to a value exactly when it holds the text that value is written as (a null code or class
  is the absent value), so writing and reading are inverse; when any of the three columns holds other
  text the row is refused and the caller gets a storage failure.
\<close>

theorem columns_round_trip:
  "(parse_status v = Inr st \<longleftrightarrow> v = status_str st) \<and>
   (read_code c = Inr c' \<longleftrightarrow> c = map_option diag_code c') \<and>
   (read_class k = Inr k' \<longleftrightarrow> k = map_option class_code k') \<and>
   (row_columns v c k = Inr (st, c', k') \<longleftrightarrow>
      v = status_str st \<and> c = map_option diag_code c' \<and> k = map_option class_code k') \<and>
   (v \<notin> range status_str \<or> c \<notin> range (map_option diag_code) \<or> k \<notin> range (map_option class_code) \<longrightarrow>
      caller_columns v c k = Inl (Storage StorageFailure))"
proof -
  have st: "parse_status v = Inr st \<longleftrightarrow> v = status_str st" for v st
    by (cases st) (auto simp: parse_status_def split: if_splits)
  have co: "read_code c = Inr c' \<longleftrightarrow> c = map_option diag_code c'" for c c'
    by (cases c; cases c') (auto simp: read_code_def split: option.splits dest: diag_parse_Some)
  have cl: "read_class k = Inr k' \<longleftrightarrow> k = map_option class_code k'" for k k'
    by (cases k; cases k') (auto simp: read_class_def split: option.splits dest: class_parse_Some)
  have row: "row_columns v c k = Inr (st, c', k') \<longleftrightarrow>
      v = status_str st \<and> c = map_option diag_code c' \<and> k = map_option class_code k'" for st c' k'
    unfolding st [symmetric] co [symmetric] cl [symmetric] by (auto simp: row_columns_def split: sum.splits)
  have "caller_columns v c k = Inl (Storage StorageFailure)"
    if "v \<notin> range status_str \<or> c \<notin> range (map_option diag_code) \<or> k \<notin> range (map_option class_code)"
  proof (cases "row_columns v c k")
    case (Inl e)
    then show ?thesis by (simp add: caller_columns_def storage_error_def)
  next
    case (Inr x)
    obtain a b d where "x = (a, b, d)" by (cases x)
    with Inr row [of a b d] that show ?thesis by blast
  qed
  with st [of v st] co [of c c'] cl [of k k'] row [of st c' k'] show ?thesis by (intro conjI impI)
qed

theorem columns_round_trip_witness:
  "caller_columns ''dead'' None (Some ''zzz'') = Inl (Storage StorageFailure) \<and> parse_status ''dead'' = Inr Dead"
proof -
  have "read_class (Some ''zzz'') = Inl invalid_stored_code" by code_simp
  then have "Some ''zzz'' \<notin> range (map_option class_code)"
    using columns_round_trip [of "''dead''" Dead None None "Some ''zzz''"] by fastforce
  then have "caller_columns ''dead'' None (Some ''zzz'') = Inl (Storage StorageFailure)"
    using columns_round_trip [of "''dead''" Dead None None "Some ''zzz''"] by blast
  moreover have "parse_status ''dead'' = Inr Dead"
    using columns_round_trip [of "''dead''" Dead] by simp
  ultimately show ?thesis by blast
qed

end
