(* ===== verification/Spec2Isabelle.thy ===== *)
theory Spec2Isabelle
  imports Portability_Props Spend_Properties Job_Store_Final Memory_Queue_Props Sqlite_Queue_Props
begin

text \<open>
  Verification of the Symbiotic foundation: queues, durable jobs, spend accounting, interchange.

  \<^bold>\<open>The program.\<close> The repository is a Rust workspace (\<^verbatim>\<open>src/crates\<close>) on which applications run model
  calls. \<^verbatim>\<open>symbiotic-core\<close> has the identities and the closed diagnostic codes. \<^verbatim>\<open>symbiotic-queue\<close> defines a
  work queue (items with leases, retries, idempotency keys and cooldowns) with an in-process backend,
  and the interface of a durable job store; \<^verbatim>\<open>symbiotic-queue-sqlite\<close> implements both on SQLite.
  \<^verbatim>\<open>symbiotic-ai-runtime\<close> keeps in the same database the spend ledger, which authorizes and settles every
  paid provider call. \<^verbatim>\<open>symbiotic-portability\<close> validates and presents data that crosses application borders.
  Providers (\<^verbatim>\<open>symbiotic-model\<close>), the process that holds credentials and the runtime that composes all of
  these call the components below.

  \<^bold>\<open>Theories and the code they model.\<close>
  \<^item> \<open>Prelude\<close>: types, machine integers, the clock interface, blank texts, association lists.
  \<^item> \<open>Core_Vocab\<close>: \<^verbatim>\<open>symbiotic-core/src/lib.rs\<close>, \<^verbatim>\<open>diagnostics.rs\<close>: model and binding identities, diagnostic codes and
    failure classes with their texts.
  \<^item> \<open>Queue_Types\<close>: \<^verbatim>\<open>symbiotic-queue/src/lib.rs\<close>: items, requests, outcomes, errors, latency statistics.
  \<^item> \<open>Memory_Queue\<close>: \<^verbatim>\<open>symbiotic-queue/src/memory.rs\<close>: the record \<open>mq\<close> is \<^verbatim>\<open>State\<close> with its four indexes, the poison
    flag of its lock and the emitted events; one definition per method.
  \<^item> \<open>Sqlite_Queue\<close>: \<^verbatim>\<open>symbiotic-queue-sqlite/src/lib.rs\<close>: the record \<open>sq\<close> is the content of the two queue tables; each
    SQL statement is a list operation, each method a transaction over them; the schema gate.
  \<^item> \<open>Job_Types\<close>, \<open>Job_Store\<close>: \<^verbatim>\<open>symbiotic-queue/src/jobs.rs\<close>, \<^verbatim>\<open>symbiotic-queue-sqlite/src/jobs.rs\<close>: the record \<open>jobs_db\<close> is
    the tables \<^verbatim>\<open>jobs\<close> and \<^verbatim>\<open>job_owners\<close>; one definition per request of \<^verbatim>\<open>apply_job_request\<close> and per row operation.
  \<^item> \<open>Spend_Types\<close>, \<open>Spend_Ledger\<close>: \<^verbatim>\<open>symbiotic-model/src/spend.rs\<close>, the error type of \<^verbatim>\<open>symbiotic-model/src/lib.rs\<close>, and
    \<^verbatim>\<open>symbiotic-ai-runtime/src/spend.rs\<close>: the record \<open>ledger\<close> is the tables \<^verbatim>\<open>spend_accounts\<close> and \<^verbatim>\<open>spend_receipts\<close>.
  \<^item> \<open>Portability\<close>, \<open>Portable_Table\<close>: \<^verbatim>\<open>symbiotic-portability/src\<close>: wire values, validation, artifact bytes, tables.

  \<^bold>\<open>Interfaces.\<close> \<open>Queue_Contract\<close> states the promises of a queue as locales: \<open>fenced_store\<close> (an
  acknowledgement succeeds exactly under a live lease), \<open>lease_queue\<close> (a claim grants a lease nobody else
  holds) and \<open>keyed_queue\<close> (one active item per key). Both backends interpret all three
  (\<open>mq_fence\<close>, \<open>mq_lease\<close>, \<open>mq_key\<close> in \<open>Memory_Queue_Contract\<close>; \<open>sq_fence\<close>, \<open>sq_lease\<close>, \<open>sq_key\<close> in
  \<open>Sqlite_Queue_Props\<close>). \<open>Store_Contract\<close> is the locale \<open>persistent_store\<close> of a store that never loses
  a record; the job store (\<open>js\<close>) and the spend ledger (\<open>ls\<close>) interpret it with their own step relation, invariant
  and evolution of a record, which gives the statements about all later states.

  \<^bold>\<open>What is shown.\<close>
  \<^item> In-process queue (\<open>Memory_Queue_Inv\<close>, \<open>Memory_Queue_Props\<close>): indexes agree with the items in every reachable
    state, no call panics under the lock, claims are exclusive, ordered and capped, acknowledgements
    are fenced, failures follow the retry policy, keys are idempotent, finished items never change and
    no item is lost that is waiting or has an attempt left.
  \<^item> SQLite queue (\<open>Sqlite_Queue_Inv\<close>, \<open>Sqlite_Queue_Props\<close>): the same guarantees on tables (only the answer to a
    repeated key depends on the clock moving forward), the column codecs are inverse, the schema gate; this theory
    shows that both backends answer acknowledgements alike.
  \<^item> Job store (\<open>Job_Store_Inv\<close>, \<open>Job_Store_Steps\<close>, \<open>Job_Store_Props\<close>, \<open>Job_Store_Final\<close>): the invariant of the tables, the
    life cycle of a job as a refinement of a small abstract machine in which no phase is skipped, claims in the order of
    creation, exclusive claims, a result recorded once,
    the first confirmation wins, erasure of an owner is complete, enqueueing is replayable and within
    capacity, and maintenance drains all expired copies.
  \<^item> Spend ledger (\<open>Spend_Ledger_Props\<close>, \<open>Spend_Properties\<close>): used amounts equal the receipts not released, one open
    attempt per invocation, attempts within the frozen limit, dispatch taken once, settlement final,
    and the expiry loop ends with nothing due left.
  \<^item> Interchange (\<open>Portability_Props\<close>): accepted bundles stay within the destination, bundle files are accepted
    exactly when they are the declared bytes below the root, presentations are inert.

  \<^bold>\<open>Parameters and hypotheses.\<close> Code outside the repository is an argument: \<^verbatim>\<open>chrono\<close> (record \<open>chrono\<close>; the one
  law used is \<open>chrono_forward\<close>), JSON sizes and SHA-256 (record \<open>codec\<close>), the RFC 3339 texts of instants
  (\<open>lease_text_ok\<close> says that the stored texts of the leases compare with that of the present as the
  instants do), the order in which SQLite visits rows (\<open>sql_ok\<close>: each matching row once), millisecond timestamps that
  grow with the instants (for the order of job claims), fresh random identities
  (\<open>fresh_ids\<close>), restored instants (\<open>env_ok\<close>), the CSV crate, the JSON reader and the file system. Each clock reading is an
  argument. Every property with hypotheses has a witness on a concrete run.

  \<^bold>\<open>Bounds.\<close> Nothing is fuelled: loops of the code are structural recursions or have a termination proof (the
  index walks of the in-process queue, the batched expiry of the ledger, the bounded byte reader). Unsigned integers are natural numbers
  with the bounds of checked, saturating and wrapping operations written out.

  \<^bold>\<open>Not modelled.\<close> Faults of the database and of the disk, connection handling, asynchronous scheduling and the
  worker loop (\<^verbatim>\<open>runner.rs\<close>), tests (\<^verbatim>\<open>conformance.rs\<close>), serde derives, the providers and their HTTP protocols, sockets
  and process isolation (\<^verbatim>\<open>symbiotic-egress\<close>, \<^verbatim>\<open>symbiotic-credential-process\<close>), supervision of child processes, the
  classification and routing logic of \<^verbatim>\<open>symbiotic-model\<close>, the permit registry of the credential process and the
  composition of job store and ledger in \<^verbatim>\<open>symbiotic-ai-runtime/src/jobs.rs\<close>. Of a connection only the stored
  journal mode is modelled, not its timeouts and synchronisation settings.
\<close>

section \<open>The two backends agree\<close>

text \<open>
  C35. The in-process and the SQLite backend give the same answer. When an item looks the same in both
  (in two good states), \<^verbatim>\<open>complete\<close> and \<^verbatim>\<open>fail_with\<close>, with or without a retry instant, made by the same
  worker at the same instant, return the same result in both, error included, and leave the same
  item behind. SQLite reads the clock a second time inside the transaction to check the lease; the
  two agree as long as the lease does not end between the two readings. A failure without a
  retry instant needs one second after the present to be a representable instant, else SQLite panics
  before the check.
\<close>

theorem backends_agree_on_acknowledgements:
  assumes "mq_good s" and "sq_good db t" and "item_at s i = row_at t i"
    and "\<And>it u. item_at s i = Some it \<Longrightarrow> lease_until it = Some u \<Longrightarrow> now \<le> u \<longleftrightarrow> chk \<le> u"
    and "fl_run_after f \<noteq> None \<or> checked_add_secs ch now 1 \<noteq> None"
  shows "fst (complete i w now s) = fst (sq_complete i w now chk t) \<and>
    item_at (snd (complete i w now s)) i = row_at (snd (sq_complete i w now chk t)) i \<and>
    fst (fail_with ch i w f now s) = fst (sq_fail_with ch i w f now chk t) \<and>
    item_at (snd (fail_with ch i w f now s)) i = row_at (snd (sq_fail_with ch i w f now chk t)) i"
proof -
  have same: "holds_lease (item_at s i) w now \<longleftrightarrow> holds_lease (row_at t i) w chk"
    using assms(4) unfolding assms(3) by (cases "row_at t i") (auto simp: holds_lease_Some assms(3))
  show ?thesis
  proof (cases "holds_lease (item_at s i) w now")
    case False
    then show ?thesis
      using assms(1,3,5) same by (simp add: complete_fenced fail_with_fenced complete_fenced_sq fail_fenced_sq)
  next
    case True
    then obtain it where it: "item_at s i = Some it" "holds_lease (Some it) w now" by (metis holds_leaseE)
    then have row: "row_at t i = Some it" "holds_lease (Some it) w chk" using assms(3) same by simp_all
    obtain x where r: "(case fl_run_after f of Some t \<Rightarrow> Some t | None \<Rightarrow> checked_add_secs ch now 1) = Some x"
      using assms(5) by (cases "fl_run_after f") auto
    from complete_live [OF assms(1) it] complete_live_sq [OF assms(2) row, of now]
      fail_with_live [OF assms(1) it r] fail_live_sq [OF assms(2) row r]
    show ?thesis by (auto simp: evolves_def)
  qed
qed

text \<open>A failure without a retry instant, reported while the lease is live.\<close>

theorem backends_agree_on_acknowledgements_witness:
  "fst (complete ''i'' ''w'' 5 demo_leased) = fst (sq_complete ''i'' ''w'' 5 6 demo_sq_leased) \<and>
   fst (sq_fail_with plain_clock ''i'' ''w'' \<lparr>fl_error = LeaseExpired, fl_error_class = None, fl_run_after = None\<rparr> 5 6 demo_sq_leased)
     = Ok FailStopped"
proof -
  let ?f = "\<lparr>fl_error = LeaseExpired, fl_error_class = None, fl_run_after = None\<rparr>"
  have "item_at demo_leased ''i'' = row_at demo_sq_leased ''i''" by code_simp
  moreover have "lease_until (the (item_at demo_leased ''i'')) = Some 11" by code_simp
  then have "(5 \<le> u) = (6 \<le> u)" if "item_at demo_leased ''i'' = Some it" "lease_until it = Some u" for it u
    using that by simp
  moreover have "checked_add_secs plain_clock 5 1 \<noteq> None" by (simp add: plain_clock_def)
  ultimately have "fst (complete ''i'' ''w'' 5 demo_leased) = fst (sq_complete ''i'' ''w'' 5 6 demo_sq_leased) \<and>
      fst (fail_with plain_clock ''i'' ''w'' ?f 5 demo_leased) = fst (sq_fail_with plain_clock ''i'' ''w'' ?f 5 6 demo_sq_leased)"
    using backends_agree_on_acknowledgements [OF mq_reach_good [OF demo_leased_reach] demo_sq_good(2), of "''i''" 5 6 ?f
        plain_clock "''w''"] by blast
  moreover have "fst (fail_with plain_clock ''i'' ''w'' ?f 5 demo_leased) = Ok FailStopped" by code_simp
  ultimately show ?thesis by simp
qed

section \<open>Identities and telemetry\<close>

text \<open>
  C39. When two models have no colon in their operation and operator, they share a queue only if they are
  the same model: the derived queue identity determines operation, operator and model name (which may
  contain colons). Without that condition, which no constructor enforces, it does not: for every
  model name two different models get the same queue.
\<close>

theorem model_queue_id_injective:
  "(CHR '':'' \<notin> set (operation a) \<union> set (operation b) \<union> set (operator a) \<union> set (operator b) \<longrightarrow>
      (model_queue_id a = model_queue_id b \<longleftrightarrow> a = b)) \<and>
   (\<exists>x y. x = ModelIdentity_new ''a:b'' ''c'' m \<and> y = ModelIdentity_new ''a'' ''b:c'' m \<and>
      x \<noteq> y \<and> model_queue_id x = model_queue_id y)"
proof
  have "a = b" if c: "CHR '':'' \<notin> set (operation a) \<union> set (operation b) \<union> set (operator a) \<union> set (operator b)"
    and q: "model_queue_id a = model_queue_id b"
  proof -
    have "operation a @ '':'' @ (operator a @ '':'' @ model a) = operation b @ '':'' @ (operator b @ '':'' @ model b)"
      using q by (simp only: model_queue_id_def)
    from append_colon_inj [OF _ _ this] c have
      op: "operation a = operation b" and rest: "operator a @ '':'' @ model a = operator b @ '':'' @ model b" by simp_all
    from append_colon_inj [OF _ _ rest] op c show ?thesis
      by (intro ModelIdentity.equality) simp_all
  qed
  then show "CHR '':'' \<notin> set (operation a) \<union> set (operation b) \<union> set (operator a) \<union> set (operator b) \<longrightarrow>
      (model_queue_id a = model_queue_id b \<longleftrightarrow> a = b)" by blast
  show "\<exists>x y. x = ModelIdentity_new ''a:b'' ''c'' m \<and> y = ModelIdentity_new ''a'' ''b:c'' m \<and>
      x \<noteq> y \<and> model_queue_id x = model_queue_id y"
    by (simp add: ModelIdentity_new_def model_queue_id_def)
qed

theorem model_queue_id_injective_witness:
  "model_queue_id (ModelIdentity_new ''chat'' ''x'' ''m'') \<noteq> model_queue_id (ModelIdentity_new ''chat'' ''y'' ''m'')"
proof -
  have "CHR '':'' \<notin> set (operation (ModelIdentity_new ''chat'' ''x'' ''m'')) \<union> set (operation (ModelIdentity_new ''chat'' ''y'' ''m'')) \<union>
      set (operator (ModelIdentity_new ''chat'' ''x'' ''m'')) \<union> set (operator (ModelIdentity_new ''chat'' ''y'' ''m''))"
    by (simp add: ModelIdentity_new_def)
  moreover have "ModelIdentity_new ''chat'' ''x'' ''m'' \<noteq> ModelIdentity_new ''chat'' ''y'' ''m''" by (simp add: ModelIdentity_new_def)
  ultimately show ?thesis
    using model_queue_id_injective [of "ModelIdentity_new ''chat'' ''x'' ''m''" "ModelIdentity_new ''chat'' ''y'' ''m''"] by blast
qed

text \<open>
  What the latency percentiles mean: for a non-empty sample set the reported value is one of the
  samples, at least the given share of the samples is not above it and less than that share lies
  strictly below it; the maximum bounds every sample and the count is the number of samples.
\<close>

theorem from_samples_percentiles:
  assumes "samples \<noteq> []"
  shows "ls_count (from_samples samples) = length samples \<and>
    p50_ms (from_samples samples) \<in> set samples \<and> p95_ms (from_samples samples) \<in> set samples \<and>
    50 * length samples \<le> 100 * length (filter (\<lambda>x. x \<le> p50_ms (from_samples samples)) samples) \<and>
    100 * length (filter (\<lambda>x. x < p50_ms (from_samples samples)) samples) < 50 * length samples \<and>
    95 * length samples \<le> 100 * length (filter (\<lambda>x. x \<le> p95_ms (from_samples samples)) samples) \<and>
    100 * length (filter (\<lambda>x. x < p95_ms (from_samples samples)) samples) < 95 * length samples \<and>
    max_ms (from_samples samples) \<in> set samples \<and> (\<forall>x \<in> set samples. x \<le> max_ms (from_samples samples))"
proof -
  let ?s = "sort samples"
  have ne: "?s \<noteq> []" using assms by (metis set_empty set_sort)
  have len: "length (filter P ?s) = length (filter P samples)" for P
    by (metis filter_sort length_sort)
  have rank: "nearest_rank ?s p \<in> set samples \<and>
      p * length samples \<le> 100 * length (filter (\<lambda>x. x \<le> nearest_rank ?s p) samples) \<and>
      100 * length (filter (\<lambda>x. x < nearest_rank ?s p) samples) < p * length samples" if p: "0 < p" "p \<le> 100" for p
  proof -
    let ?d = "div_ceil (p * length ?s) 100"
    let ?i = "max ?d 1 - 1"
    have pos: "0 < p * length ?s" using p assms by simp
    have i: "?i < length ?s" by (rule rank_in_range [OF ne p(2)])
    have d: "p * length ?s \<le> 100 * ?d" "100 * (?d - 1) < p * length ?s"
      using div_ceil_bounds [of 100 "p * length ?s"] pos by simp_all
    have at: "nearest_rank ?s p = ?s ! ?i" by (simp add: nearest_rank_def Let_def)
    note c = sorted_prefix_count [OF sorted_sort i, folded at, unfolded len]
    have "?d \<le> Suc ?i" "?i \<le> ?d - 1 \<or> ?d = 0" by auto
    moreover have "?d \<noteq> 0" using d(1) pos by (metis mult_0_right not_le)
    ultimately have "p * length samples \<le> 100 * length (filter (\<lambda>x. x \<le> nearest_rank ?s p) samples)"
      "100 * length (filter (\<lambda>x. x < nearest_rank ?s p) samples) < p * length samples"
      using c d by simp_all
    moreover have "nearest_rank ?s p \<in> set samples" unfolding at using i nth_mem [of ?i ?s] by simp
    ultimately show ?thesis by blast
  qed
  have "last ?s \<in> set samples" using last_in_set [OF ne] by simp
  moreover have "\<forall>x \<in> set samples. x \<le> last ?s"
    using last_sort_key(2) [OF assms, where f = "\<lambda>x. x"] by simp
  ultimately show ?thesis
    using rank [of 50] rank [of 95] assms by (simp add: from_samples_def Let_def)
qed

theorem from_samples_percentiles_witness: "max_ms (from_samples [3, 1, 2]) \<in> set [3, 1, 2]"
  using from_samples_percentiles [of "[3, 1, 2]"] by blast

end
